(* ===== verification/Prelude.thy ===== *)
theory Prelude
  imports Main "HOL-Library.Word" "HOL-Library.Multiset" "HOL-Library.Sublist" "HOL-Library.Stream"
    "HOL-Library.Monad_Syntax"
begin

section \<open>Prelude: collections, type names and generic lemmas\<close>

text \<open>
  What every component theory shares: the names of the machine-integer types of the Go code, the
  theorem collections the component proofs draw on, the reading of Go results (an error is an
  option, a value with an error is a sum, a panic is the absent value of an option), and generic
  lemmas on lists, multisets and words. Nothing here mentions the program.
\<close>

subsection \<open>Names of the Go types\<close>

type_synonym byte = "8 word"
type_synonym u32 = "32 word"
type_synonym u64 = "64 word"

text \<open>
  A Go operation that may panic returns an option: \<open>None\<close> is the panic, which ends the process,
  since no handler of the program recovers one.
\<close>

type_synonym 'a may_panic = "'a option"

subsection \<open>Theorem collections\<close>

named_theorems file_simps \<open>how the os.File operations act on an undisturbed file\<close>
named_theorems wal_simps \<open>what the log operations do on a well-formed log\<close>
named_theorems store_simps \<open>unfolding of the in-memory operations\<close>
named_theorems inv_intros \<open>preservation of the invariants by the operations\<close>

subsection \<open>Swap removal from a slice\<close>

text \<open>
  The idiom the code uses to take one element out of an unordered slice: the last element
  overwrites the first occurrence, and the slice is cut by one.
\<close>

fun index_of :: "'a \<Rightarrow> 'a list \<Rightarrow> nat option" where
  "index_of x [] = None"
| "index_of x (y # ys) = (if y = x then Some 0 else map_option Suc (index_of x ys))"

definition swap_remove :: "'a \<Rightarrow> 'a list \<Rightarrow> 'a list" where
  "swap_remove x xs =
     (case index_of x xs of
        None \<Rightarrow> xs
      | Some i \<Rightarrow> butlast (xs[i := last xs]))"

lemma index_of_Some: "index_of x xs = Some i \<Longrightarrow> i < length xs \<and> xs ! i = x"
  by (induction xs arbitrary: i) (auto split: if_splits)

lemma index_of_None: "index_of x xs = None \<longleftrightarrow> x \<notin> set xs"
  by (induction xs) auto

lemma mset_butlast: "xs \<noteq> [] \<Longrightarrow> mset (butlast xs) = mset xs - {#last xs#}"
  by (induction xs rule: rev_induct) auto

text \<open>The swap is an implementation of removing one occurrence.\<close>

lemma mset_swap_remove: "mset (swap_remove x xs) = mset xs - {#x#}"
proof (cases "index_of x xs")
  case None
  then have "x \<notin># mset xs" by (simp add: index_of_None)
  with None show ?thesis by (simp add: swap_remove_def)
next
  case (Some i)
  then have i: "i < length xs" "xs ! i = x" by (auto dest: index_of_Some)
  then have ne: "xs \<noteq> []" by auto
  have "mset (xs[i := last xs]) = add_mset (last xs) (mset xs - {#x#})"
    using i by (simp add: mset_update)
  moreover have "last (xs[i := last xs]) = last xs"
    using i ne by (simp add: last_conv_nth nth_list_update)
  ultimately show ?thesis
    using Some ne by (simp add: swap_remove_def mset_butlast)
qed

lemma count_swap_remove:
  "count (mset (swap_remove x xs)) y = count (mset xs) y - (if y = x then 1 else 0)"
  by (simp add: mset_swap_remove)

lemma set_count: "y \<in> set xs \<longleftrightarrow> 0 < count (mset xs) y"
  by (simp add: count_greater_zero_iff)

lemma distinct_count: "distinct xs \<longleftrightarrow> (\<forall>y. count (mset xs) y \<le> 1)"
  by (metis count_mset_0_iff distinct_count_atmost_1 le_numeral_extra(4) zero_le_one le_antisym
      One_nat_def Suc_leI not_gr_zero)

lemma set_swap_remove [simp]:
  assumes "distinct xs"
  shows "set (swap_remove x xs) = set xs - {x}"
proof (rule set_eqI)
  fix y
  have "count (mset xs) y \<le> 1" using assms by (simp add: distinct_count)
  then show "y \<in> set (swap_remove x xs) \<longleftrightarrow> y \<in> set xs - {x}"
    unfolding Diff_iff set_count [of y] count_swap_remove by (auto split: if_splits)
qed

lemma distinct_swap_remove [simp]: "distinct xs \<Longrightarrow> distinct (swap_remove x xs)"
  by (fastforce simp: distinct_count count_swap_remove intro: le_trans)

subsection \<open>Streams of outcomes\<close>

text \<open>
  The outcomes of an outside device (a disk, a network) are a stream, one element per use.
  The stream of a device that never fails again is constant.
\<close>

lemma sconst_shd [simp]: "shd (sconst x) = x"
  by (subst siterate.code) simp

lemma sconst_stl [simp]: "stl (sconst x) = sconst x"
  by (subst siterate.code) simp

end
