(* ===== verification/GoLib.thy ===== *)
theory GoLib
  imports Prelude
begin

section \<open>The part of Go's standard library the program uses\<close>

text \<open>
  Error values and their text, decimal formatting and parsing, big-endian integers, the file
  handle \<open>os.File\<close> with \<open>io.ReadFull\<close>, buffered channels and IPv4 addresses: each as the
  language reference and the package documentation describe them. The outcome of a system call is
  not determined by the program: every file carries the stream of the outcomes its coming calls
  will have, and the theorems quantify over it.
\<close>

subsection \<open>Errors\<close>

text \<open>
  \<open>Errorf\<close> is a fresh error with its text, \<open>Wrapf\<close> is \<open>fmt.Errorf("p: %w", err)\<close>, \<open>SysErr\<close>
  an error of the operating system, the network or a third-party package. A Go result of type
  \<open>error\<close> is an \<open>error option\<close>, with \<open>None\<close> for nil.
\<close>

datatype error =
    EOF
  | ErrUnexpectedEOF
  | ErrInvalid
  | SysErr string
  | Errorf string
  | Wrapf string error

fun err_Error :: "error \<Rightarrow> string" where
  "err_Error EOF = ''EOF''"
| "err_Error ErrUnexpectedEOF = ''unexpected EOF''"
| "err_Error ErrInvalid = ''invalid argument''"
| "err_Error (SysErr m) = m"
| "err_Error (Errorf m) = m"
| "err_Error (Wrapf p e) = p @ '': '' @ err_Error e"

subsection \<open>Decimal numbers\<close>

definition digit :: "nat \<Rightarrow> char" where
  "digit d = char_of (48 + d)"

fun dec :: "nat \<Rightarrow> string" where
  "dec n = (if n < 10 then [digit n] else dec (n div 10) @ [digit (n mod 10)])"

declare dec.simps [simp del]

text \<open>The verb \<open>%d\<close> on a signed integer.\<close>

definition fmt_d :: "int \<Rightarrow> string" where
  "fmt_d i = (if i < 0 then CHR ''-'' # dec (nat (- i)) else dec (nat i))"

definition is_digit :: "char \<Rightarrow> bool" where
  "is_digit c \<longleftrightarrow> 48 \<le> (of_char c :: nat) \<and> (of_char c :: nat) \<le> 57"

definition digit_val :: "char \<Rightarrow> nat" where
  "digit_val c = of_char c - 48"

text \<open>
  \<open>strconv.ParseUint(s, 10, bits)\<close>: the value and the error. A bad character gives 0 and a syntax
  error; a value that does not fit gives the largest value and a range error, at the digit where
  it stops fitting.
\<close>

fun parse_uint_loop :: "nat \<Rightarrow> nat \<Rightarrow> string \<Rightarrow> nat \<times> error option" where
  "parse_uint_loop mx n [] = (n, None)"
| "parse_uint_loop mx n (c # cs) =
     (if \<not> is_digit c then (0, Some (Errorf ''invalid syntax''))
      else (let n' = 10 * n + digit_val c in
        if n' > mx then (mx, Some (Errorf ''value out of range''))
        else parse_uint_loop mx n' cs))"

definition ParseUint :: "string \<Rightarrow> nat \<Rightarrow> nat \<times> error option" where
  "ParseUint s bits =
     (if s = [] then (0, Some (Errorf ''invalid syntax''))
      else parse_uint_loop (2 ^ bits - 1) 0 s)"

subsection \<open>Big-endian integers\<close>

definition PutUint32 :: "u32 \<Rightarrow> byte list" where
  "PutUint32 v = [ucast (drop_bit 24 v), ucast (drop_bit 16 v), ucast (drop_bit 8 v), ucast v]"

definition Uint32 :: "byte list \<Rightarrow> u32" where
  "Uint32 b =
     or (ucast (b ! 3)) (or (push_bit 8 (ucast (b ! 2)))
       (or (push_bit 16 (ucast (b ! 1))) (push_bit 24 (ucast (b ! 0)))))"

subsection \<open>Files\<close>

text \<open>
  The outcome of one call on a file: it succeeds, or it fails with a message after having moved
  some bytes.
\<close>

datatype io_fate = IOok | IOerr nat string

record File =
  content :: "byte list"
  offset :: nat
  opened :: bool
  faults :: "io_fate stream"

text \<open>
  \<open>opened = False\<close> is a nil \<open>*os.File\<close>: its methods return \<open>os.ErrInvalid\<close> and touch nothing.
  \<open>overwrite\<close> is a write at a position: the file is extended with zeros when the position is past
  its end, and bytes after the written ones stay.
\<close>

definition overwrite :: "nat \<Rightarrow> byte list \<Rightarrow> byte list \<Rightarrow> byte list" where
  "overwrite pos bs xs =
     take pos xs @ replicate (pos - length xs) 0 @ bs @ drop (pos + length bs) xs"

definition put_bytes :: "byte list \<Rightarrow> File \<Rightarrow> File" where
  "put_bytes bs f =
     f\<lparr>content := overwrite (offset f) bs (content f), offset := offset f + length bs\<rparr>"

definition use_fate :: "File \<Rightarrow> File" where
  "use_fate f = f\<lparr>faults := stl (faults f)\<rparr>"

definition file_Write :: "byte list \<Rightarrow> File \<Rightarrow> error option \<times> File" where
  "file_Write bs f =
     (if \<not> opened f then (Some ErrInvalid, f)
      else case shd (faults f) of
        IOok \<Rightarrow> (None, put_bytes bs (use_fate f))
      | IOerr n m \<Rightarrow> (Some (SysErr m), put_bytes (take n bs) (use_fate f)))"

definition file_Sync :: "File \<Rightarrow> error option \<times> File" where
  "file_Sync f =
     (if \<not> opened f then (Some ErrInvalid, f)
      else case shd (faults f) of
        IOok \<Rightarrow> (None, use_fate f)
      | IOerr n m \<Rightarrow> (Some (SysErr m), use_fate f))"

definition file_SeekStart :: "File \<Rightarrow> error option \<times> File" where
  "file_SeekStart f =
     (if \<not> opened f then (Some ErrInvalid, f)
      else case shd (faults f) of
        IOok \<Rightarrow> (None, (use_fate f)\<lparr>offset := 0\<rparr>)
      | IOerr n m \<Rightarrow> (Some (SysErr m), use_fate f))"

definition file_Close :: "File \<Rightarrow> error option \<times> File" where
  "file_Close f =
     (case shd (faults f) of
        IOok \<Rightarrow> (None, use_fate f)
      | IOerr n m \<Rightarrow> (Some (SysErr m), use_fate f))"

text \<open>
  \<open>io.ReadFull\<close> for a buffer of \<open>n\<close> bytes: \<open>EOF\<close> when no byte is left, \<open>ErrUnexpectedEOF\<close> when
  some but too few are, the error of the device when it fails before the buffer is full.
\<close>

definition rest :: "File \<Rightarrow> byte list" where
  "rest f = drop (offset f) (content f)"

definition ReadFull :: "nat \<Rightarrow> File \<Rightarrow> (error + byte list) \<times> File" where
  "ReadFull n f =
     (if n = 0 then (Inr [], f)
      else if \<not> opened f then (Inl ErrInvalid, f)
      else case shd (faults f) of
        IOerr k m \<Rightarrow>
          (Inl (SysErr m), (use_fate f)\<lparr>offset := offset f + min k (min (n - 1) (length (rest f)))\<rparr>)
      | IOok \<Rightarrow>
          (let chunk = take n (rest f); f' = (use_fate f)\<lparr>offset := offset f + length chunk\<rparr> in
           if length chunk = n then (Inr chunk, f')
           else if chunk = [] then (Inl EOF, f')
           else (Inl ErrUnexpectedEOF, f')))"

text \<open>
  \<open>file.Read\<close> with a non-empty buffer of \<open>n\<close> bytes: as many bytes as there are, \<open>EOF\<close> when there
  are none, no byte when the device fails.
\<close>

definition file_Read :: "nat \<Rightarrow> File \<Rightarrow> byte list \<times> error option \<times> File" where
  "file_Read n f =
     (if \<not> opened f then ([], Some ErrInvalid, f)
      else case shd (faults f) of
        IOerr k m \<Rightarrow> ([], Some (SysErr m), use_fate f)
      | IOok \<Rightarrow>
          (let chunk = take n (rest f); f' = (use_fate f)\<lparr>offset := offset f + length chunk\<rparr> in
           (chunk, if chunk = [] then Some EOF else None, f')))"

text \<open>
  \<open>os.OpenFile(path, O_RDWR|O_CREATE, 0644)\<close> on a disk: the handle starts at offset 0, a missing
  file is created empty.
\<close>

definition OpenFile :: "string \<Rightarrow> (string \<rightharpoonup> byte list) \<Rightarrow> io_fate stream \<Rightarrow> error + File" where
  "OpenFile path disk fs =
     (case shd fs of
        IOok \<Rightarrow>
          Inr \<lparr>content = (case disk path of None \<Rightarrow> [] | Some bs \<Rightarrow> bs),
               offset = 0, opened = True, faults = stl fs\<rparr>
      | IOerr n m \<Rightarrow> Inl (SysErr m))"

subsection \<open>Channels\<close>

record 'a chan =
  buf :: "'a list"
  cap :: nat
  closed :: bool

definition make_chan :: "nat \<Rightarrow> 'a chan" where
  "make_chan n = \<lparr>buf = [], cap = n, closed = False\<rparr>"

definition chan_close :: "'a chan \<Rightarrow> 'a chan may_panic" where
  "chan_close ch = (if closed ch then None else Some (ch\<lparr>closed := True\<rparr>))"

text \<open>
  \<open>select { case ch <- v: default: }\<close>: the value is dropped when the buffer is full; sending on a
  closed channel panics also under select.
\<close>

definition chan_try_send :: "'a \<Rightarrow> 'a chan \<Rightarrow> 'a chan may_panic" where
  "chan_try_send v ch =
     (if closed ch then None
      else if length (buf ch) < cap ch then Some (ch\<lparr>buf := buf ch @ [v]\<rparr>) else Some ch)"

text \<open>What \<open>v, ok := <-ch\<close> does: it waits, or it takes the oldest value, or the channel is done.\<close>

datatype 'a recv = Blocked | Got 'a | Drained

definition chan_recv :: "'a chan \<Rightarrow> 'a recv \<times> 'a chan" where
  "chan_recv ch =
     (case buf ch of
        v # vs \<Rightarrow> (Got v, ch\<lparr>buf := vs\<rparr>)
      | [] \<Rightarrow> (if closed ch then Drained else Blocked, ch))"

subsection \<open>Words of a line\<close>

text \<open>
  \<open>strings.Fields\<close> and \<open>strings.TrimSpace\<close> on ASCII text: the six ASCII space characters separate.
\<close>

definition is_space :: "char \<Rightarrow> bool" where
  "is_space c \<longleftrightarrow> of_char c \<in> {9 :: nat, 10, 11, 12, 13, 32}"

definition TrimSpace :: "string \<Rightarrow> string" where
  "TrimSpace s = rev (dropWhile is_space (rev (dropWhile is_space s)))"

function Fields :: "string \<Rightarrow> string list" where
  "Fields s =
     (let t = dropWhile is_space s in
      if t = [] then []
      else takeWhile (\<lambda>c. \<not> is_space c) t # Fields (dropWhile (\<lambda>c. \<not> is_space c) t))"
  by pat_completeness auto
termination
proof (relation "measure length", goal_cases)
  case (2 s t)
  have "length (dropWhile (\<lambda>c. \<not> is_space c) t) < length t"
  proof (cases t)
    case (Cons c cs)
    with 2 have "\<not> is_space c" using hd_dropWhile [of is_space s] by (metis list.sel(1))
    with Cons show ?thesis by (simp add: length_dropWhile_le less_Suc_eq_le)
  qed (use 2 in simp)
  also have "length t \<le> length s" using 2 by (simp add: length_dropWhile_le)
  finally show ?case by simp
qed simp

declare Fields.simps [simp del]

subsection \<open>IPv4 addresses\<close>

text \<open>
  \<open>net.ParseIP\<close> on dotted quads: four decimal fields of at most 255 with no leading zero. The
  program parses only \<open>127.0.0.1\<close>, or an address it logged earlier; the IPv6 notation is outside
  this model and reads as the nil address, as any other text does.
\<close>

datatype IP = IPv4 byte byte byte byte | IPnil

fun split_on :: "char \<Rightarrow> string \<Rightarrow> string list" where
  "split_on c [] = [[]]"
| "split_on c (x # xs) =
     (if x = c then [] # split_on c xs
      else case split_on c xs of [] \<Rightarrow> [[x]] | y # ys \<Rightarrow> (x # y) # ys)"

definition parse_octet :: "string \<Rightarrow> byte option" where
  "parse_octet s =
     (if s = [] \<or> (hd s = CHR ''0'' \<and> length s > 1) then None
      else case ParseUint s 8 of
        (n, None) \<Rightarrow> Some (of_nat n)
      | (_, Some _) \<Rightarrow> None)"

definition ParseIP :: "string \<Rightarrow> IP" where
  "ParseIP s =
     (case map parse_octet (split_on (CHR ''.'') s) of
        [Some a, Some b, Some c, Some d] \<Rightarrow> IPv4 a b c d
      | _ \<Rightarrow> IPnil)"

fun IP_String :: "IP \<Rightarrow> string" where
  "IP_String (IPv4 a b c d) =
     dec (unat a) @ ''.'' @ dec (unat b) @ ''.'' @ dec (unat c) @ ''.'' @ dec (unat d)"
| "IP_String IPnil = ''<nil>''"

subsection \<open>Facts about decimal numbers\<close>

definition undec :: "string \<Rightarrow> nat" where
  "undec s = foldl (\<lambda>n c. 10 * n + digit_val c) 0 s"

lemma digit_facts [simp]:
  assumes "d < 10"
  shows "is_digit (digit d)" and "digit_val (digit d) = d"
  using assms by (simp_all add: is_digit_def digit_val_def digit_def)

lemma digit_inject [simp]: "d < 10 \<Longrightarrow> e < 10 \<Longrightarrow> digit d = digit e \<longleftrightarrow> d = e"
  by (metis digit_facts(2))

lemma digit_zero [simp]: "d < 10 \<Longrightarrow> digit d = CHR ''0'' \<longleftrightarrow> d = 0"
proof -
  assume "d < 10"
  moreover have "digit 0 = CHR ''0''" by code_simp
  ultimately show ?thesis by (metis digit_inject zero_less_numeral)
qed

lemma dec_small [simp]: "n < 10 \<Longrightarrow> dec n = [digit n]"
  by (simp add: dec.simps)

lemma dec_large: "\<not> n < 10 \<Longrightarrow> dec n = dec (n div 10) @ [digit (n mod 10)]"
  by (subst dec.simps) simp

lemma dec_induct [case_names small large]:
  assumes "\<And>n. n < 10 \<Longrightarrow> P n" and "\<And>n. \<not> n < 10 \<Longrightarrow> P (n div 10) \<Longrightarrow> P n"
  shows "P (n :: nat)"
  using assms by (induction n rule: less_induct) (metis div_less_dividend gr0I not_less_iff_gr_or_eq
      one_less_numeral_iff semiring_norm(76) zero_less_numeral)

lemma dec_nonempty [simp]: "dec n \<noteq> []"
  by (cases "n < 10") (simp_all add: dec_large)

lemma dec_digits: "c \<in> set (dec n) \<Longrightarrow> is_digit c"
  by (induction n rule: dec_induct) (auto simp: dec_large)

lemma undec_snoc [simp]: "undec (s @ [c]) = 10 * undec s + digit_val c"
  by (simp add: undec_def)

lemma undec_dec [simp]: "undec (dec n) = n"
  by (induction n rule: dec_induct) (simp_all add: dec_large, simp add: undec_def)

lemma dec_inject [simp]: "dec m = dec n \<longleftrightarrow> m = n"
  by (metis undec_dec)

lemma dec_no_leading_zero: "0 < n \<Longrightarrow> hd (dec n) \<noteq> CHR ''0''"
  by (induction n rule: dec_induct) (auto simp: dec_large hd_append div_greater_zero_iff)

text \<open>Parsing a printed number gives it back, as long as it fits.\<close>

lemma foldl_digits_mono: "m \<le> foldl (\<lambda>n c. 10 * n + digit_val c) m s"
proof (induction s arbitrary: m)
  case (Cons c s)
  have "m \<le> 10 * m + digit_val c" by simp
  also have "\<dots> \<le> foldl (\<lambda>n c. 10 * n + digit_val c) (10 * m + digit_val c) s" by (rule Cons.IH)
  finally show ?case by simp
qed simp

lemma parse_uint_loop_digits:
  assumes "\<And>c. c \<in> set s \<Longrightarrow> is_digit c" and "foldl (\<lambda>n c. 10 * n + digit_val c) n s \<le> mx"
  shows "parse_uint_loop mx n s = (foldl (\<lambda>n c. 10 * n + digit_val c) n s, None)"
  using assms
proof (induction s arbitrary: n)
  case Nil
  then show ?case by simp
next
  case (Cons c s)
  from foldl_digits_mono [of "10 * n + digit_val c" s] Cons.prems(2)
  have "10 * n + digit_val c \<le> mx" by simp
  with Cons show ?case by (simp add: Let_def)
qed

lemma ParseUint_dec: "n < 2 ^ bits \<Longrightarrow> ParseUint (dec n) bits = (n, None)"
proof -
  assume "n < 2 ^ bits"
  then have "undec (dec n) \<le> 2 ^ bits - 1" by simp
  then have "parse_uint_loop (2 ^ bits - 1) 0 (dec n) = (undec (dec n), None)"
    unfolding undec_def by (intro parse_uint_loop_digits) (auto intro: dec_digits)
  then show ?thesis by (simp add: ParseUint_def)
qed

lemma ParseUint_bound: "fst (ParseUint s bits) < 2 ^ bits"
proof -
  have "n \<le> mx \<Longrightarrow> fst (parse_uint_loop mx n s) \<le> mx" for n mx
    by (induction mx n s rule: parse_uint_loop.induct) (auto simp: Let_def)
  from this [of 0 "2 ^ bits - 1"] show ?thesis
    by (simp add: ParseUint_def less_eq_Suc_le [symmetric] Suc_le_eq le_less_trans)
qed

subsection \<open>Facts about addresses\<close>

lemma split_on_nonempty [simp]: "split_on c s \<noteq> []"
  by (induction s) (auto split: list.splits)

lemma split_on_no_sep: "c \<notin> set s \<Longrightarrow> split_on c s = [s]"
  by (induction s) auto

lemma split_on_append: "c \<notin> set s \<Longrightarrow> split_on c (s @ c # t) = s # split_on c t"
  by (induction s) (auto split: list.splits)

lemma dot_not_in_dec: "CHR ''.'' \<notin> set (dec n)"
  by (auto dest: dec_digits simp: is_digit_def)

lemma colon_not_in_dec: "CHR '':'' \<notin> set (dec n)"
  by (auto dest: dec_digits simp: is_digit_def)

lemma parse_octet_dec [simp]: "parse_octet (dec (unat b)) = Some b"
proof -
  have "ParseUint (dec (unat b)) 8 = (unat b, None)"
    using unsigned_less [of b, where 'a = nat] by (intro ParseUint_dec) simp
  moreover have "\<not> (hd (dec (unat b)) = CHR ''0'' \<and> length (dec (unat b)) > 1)"
    using dec_no_leading_zero [of "unat b"] by (cases "unat b = 0") auto
  ultimately show ?thesis by (simp add: parse_octet_def)
qed

lemma ParseIP_String: "ParseIP (IP_String (IPv4 a b c d)) = IPv4 a b c d"
  by (simp add: ParseIP_def split_on_append split_on_no_sep dot_not_in_dec)

subsection \<open>Facts about big-endian integers\<close>

lemma PutUint32_length [simp]: "length (PutUint32 v) = 4"
  by (simp add: PutUint32_def)

lemma PutUint32_nonempty [simp]: "PutUint32 v \<noteq> []"
  by (simp add: PutUint32_def)

lemma Uint32_PutUint32 [simp]: "Uint32 (PutUint32 v) = v"
proof (rule bit_word_eqI)
  fix n
  assume "n < LENGTH(32)"
  then consider "n < 8" | "8 \<le> n" "n < 16" | "16 \<le> n" "n < 24" | "24 \<le> n" "n < 32"
    by fastforce
  then show "bit (Uint32 (PutUint32 v)) n = bit v n"
    by cases (auto simp: Uint32_def PutUint32_def bit_simps nth_Cons')
qed

subsection \<open>Facts about files\<close>

text \<open>
  A healthy file is an open one whose device does not fail. What is still to be read of a file is
  its size, the measure of the read loops.
\<close>

definition healthy :: "File \<Rightarrow> bool" where
  "healthy f \<longleftrightarrow> opened f \<and> faults f = sconst IOok"

instantiation File_ext :: (type) size
begin

definition size_File_ext :: "'a File_ext \<Rightarrow> nat" where
  "size_File_ext f = length (content f) - offset f"

instance ..

end

lemma size_File [simp]: "size (f :: File) = length (rest f)"
  by (simp add: size_File_ext_def rest_def)

lemma healthy_use_fate [simp]: "healthy f \<Longrightarrow> use_fate f = f"
  by (simp add: healthy_def use_fate_def)

lemma healthy_update [simp]:
  "healthy (f\<lparr>offset := n\<rparr>) = healthy f" "healthy (f\<lparr>content := bs\<rparr>) = healthy f"
  by (simp_all add: healthy_def)

lemma rest_update [simp]:
  "rest (f\<lparr>offset := n\<rparr>) = drop n (content f)"
  by (simp add: rest_def)

lemma overwrite_end [simp]: "overwrite (length xs) bs xs = xs @ bs"
  by (simp add: overwrite_def)

lemma file_Write_healthy [file_simps]:
  "healthy f \<Longrightarrow> offset f = length (content f) \<Longrightarrow>
   file_Write bs f =
     (None, f\<lparr>content := content f @ bs, offset := length (content f @ bs)\<rparr>)"
  by (simp add: file_Write_def) (simp add: healthy_def put_bytes_def)

lemma file_Sync_healthy [file_simps]: "healthy f \<Longrightarrow> file_Sync f = (None, f)"
  by (simp add: file_Sync_def) (simp add: healthy_def)

lemma file_SeekStart_healthy [file_simps]: "healthy f \<Longrightarrow> file_SeekStart f = (None, f\<lparr>offset := 0\<rparr>)"
  by (simp add: file_SeekStart_def) (simp add: healthy_def)

lemma ReadFull_healthy [file_simps]:
  "healthy f \<Longrightarrow> 0 < n \<Longrightarrow> n \<le> length (rest f) \<Longrightarrow>
   ReadFull n f = (Inr (take n (rest f)), f\<lparr>offset := offset f + n\<rparr>)"
  by (simp add: ReadFull_def Let_def) (simp add: healthy_def)

lemma ReadFull_EOF [file_simps]:
  "healthy f \<Longrightarrow> 0 < n \<Longrightarrow> rest f = [] \<Longrightarrow> ReadFull n f = (Inl EOF, f)"
  by (simp add: ReadFull_def Let_def) (simp add: healthy_def)

lemma ReadFull_short [file_simps]:
  "healthy f \<Longrightarrow> rest f \<noteq> [] \<Longrightarrow> length (rest f) < n \<Longrightarrow>
   ReadFull n f = (Inl ErrUnexpectedEOF, f\<lparr>offset := offset f + length (rest f)\<rparr>)"
  by (simp add: ReadFull_def Let_def) (simp add: healthy_def)

text \<open>A read that succeeds moves past the bytes it returned, whatever the device does.\<close>

lemma ReadFull_progress:
  assumes "ReadFull n f = (Inr bs, f')"
  shows "content f' = content f \<and> length (rest f') + n = length (rest f) \<and> bs = take n (rest f)"
proof (cases "n = 0")
  case True
  with assms show ?thesis by (auto simp: ReadFull_def)
next
  case False
  with assms have "f' = (use_fate f)\<lparr>offset := offset f + n\<rparr>" "length (take n (rest f)) = n"
    "bs = take n (rest f)"
    by (auto simp: ReadFull_def Let_def split: if_splits io_fate.splits)
  then show ?thesis by (auto simp: use_fate_def rest_def)
qed

end
