(* ===== verification/Protocol.thy ===== *)
theory Protocol
  imports GoLib
begin

section \<open>Messages of the protocol package\<close>

text \<open>
  The message structs that \<open>protoc\<close> generated into \<open>pkg/protocol/protocol.pb.go\<close>, as records with
  the fields a program reads and writes (the bookkeeping fields \<open>XXX_...\<close> are the protobuf
  library's own). A oneof is a datatype, a oneof or message pointer that may be nil an option. An
  \<open>int32\<close> field is a 32-bit word that readers take as signed. The codec \<open>proto.Marshal\<close> and
  \<open>proto.Unmarshal\<close> is a third-party package: it is a parameter of every definition that writes
  or reads the log, with its documented behaviour as the predicate \<open>codec_ok\<close>.
\<close>

subsection \<open>Client and server messages\<close>

record HelloMessage =
  hello_UdpPort :: u32

record SetStationMessage =
  set_StationNumber :: u32
  set_UdpPort :: u32

record WelcomeMessage =
  welcome_NumStations :: u32

record AnnounceMessage =
  SongName :: string

record InvalidCommandMessage =
  ReplyString :: string

record DisconnectRequest =
  disc_UdpPort :: u32

record DisconnectResponse =
  Success :: bool

datatype ServerEvent =
    ServerEvent_Announce AnnounceMessage
  | ServerEvent_Invalid InvalidCommandMessage

record HealthResponse =
  health_Ok :: bool

subsection \<open>Log entries\<close>

record HandshakeOp =
  hs_ClientIp :: string
  hs_UdpPort :: u32

record SetStationOp =
  ss_ClientIp :: string
  ss_UdpPort :: u32
  ss_StationNumber :: u32
  ss_PreviousStation :: u32

record DisconnectOp =
  dc_ClientIp :: string
  dc_UdpPort :: u32

datatype WalOp =
    WalEntry_Handshake HandshakeOp
  | WalEntry_SetStation SetStationOp
  | WalEntry_Disconnect DisconnectOp

record WalEntry =
  Seq :: u64
  Op :: "WalOp option"

subsection \<open>Replication messages\<close>

record ReplicateRequest =
  req_Entry :: "WalEntry option"

record ReplicateResponse =
  resp_Seq :: u64
  resp_Ok :: bool
  resp_Error :: string

record PingResponse =
  LastWalSeq :: u64

subsection \<open>The codec of the log entries\<close>

record codec =
  Marshal :: "WalEntry \<Rightarrow> error + byte list"
  Unmarshal :: "byte list \<Rightarrow> error + WalEntry"

text \<open>
  What the log relies on: unmarshalling gives back the marshalled entry, an encoding is shorter
  than the 2 GiB limit of protobuf messages, and an entry with a non-zero sequence number has a
  non-empty encoding (proto3 omits zero fields only).
\<close>

definition codec_ok :: "codec \<Rightarrow> bool" where
  "codec_ok C \<longleftrightarrow>
     (\<forall>e d. Marshal C e = Inr d \<longrightarrow>
        Unmarshal C d = Inr e \<and> length d < 2 ^ 31 \<and> (Seq e \<noteq> 0 \<longrightarrow> d \<noteq> []))"

lemma codec_okD:
  assumes "codec_ok C" and "Marshal C e = Inr d"
  shows "Unmarshal C d = Inr e" and "length d < 2 ^ 31" and "Seq e \<noteq> 0 \<Longrightarrow> d \<noteq> []"
  using assms by (auto simp: codec_ok_def)

end
