(* ===== verification/Log_Store.thy ===== *)
theory Log_Store
  imports Protocol
begin

section \<open>The interface of a log\<close>

text \<open>
  What the replication code relies on in a write-ahead log: reading gives the entries, appending
  adds one entry at the end under the next sequence number, appending a replicated entry keeps the
  number it came with. The lemmas of the locale are about logs numbered without a gap, which is
  what a primary's log is and what a backup's log has to stay.
\<close>

definition seq_limit :: nat where
  "seq_limit = 2 ^ 64 - 1"

definition numbered :: "WalEntry list \<Rightarrow> bool" where
  "numbered es \<longleftrightarrow> length es < seq_limit \<and> (\<forall>i < length es. Seq (es ! i) = of_nat (Suc i))"

lemma of_nat_u64_eq:
  "m \<le> seq_limit \<Longrightarrow> n \<le> seq_limit \<Longrightarrow> (of_nat m :: u64) = of_nat n \<longleftrightarrow> m = n"
  by (simp add: word_unat_eq_iff unat_of_nat seq_limit_def)

lemma of_nat_u64_less:
  "m \<le> seq_limit \<Longrightarrow> n \<le> seq_limit \<Longrightarrow> (of_nat m :: u64) < of_nat n \<longleftrightarrow> m < n"
  by (simp add: word_less_nat_alt unat_of_nat seq_limit_def)

lemma of_nat_u64_le:
  "m \<le> seq_limit \<Longrightarrow> n \<le> seq_limit \<Longrightarrow> (of_nat m :: u64) \<le> of_nat n \<longleftrightarrow> m \<le> n"
  by (simp add: word_le_nat_alt unat_of_nat seq_limit_def)

lemma of_nat_u64_zero: "n \<le> seq_limit \<Longrightarrow> (of_nat n :: u64) = 0 \<longleftrightarrow> n = 0"
  using of_nat_u64_eq [of n 0] by simp

lemmas of_nat_u64 = of_nat_u64_eq of_nat_u64_less of_nat_u64_le of_nat_u64_zero

lemma numbered_Nil [simp]: "numbered []"
  by (simp add: numbered_def seq_limit_def)

lemma numbered_snoc:
  "numbered (es @ [e]) \<longleftrightarrow>
     numbered es \<and> Suc (length es) < seq_limit \<and> Seq e = of_nat (Suc (length es))"
  unfolding numbered_def by (auto simp: nth_append less_Suc_eq simp del: of_nat_Suc)

lemma numbered_append: "numbered (es @ es') \<Longrightarrow> numbered es"
  by (induction es' rule: rev_induct) (auto simp: numbered_snoc simp flip: append_assoc)

lemma numbered_prefix: "prefix es es' \<Longrightarrow> numbered es' \<Longrightarrow> numbered es"
  by (auto simp: prefix_def dest: numbered_append)

lemma numbered_length: "numbered es \<Longrightarrow> length es < seq_limit"
  by (simp add: numbered_def)

lemma numbered_nth: "numbered es \<Longrightarrow> i < length es \<Longrightarrow> Seq (es ! i) = of_nat (Suc i)"
  by (simp add: numbered_def)

lemma numbered_max:
  "numbered es \<Longrightarrow> foldl (\<lambda>m e. max m (Seq e)) 0 es = of_nat (length es)"
proof (induction es rule: rev_induct)
  case (snoc e es)
  then have "numbered es" "Suc (length es) < seq_limit" "Seq e = of_nat (Suc (length es))"
    by (auto simp: numbered_snoc)
  with snoc.IH show ?case
    by (simp add: max_def of_nat_u64 del: of_nat_Suc)
qed simp

locale log_store =
  fixes append :: "WalEntry \<Rightarrow> 'l \<Rightarrow> (error + u64) \<times> WalEntry \<times> 'l"
    and append_replicated :: "WalEntry \<Rightarrow> 'l \<Rightarrow> error option \<times> 'l"
    and read_all :: "'l \<Rightarrow> (error + WalEntry list) \<times> 'l"
    and last_seq :: "'l \<Rightarrow> u64"
    and es :: "'l \<Rightarrow> WalEntry list"
    and ok :: "'l \<Rightarrow> bool"
    and storable :: "WalEntry \<Rightarrow> bool"
  assumes read_all: "ok l \<Longrightarrow> read_all l = (Inr (es l), l)"
    and append: "ok l \<Longrightarrow> last_seq l + 1 \<noteq> 0 \<Longrightarrow> storable (e\<lparr>Seq := last_seq l + 1\<rparr>) \<Longrightarrow>
      \<exists>l'. append e l = (Inr (last_seq l + 1), e\<lparr>Seq := last_seq l + 1\<rparr>, l') \<and> ok l' \<and>
           es l' = es l @ [e\<lparr>Seq := last_seq l + 1\<rparr>]"
    and append_replicated: "ok l \<Longrightarrow> Seq e \<noteq> 0 \<Longrightarrow> storable e \<Longrightarrow>
      \<exists>l'. append_replicated e l = (None, l') \<and> ok l' \<and> es l' = es l @ [e]"
    and last_seq: "ok l \<Longrightarrow> last_seq l = foldl (\<lambda>m e. max m (Seq e)) 0 (es l)"
begin

definition in_order :: "'l \<Rightarrow> bool" where
  "in_order l \<longleftrightarrow> ok l \<and> numbered (es l)"

lemma in_orderD: "in_order l \<Longrightarrow> ok l" "in_order l \<Longrightarrow> numbered (es l)"
  by (simp_all add: in_order_def)

lemma last_seq_length: "in_order l \<Longrightarrow> last_seq l = of_nat (length (es l))"
  by (simp add: in_order_def last_seq numbered_max)

lemma append_in_order:
  assumes "in_order l" and "Suc (length (es l)) < seq_limit"
    and "storable (e\<lparr>Seq := of_nat (Suc (length (es l)))\<rparr>)"
  shows "\<exists>l'. append e l = (Inr (of_nat (Suc (length (es l)))), e\<lparr>Seq := of_nat (Suc (length (es l)))\<rparr>, l') \<and>
    in_order l' \<and> es l' = es l @ [e\<lparr>Seq := of_nat (Suc (length (es l)))\<rparr>]"
proof -
  have s: "last_seq l + 1 = of_nat (Suc (length (es l)))"
    by (simp add: last_seq_length [OF assms(1)] add.commute)
  then have "last_seq l + 1 \<noteq> 0"
    using assms(2) by (simp add: of_nat_u64 del: of_nat_Suc)
  from append [OF in_orderD(1) [OF assms(1)] this, of e] assms(3) s
  obtain l' where "append e l = (Inr (last_seq l + 1), e\<lparr>Seq := last_seq l + 1\<rparr>, l')" "ok l'"
    "es l' = es l @ [e\<lparr>Seq := last_seq l + 1\<rparr>]"
    by auto
  then show ?thesis
    unfolding s in_order_def using assms(1,2) by (auto simp: numbered_snoc in_order_def)
qed

lemma append_replicated_in_order:
  assumes "in_order l" and "Suc (length (es l)) < seq_limit"
    and "Seq e = of_nat (Suc (length (es l)))" and "storable e"
  shows "\<exists>l'. append_replicated e l = (None, l') \<and> in_order l' \<and> es l' = es l @ [e]"
proof -
  have "Seq e \<noteq> 0" using assms(2,3) by (simp add: of_nat_u64 del: of_nat_Suc)
  from append_replicated [OF in_orderD(1) [OF assms(1)] this assms(4)] show ?thesis
    using assms by (auto simp: in_order_def numbered_snoc)
qed

end

end
