(* ===== verification/Wire.thy ===== *)
theory Wire
  imports Protocol
begin

section \<open>A codec that behaves: the proto3 wire format of log entries\<close>

text \<open>
  The log is parametric in its codec. This theory gives one codec that satisfies \<open>codec_ok\<close>: the
  proto3 wire format with the field numbers and types of the struct tags in \<open>protocol.pb.go\<close>
  (varints, length-delimited fields, zero fields omitted, an \<open>int32\<close> sign-extended to 64 bits).
  It is the instance the witnesses evaluate; no theorem about the program rests on its details.
\<close>

fun varint :: "nat \<Rightarrow> byte list" where
  "varint n = (if n < 128 then [of_nat n] else of_nat (128 + n mod 128) # varint (n div 128))"

declare varint.simps [simp del]

fun get_varint :: "byte list \<Rightarrow> (nat \<times> byte list) option" where
  "get_varint [] = None"
| "get_varint (b # bs) =
     (if unat b < 128 then Some (unat b, bs)
      else map_option (\<lambda>(n, r). (unat b - 128 + 128 * n, r)) (get_varint bs))"

datatype field = VarintF nat nat | BytesF nat "byte list"

fun put_field :: "field \<Rightarrow> byte list" where
  "put_field (VarintF k v) = varint (8 * k) @ varint v"
| "put_field (BytesF k d) = varint (8 * k + 2) @ varint (length d) @ d"

definition get_field :: "byte list \<Rightarrow> (field \<times> byte list) option" where
  "get_field bs =
     do {
       (tag, r) \<leftarrow> get_varint bs;
       (v, r') \<leftarrow> get_varint r;
       (if tag mod 8 = 0 then Some (VarintF (tag div 8) v, r')
        else if tag mod 8 = 2 \<and> v \<le> length r' then Some (BytesF (tag div 8) (take v r'), drop v r')
        else None)
     }"

lemma get_varint_shorter: "get_varint bs = Some (n, r) \<Longrightarrow> length r < length bs"
  by (induction bs arbitrary: n) (auto split: if_splits intro: less_SucI)

lemma get_field_shorter: "get_field bs = Some (x, r) \<Longrightarrow> length r < length bs"
  by (fastforce simp: get_field_def split: Option.bind_splits if_splits dest!: get_varint_shorter)

function get_fields :: "byte list \<Rightarrow> field list option" where
  "get_fields bs =
     (if bs = [] then Some []
      else case get_field bs of
        None \<Rightarrow> None
      | Some (x, r) \<Rightarrow> map_option ((#) x) (get_fields r))"
  by pat_completeness auto
termination
  by (relation "measure length") (auto dest: get_field_shorter)

declare get_fields.simps [simp del]

definition put_fields :: "field list \<Rightarrow> byte list" where
  "put_fields fs = concat (map put_field fs)"

subsection \<open>Messages as field lists\<close>

definition opt_varint :: "nat \<Rightarrow> nat \<Rightarrow> field list" where
  "opt_varint k v = (if v = 0 then [] else [VarintF k v])"

definition opt_string :: "nat \<Rightarrow> string \<Rightarrow> field list" where
  "opt_string k s = (if s = [] then [] else [BytesF k (map of_char s)])"

fun the_varint :: "nat \<Rightarrow> field list \<Rightarrow> nat" where
  "the_varint k [] = 0"
| "the_varint k (VarintF j v # fs) = (if j = k then v else the_varint k fs)"
| "the_varint k (BytesF j d # fs) = the_varint k fs"

fun the_bytes :: "nat \<Rightarrow> field list \<Rightarrow> byte list option" where
  "the_bytes k [] = None"
| "the_bytes k (BytesF j d # fs) = (if j = k then Some d else the_bytes k fs)"
| "the_bytes k (VarintF j v # fs) = the_bytes k fs"

definition the_string :: "nat \<Rightarrow> field list \<Rightarrow> string" where
  "the_string k fs = (case the_bytes k fs of None \<Rightarrow> [] | Some d \<Rightarrow> map (\<lambda>b. char_of (unat b)) d)"

definition int32_varint :: "u32 \<Rightarrow> nat" where
  "int32_varint w = unat (scast w :: u64)"

fun op_field :: "WalOp \<Rightarrow> field" where
  "op_field (WalEntry_Handshake h) =
     BytesF 2 (put_fields (opt_string 1 (hs_ClientIp h) @ opt_varint 2 (unat (hs_UdpPort h))))"
| "op_field (WalEntry_SetStation s) =
     BytesF 3 (put_fields (opt_string 1 (ss_ClientIp s) @ opt_varint 2 (unat (ss_UdpPort s)) @
       opt_varint 3 (int32_varint (ss_StationNumber s)) @
       opt_varint 4 (int32_varint (ss_PreviousStation s))))"
| "op_field (WalEntry_Disconnect d) =
     BytesF 4 (put_fields (opt_string 1 (dc_ClientIp d) @ opt_varint 2 (unat (dc_UdpPort d))))"

definition entry_fields :: "WalEntry \<Rightarrow> field list" where
  "entry_fields e =
     opt_varint 1 (unat (Seq e)) @ (case Op e of None \<Rightarrow> [] | Some p \<Rightarrow> [op_field p])"

definition op_of_fields :: "field list \<Rightarrow> WalOp option option" where
  "op_of_fields fs =
     (case the_bytes 2 fs of
        Some d \<Rightarrow> map_option (\<lambda>g. Some (WalEntry_Handshake
          \<lparr>hs_ClientIp = the_string 1 g, hs_UdpPort = of_nat (the_varint 2 g)\<rparr>)) (get_fields d)
      | None \<Rightarrow> (case the_bytes 3 fs of
        Some d \<Rightarrow> map_option (\<lambda>g. Some (WalEntry_SetStation
          \<lparr>ss_ClientIp = the_string 1 g, ss_UdpPort = of_nat (the_varint 2 g),
           ss_StationNumber = of_nat (the_varint 3 g),
           ss_PreviousStation = of_nat (the_varint 4 g)\<rparr>)) (get_fields d)
      | None \<Rightarrow> (case the_bytes 4 fs of
        Some d \<Rightarrow> map_option (\<lambda>g. Some (WalEntry_Disconnect
          \<lparr>dc_ClientIp = the_string 1 g, dc_UdpPort = of_nat (the_varint 2 g)\<rparr>)) (get_fields d)
      | None \<Rightarrow> Some None)))"

definition entry_of_fields :: "field list \<Rightarrow> WalEntry option" where
  "entry_of_fields fs =
     map_option (\<lambda>p. \<lparr>Seq = of_nat (the_varint 1 fs), Op = p\<rparr>) (op_of_fields fs)"

definition wire_codec :: codec where
  "wire_codec =
     \<lparr>Marshal = (\<lambda>e. let d = put_fields (entry_fields e) in
        if length d < 2 ^ 31 then Inr d else Inl (SysErr ''proto: message too large'')),
      Unmarshal = (\<lambda>d. case Option.bind (get_fields d) entry_of_fields of
        None \<Rightarrow> Inl (SysErr ''proto: cannot parse'') | Some e \<Rightarrow> Inr e)\<rparr>"

subsection \<open>The codec satisfies what the log relies on\<close>

lemma get_varint_varint [simp]: "get_varint (varint n @ r) = Some (n, r)"
proof (induction n rule: varint.induct)
  case (1 n)
  show ?case
  proof (cases "n < 128")
    case True
    then show ?thesis by (simp add: varint.simps unat_of_nat)
  next
    case False
    then have "n - n mod 128 = 128 * (n div 128)" by (simp add: minus_mod_eq_mult_div)
    moreover have "unat (of_nat (128 + n mod 128) :: byte) = 128 + n mod 128"
      by (subst unat_of_nat) simp
    ultimately show ?thesis using 1 [OF False] False
      by (simp add: varint.simps [of n] del: of_nat_add)
  qed
qed

lemma varint_nonempty [simp]: "varint n \<noteq> []"
  by (subst varint.simps) simp

lemma get_field_put_field [simp]: "get_field (put_field x @ r) = Some (x, r)"
proof (cases x)
  case (VarintF k v)
  then show ?thesis by (simp add: get_field_def)
next
  case (BytesF k d)
  have "(8 * k + 2) mod 8 = 2" "(8 * k + 2) div 8 = k" by presburger+
  with BytesF show ?thesis by (simp add: get_field_def del: add_2_eq_Suc')
qed

lemma put_field_nonempty [simp]: "put_field x \<noteq> []"
  by (cases x) simp_all

lemma get_fields_put_fields [simp]: "get_fields (put_fields fs) = Some fs"
  by (induction fs) (simp_all add: put_fields_def get_fields.simps [of "_ @ _"] get_fields.simps [of "[]"])

lemma the_varint_opt [simp]:
  "the_varint k (opt_varint j v @ fs) = (if j = k \<and> v \<noteq> 0 then v else the_varint k fs)"
  "the_varint k (opt_string j s @ fs) = the_varint k fs"
  "the_varint k (opt_varint j v) = (if j = k then v else 0)"
  by (auto simp: opt_varint_def opt_string_def)

lemma the_bytes_opt [simp]:
  "the_bytes k (opt_varint j v @ fs) = the_bytes k fs"
  "the_bytes k (opt_string j s @ fs) =
     (if j = k \<and> s \<noteq> [] then Some (map of_char s) else the_bytes k fs)"
  "the_bytes k (opt_varint j v) = None"
  by (auto simp: opt_varint_def opt_string_def)

lemma chars_bytes [simp]: "map (\<lambda>b. char_of (unat (b :: byte))) (map of_char s) = s"
proof -
  have "char_of (unat (of_char c :: byte)) = c" for c
    by (subst of_nat_of_char [symmetric]) (simp add: unat_of_nat del: of_nat_of_char)
  then show ?thesis by (simp add: comp_def)
qed

lemma the_string_opt [simp]:
  "the_string k (opt_string j s @ fs) = (if j = k \<and> s \<noteq> [] then s else the_string k fs)"
  "the_string k (opt_varint j v @ fs) = the_string k fs"
  "the_string k (opt_varint j v) = []"
  using chars_bytes by (simp_all add: the_string_def del: map_map)

lemma of_nat_int32_varint [simp]: "(of_nat (int32_varint w) :: u32) = w"
proof -
  have "(of_nat (unat (scast w :: u64)) :: u32) = ucast (scast w :: u64)"
    by (simp add: unsigned_ucast_eq)
  also have "\<dots> = w" by (rule bit_word_eqI) (auto simp: bit_simps)
  finally show ?thesis by (simp add: int32_varint_def)
qed

lemma int32_varint_zero [simp]: "int32_varint w = 0 \<longleftrightarrow> w = 0"
  by (metis int32_varint_def of_nat_0 of_nat_int32_varint scast_0 unsigned_0)

lemma op_field_other [simp]: "the_varint k [op_field p] = 0"
  by (cases p) auto

lemma op_of_op_field: "op_of_fields (opt_varint 1 v @ [op_field p]) = Some (Some p)"
  by (cases p) (auto simp: op_of_fields_def unat_eq_0)

lemma entry_of_entry_fields: "entry_of_fields (entry_fields e) = Some e"
proof (cases "Op e")
  case None
  moreover have "op_of_fields (opt_varint 1 v) = Some None" for v
    by (simp add: op_of_fields_def)
  ultimately show ?thesis by (simp add: entry_of_fields_def entry_fields_def)
next
  case (Some p)
  then show ?thesis
    using op_of_op_field [of "unat (Seq e)" p]
    by (auto simp: entry_of_fields_def entry_fields_def unat_eq_0 intro!: exI)
qed

lemma wire_codec_ok: "codec_ok wire_codec"
proof -
  have "put_fields (entry_fields e) \<noteq> []" if "Seq e \<noteq> 0" for e
    using that by (auto simp: entry_fields_def opt_varint_def put_fields_def unat_eq_0)
  then show ?thesis
    by (auto simp: codec_ok_def wire_codec_def Let_def entry_of_entry_fields split: if_splits)
qed

text \<open>Every entry whose client address is short can be stored.\<close>

lemma varint_length: "n < 128 ^ Suc k \<Longrightarrow> length (varint n) \<le> Suc k"
proof (induction k arbitrary: n)
  case (Suc k)
  then have "n div 128 < 128 ^ Suc k" by (simp add: less_mult_imp_div_less mult.commute)
  with Suc.IH show ?case by (subst varint.simps) auto
qed (simp add: varint.simps)

lemma varint_length_64: "n < 2 ^ 64 \<Longrightarrow> length (varint n) \<le> 10"
  using varint_length [of n 9] by simp

lemma put_fields_append [simp]: "put_fields (fs @ gs) = put_fields fs @ put_fields gs"
  by (simp add: put_fields_def)

lemma opt_varint_length: "v < 2 ^ 64 \<Longrightarrow> k < 2 ^ 32 \<Longrightarrow> length (put_fields (opt_varint k v)) \<le> 20"
  using varint_length_64 [of v] varint_length_64 [of "8 * k"]
  by (auto simp: opt_varint_def put_fields_def)

lemma opt_string_length:
  "length s < 2 ^ 30 \<Longrightarrow> k < 2 ^ 32 \<Longrightarrow> length (put_fields (opt_string k s)) \<le> length s + 20"
  using varint_length_64 [of "length s"] varint_length_64 [of "8 * k + 2"]
  by (auto simp: opt_string_def put_fields_def)

lemma unat_u32_bound: "unat (w :: u32) < 2 ^ 64"
  using unsigned_less [of w, where 'a = nat] by simp

lemma int32_varint_bound: "int32_varint w < 2 ^ 64"
  using unsigned_less [of "scast w :: u64", where 'a = nat] by (simp add: int32_varint_def)

fun op_ip :: "WalOp \<Rightarrow> string" where
  "op_ip (WalEntry_Handshake h) = hs_ClientIp h"
| "op_ip (WalEntry_SetStation s) = ss_ClientIp s"
| "op_ip (WalEntry_Disconnect d) = dc_ClientIp d"

lemma op_field_length:
  assumes "length (op_ip p) < 2 ^ 29"
  shows "length (put_field (op_field p)) \<le> length (op_ip p) + 100"
proof -
  note b = opt_varint_length [OF unat_u32_bound] opt_varint_length [OF int32_varint_bound]
    opt_string_length [of "op_ip p" 1]
  obtain k d where kd: "op_field p = BytesF k d" "k < 10" and d: "length d \<le> length (op_ip p) + 80"
  proof (cases p)
    case (WalEntry_Handshake h)
    with that b(1) [of 2 "hs_UdpPort h"] b(3) assms show ?thesis by auto
  next
    case (WalEntry_SetStation s)
    with that b(1) [of 2 "ss_UdpPort s"] b(2) [of 3 "ss_StationNumber s"]
      b(2) [of 4 "ss_PreviousStation s"] b(3) assms show ?thesis by auto
  next
    case (WalEntry_Disconnect d)
    with that b(1) [of 2 "dc_UdpPort d"] b(3) assms show ?thesis by auto
  qed
  have "length (varint (length d)) \<le> 10" "length (varint (8 * k + 2)) \<le> 10"
    using d kd(2) assms by (auto intro!: varint_length_64)
  with kd d show ?thesis by simp
qed

lemma wire_Marshal:
  assumes "\<And>p. Op e = Some p \<Longrightarrow> length (op_ip p) < 2 ^ 29"
  shows "\<exists>d. Marshal wire_codec e = Inr d"
proof -
  have "length (put_fields (opt_varint 1 (unat (Seq e)))) \<le> 20"
    using unsigned_less [of "Seq e", where 'a = nat] by (intro opt_varint_length) simp_all
  moreover have "length (put_fields (case Op e of None \<Rightarrow> [] | Some p \<Rightarrow> [op_field p])) < 2 ^ 29 + 100"
  proof (cases "Op e")
    case (Some p)
    from assms [OF this] op_field_length [of p] show ?thesis by (simp add: Some put_fields_def)
  qed (simp add: put_fields_def)
  ultimately have "length (put_fields (entry_fields e)) < 2 ^ 31"
    by (simp add: entry_fields_def)
  then show ?thesis by (simp add: wire_codec_def Let_def)
qed

end
