(* ===== verification/Wal.thy ===== *)
theory Wal
  imports Log_Store Wire
begin

section \<open>The write-ahead log (pkg/wal/wal.go)\<close>

text \<open>
  The log is a file of records: a 4-byte big-endian length, then a marshalled entry. The type
  \<open>Log\<close> is the struct of the same name, without its mutex: each method holds the mutex from its
  first to its last access, so the methods are the atomic steps of the log. \<open>decode\<close> is the
  reference reading of a file's bytes and \<open>enc\<close> the bytes of a list of entries.
\<close>

record Log =
  log_path :: string
  log_file :: File
  log_seq :: u64

subsection \<open>Reading\<close>

function read_loop :: "codec \<Rightarrow> File \<Rightarrow> WalEntry list \<Rightarrow> (error + WalEntry list) \<times> File" where
  "read_loop C f acc =
     (case ReadFull 4 f of
        (Inl err, f1) \<Rightarrow> (if err = EOF then Inr acc else Inl err, f1)
      | (Inr header, f1) \<Rightarrow>
          (let size = Uint32 header in
           if size = 0 then (Inl (Errorf ''wal: invalid record size 0''), f1)
           else case ReadFull (unat size) f1 of
             (Inl err, f2) \<Rightarrow> (Inl err, f2)
           | (Inr data, f2) \<Rightarrow>
               (case Unmarshal C data of
                  Inl err \<Rightarrow> (Inl err, f2)
                | Inr entry \<Rightarrow> read_loop C f2 (acc @ [entry]))))"
  by pat_completeness auto
termination
proof (relation "measure (\<lambda>(C, f, acc). size f)", goal_cases)
  case (2 C f acc x f1 header size y f2 data entry)
  then have "ReadFull 4 f = (Inr header, f1)" "ReadFull (unat size) f1 = (Inr data, f2)" by auto
  from this [THEN ReadFull_progress] show ?case by simp
qed simp

declare read_loop.simps [simp del]

definition readAllUnlocked :: "codec \<Rightarrow> Log \<Rightarrow> (error + WalEntry list) \<times> Log" where
  "readAllUnlocked C l =
     (case file_SeekStart (log_file l) of
        (Some err, f) \<Rightarrow> (Inl err, l\<lparr>log_file := f\<rparr>)
      | (None, f) \<Rightarrow> (case read_loop C f [] of (r, f') \<Rightarrow> (r, l\<lparr>log_file := f'\<rparr>)))"

definition ReadAll :: "codec \<Rightarrow> Log \<Rightarrow> (error + WalEntry list) \<times> Log" where
  "ReadAll C l = readAllUnlocked C l"

fun max_seq :: "u64 \<Rightarrow> WalEntry list \<Rightarrow> u64" where
  "max_seq m [] = m"
| "max_seq m (e # es) = max_seq (if Seq e > m then Seq e else m) es"

definition recoverSeq :: "codec \<Rightarrow> Log \<Rightarrow> error option \<times> Log" where
  "recoverSeq C l =
     (case readAllUnlocked C l of
        (Inl err, l') \<Rightarrow> (Some err, l')
      | (Inr entries, l') \<Rightarrow> (None, l'\<lparr>log_seq := max_seq (log_seq l') entries\<rparr>))"

definition Open :: "codec \<Rightarrow> string \<Rightarrow> (string \<rightharpoonup> byte list) \<Rightarrow> io_fate stream \<Rightarrow> error + Log" where
  "Open C p disk fs =
     (case OpenFile p disk fs of
        Inl err \<Rightarrow> Inl err
      | Inr f \<Rightarrow>
          (case recoverSeq C \<lparr>log_path = p, log_file = f, log_seq = 0\<rparr> of
             (Some err, l) \<Rightarrow> Inl err
           | (None, l) \<Rightarrow> Inr l))"

definition LastSeq :: "Log \<Rightarrow> u64" where
  "LastSeq l = log_seq l"

subsection \<open>Writing\<close>

text \<open>The two writes and the sync that \<open>Append\<close> and \<open>AppendReplicated\<close> both make.\<close>

definition write_record :: "byte list \<Rightarrow> File \<Rightarrow> error option \<times> File" where
  "write_record data f =
     (case file_Write (PutUint32 (of_nat (length data))) f of
        (Some err, f1) \<Rightarrow> (Some err, f1)
      | (None, f1) \<Rightarrow>
          (case file_Write data f1 of
             (Some err, f2) \<Rightarrow> (Some err, f2)
           | (None, f2) \<Rightarrow> file_Sync f2))"

text \<open>
  \<open>Append\<close> sets the sequence number of the entry it is given (a pointer in Go), so the changed
  entry is part of the result.
\<close>

definition Append :: "codec \<Rightarrow> WalEntry \<Rightarrow> Log \<Rightarrow> (error + u64) \<times> WalEntry \<times> Log" where
  "Append C entry l =
     (let l1 = l\<lparr>log_seq := log_seq l + 1\<rparr>; entry1 = entry\<lparr>Seq := log_seq l1\<rparr> in
      case Marshal C entry1 of
        Inl err \<Rightarrow> (Inl err, entry1, l1\<lparr>log_seq := log_seq l1 - 1\<rparr>)
      | Inr data \<Rightarrow>
          (case write_record data (log_file l1) of
             (Some err, f) \<Rightarrow> (Inl err, entry1, l1\<lparr>log_file := f, log_seq := log_seq l1 - 1\<rparr>)
           | (None, f) \<Rightarrow> (Inr (Seq entry1), entry1, l1\<lparr>log_file := f\<rparr>)))"

definition AppendReplicated :: "codec \<Rightarrow> WalEntry \<Rightarrow> Log \<Rightarrow> error option \<times> Log" where
  "AppendReplicated C entry l =
     (if Seq entry = 0 then (Some (Errorf ''wal: replicated entry missing seq''), l)
      else case Marshal C entry of
        Inl err \<Rightarrow> (Some err, l)
      | Inr data \<Rightarrow>
          (case write_record data (log_file l) of
             (Some err, f) \<Rightarrow> (Some err, l\<lparr>log_file := f\<rparr>)
           | (None, f) \<Rightarrow>
               (None, l\<lparr>log_file := f, log_seq := (if Seq entry > log_seq l then Seq entry else log_seq l)\<rparr>)))"

definition Close :: "Log \<Rightarrow> error option \<times> Log" where
  "Close l =
     (if \<not> opened (log_file l) then (None, l)
      else case file_Close (log_file l) of (err, f) \<Rightarrow> (err, l\<lparr>log_file := f\<lparr>opened := False\<rparr>\<rparr>))"

subsection \<open>The reference: what the bytes of a log mean\<close>

definition frame :: "byte list \<Rightarrow> byte list" where
  "frame data = PutUint32 (of_nat (length data)) @ data"

fun enc :: "codec \<Rightarrow> WalEntry list \<Rightarrow> byte list option" where
  "enc C [] = Some []"
| "enc C (e # es) =
     (case Marshal C e of
        Inl _ \<Rightarrow> None
      | Inr d \<Rightarrow> map_option ((@) (frame d)) (enc C es))"

function decode :: "codec \<Rightarrow> byte list \<Rightarrow> error + WalEntry list" where
  "decode C bs =
     (if bs = [] then Inr []
      else if length bs < 4 then Inl ErrUnexpectedEOF
      else let n = unat (Uint32 (take 4 bs)); body = drop 4 bs in
        if n = 0 then Inl (Errorf ''wal: invalid record size 0'')
        else if body = [] then Inl EOF
        else if length body < n then Inl ErrUnexpectedEOF
        else case Unmarshal C (take n body) of
          Inl err \<Rightarrow> Inl err
        | Inr e \<Rightarrow> map_sum id ((#) e) (decode C (drop n body)))"
  by pat_completeness auto
termination
  by (relation "measure (\<lambda>(C, bs). length bs)") auto

declare decode.simps [simp del]

definition entries :: "codec \<Rightarrow> Log \<Rightarrow> WalEntry list" where
  "entries C l = (case decode C (content (log_file l)) of Inl _ \<Rightarrow> [] | Inr es \<Rightarrow> es)"

text \<open>A log in order: the codec behaves, the device works, and the file is what its entries encode.\<close>

definition wal_ok :: "codec \<Rightarrow> Log \<Rightarrow> bool" where
  "wal_ok C l \<longleftrightarrow>
     codec_ok C \<and> healthy (log_file l) \<and> offset (log_file l) = length (content (log_file l)) \<and>
     (\<exists>es. enc C es = Some (content (log_file l)) \<and> (\<forall>e\<in>set es. Seq e \<noteq> 0) \<and> log_seq l = max_seq 0 es)"

subsection \<open>Reading is decoding\<close>

lemma frame_length [simp]: "length (frame d) = 4 + length d"
  by (simp add: frame_def)

lemma frame_nonempty [simp]: "frame d \<noteq> []"
  by (simp add: frame_def PutUint32_def)

lemma unat_length_of_nat [simp]: "length d < 2147483648 \<Longrightarrow> unat (of_nat (length d) :: u32) = length d"
  by (simp add: unat_of_nat)

lemma take_frame [simp]: "take 4 (frame d) = PutUint32 (of_nat (length d))"
  by (simp add: frame_def)

lemma drop_frame [simp]: "drop 4 (frame d) = d"
  by (simp add: frame_def)

lemma decode_Nil [simp]: "decode C [] = Inr []"
  by (simp add: decode.simps)

lemma decode_frame:
  assumes "length d < 2 ^ 31" and "d \<noteq> []"
  shows "decode C (frame d @ bs) =
     (case Unmarshal C d of Inl err \<Rightarrow> Inl err | Inr e \<Rightarrow> map_sum id ((#) e) (decode C bs))"
  using assms by (subst decode.simps) (simp add: Let_def split: sum.split)

lemma decode_append:
  assumes "codec_ok C" and "enc C es = Some bs" and "\<And>e. e \<in> set es \<Longrightarrow> Seq e \<noteq> 0"
  shows "decode C (bs @ bs') = map_sum id ((@) es) (decode C bs')"
  using assms(2,3)
proof (induction es arbitrary: bs)
  case Nil
  then show ?case by (cases "decode C bs'") auto
next
  case (Cons e es)
  then obtain d r where d: "Marshal C e = Inr d" and r: "enc C es = Some r" "bs = frame d @ r"
    by (auto split: sum.splits)
  have "Unmarshal C d = Inr e" "length d < 2 ^ 31" "d \<noteq> []"
    using codec_okD [OF assms(1) d] Cons.prems(2) by auto
  with Cons r show ?case
    by (cases "decode C bs'") (simp_all add: decode_frame)
qed

lemma decode_enc:
  "codec_ok C \<Longrightarrow> enc C es = Some bs \<Longrightarrow> (\<And>e. e \<in> set es \<Longrightarrow> Seq e \<noteq> 0) \<Longrightarrow> decode C bs = Inr es"
  using decode_append [of C es bs "[]"] by simp

lemma enc_append:
  "enc C (es @ es') =
     (case enc C es of None \<Rightarrow> None | Some bs \<Rightarrow> map_option ((@) bs) (enc C es'))"
proof (induction es)
  case Nil
  show ?case by (cases "enc C es'") auto
next
  case (Cons e es)
  then show ?case
    by (cases "enc C es'") (auto split: sum.splits option.splits)
qed

text \<open>
  On a working device the read loop computes \<open>decode\<close> of the bytes after the offset, and leaves
  the offset at the end of the file when it succeeds.
\<close>

lemma read_loop_decode:
  "healthy f \<Longrightarrow> offset f \<le> length (content f) \<Longrightarrow>
   fst (read_loop C f acc) = map_sum id ((@) acc) (decode C (rest f)) \<and>
   (\<forall>es. fst (read_loop C f acc) = Inr es \<longrightarrow>
      snd (read_loop C f acc) = f\<lparr>offset := length (content f)\<rparr>)"
proof (induction C f acc rule: read_loop.induct)
  case (1 C f acc)
  note h = "1.prems"
  define n where "n = unat (Uint32 (take 4 (rest f)))"
  define f1 where "f1 = f\<lparr>offset := offset f + 4\<rparr>"
  consider (eof) "rest f = []" | (short) "rest f \<noteq> []" "length (rest f) < 4" | (hdr) "4 \<le> length (rest f)"
    by fastforce
  then show ?case
  proof cases
    case eof
    then have "f\<lparr>offset := length (content f)\<rparr> = f" using h by (simp add: rest_def)
    with eof h show ?thesis by (simp add: read_loop.simps file_simps)
  next
    case short
    with h show ?thesis
      by (simp add: read_loop.simps file_simps decode.simps [of C "rest f"])
  next
    case hdr
    then have ne: "rest f \<noteq> []" and rf: "ReadFull 4 f = (Inr (take 4 (rest f)), f1)"
      using h by (auto simp: file_simps f1_def)
    have h1: "healthy f1" and r1: "rest f1 = drop 4 (rest f)"
      using h by (simp_all add: f1_def rest_def add.commute)
    consider (zero) "n = 0" | (nobody) "n \<noteq> 0" "rest f1 = []"
      | (torn) "n \<noteq> 0" "rest f1 \<noteq> []" "length (rest f1) < n" | (body) "n \<noteq> 0" "n \<le> length (rest f1)"
      by fastforce
    then show ?thesis
    proof cases
      case zero
      then show ?thesis using rf hdr ne
        by (simp add: read_loop.simps [of C f] decode.simps [of C "rest f"] n_def Let_def unat_eq_0)
    next
      case nobody
      then have "ReadFull n f1 = (Inl EOF, f1)" using h1 by (simp add: file_simps)
      then show ?thesis using nobody rf r1 hdr ne
        by (simp add: read_loop.simps [of C f] decode.simps [of C "rest f"] n_def Let_def unat_eq_0)
    next
      case torn
      then have "ReadFull n f1 = (Inl ErrUnexpectedEOF, f1\<lparr>offset := offset f1 + length (rest f1)\<rparr>)"
        using h1 by (simp add: file_simps)
      then show ?thesis using torn rf r1 hdr ne
        by (simp add: read_loop.simps [of C f] decode.simps [of C "rest f"] n_def Let_def unat_eq_0)
    next
      case body
      define f2 where "f2 = f1\<lparr>offset := offset f1 + n\<rparr>"
      have rb: "ReadFull n f1 = (Inr (take n (rest f1)), f2)"
        using body h1 by (simp add: file_simps f2_def)
      have h2: "healthy f2" "offset f2 \<le> length (content f2)" and r2: "rest f2 = drop n (rest f1)"
        using h1 body h by (auto simp: f2_def f1_def rest_def add.commute)
      have end2: "f2\<lparr>offset := length (content f2)\<rparr> = f\<lparr>offset := length (content f)\<rparr>"
        by (simp add: f2_def f1_def)
      show ?thesis
      proof (cases "Unmarshal C (take n (rest f1))")
        case (Inl err)
        moreover have "rest f1 \<noteq> []" using body by auto
        ultimately show ?thesis using body rf rb r1 hdr ne
          by (simp add: read_loop.simps [of C f] decode.simps [of C "rest f"] n_def Let_def unat_eq_0)
      next
        case (Inr e)
        have step: "read_loop C f acc = read_loop C f2 (acc @ [e])"
          using body rf rb Inr r1
          by (simp add: read_loop.simps [of C f] n_def Let_def unat_eq_0)
        have dstep: "decode C (rest f) = map_sum id ((#) e) (decode C (rest f2))"
          using body r1 r2 hdr ne Inr
          by (subst decode.simps) (auto simp: n_def Let_def)
        have IH: "fst (read_loop C f2 (acc @ [e])) = map_sum id ((@) (acc @ [e])) (decode C (rest f2)) \<and>
          (\<forall>es. fst (read_loop C f2 (acc @ [e])) = Inr es \<longrightarrow>
             snd (read_loop C f2 (acc @ [e])) = f2\<lparr>offset := length (content f2)\<rparr>)"
          using body rb Inr h2 unfolding n_def
          by (intro "1.IH" [OF rf [symmetric] refl refl]) (auto simp: unat_eq_0)
        then show ?thesis unfolding step dstep end2
          by (cases "decode C (rest f2)") auto
      qed
    qed
  qed
qed

subsection \<open>The operations on a log in order\<close>

lemma max_seq_append: "max_seq m (es @ es') = max_seq (max_seq m es) es'"
  by (induction es arbitrary: m) auto

lemma max_seq_max: "max_seq m es = foldl (\<lambda>m e. max m (Seq e)) m es"
  by (induction es arbitrary: m) (auto simp: max_def)

lemma max_seq_ge: "m \<le> max_seq m es"
  by (induction es arbitrary: m) (auto intro: order_trans less_imp_le)

lemma max_seq_upper: "e \<in> set es \<Longrightarrow> Seq e \<le> max_seq m es"
  by (induction es arbitrary: m) (auto intro: order_trans [OF _ max_seq_ge])

lemma wal_okD:
  assumes "wal_ok C l"
  shows "codec_ok C" and "healthy (log_file l)"
    and "offset (log_file l) = length (content (log_file l))"
    and "enc C (entries C l) = Some (content (log_file l))"
    and "e \<in> set (entries C l) \<Longrightarrow> Seq e \<noteq> 0"
    and "log_seq l = max_seq 0 (entries C l)"
proof -
  from assms obtain es where es: "enc C es = Some (content (log_file l))"
    "\<And>e. e \<in> set es \<Longrightarrow> Seq e \<noteq> 0" "log_seq l = max_seq 0 es"
    by (auto simp: wal_ok_def)
  then have "entries C l = es"
    using assms decode_enc [of C es] by (auto simp: wal_ok_def entries_def)
  with es assms show "codec_ok C" "healthy (log_file l)"
    "offset (log_file l) = length (content (log_file l))"
    "enc C (entries C l) = Some (content (log_file l))"
    "e \<in> set (entries C l) \<Longrightarrow> Seq e \<noteq> 0" "log_seq l = max_seq 0 (entries C l)"
    by (auto simp: wal_ok_def)
qed

lemma wal_okI:
  assumes "codec_ok C" "healthy (log_file l)" "offset (log_file l) = length (content (log_file l))"
    "enc C es = Some (content (log_file l))" "\<And>e. e \<in> set es \<Longrightarrow> Seq e \<noteq> 0" "log_seq l = max_seq 0 es"
  shows "wal_ok C l" and "entries C l = es"
  using assms decode_enc [of C es] by (auto simp: wal_ok_def entries_def)

lemma decode_wal_ok: "wal_ok C l \<Longrightarrow> decode C (content (log_file l)) = Inr (entries C l)"
  by (rule decode_enc) (auto dest: wal_okD)

lemma readAll_decode:
  assumes "healthy (log_file l)" and "decode C (content (log_file l)) = Inr es"
  shows "readAllUnlocked C l = (Inr es, l\<lparr>log_file := (log_file l)\<lparr>offset := length (content (log_file l))\<rparr>\<rparr>)"
proof -
  let ?f = "(log_file l)\<lparr>offset := 0\<rparr>"
  have "fst (read_loop C ?f []) = Inr es" "snd (read_loop C ?f []) = ?f\<lparr>offset := length (content ?f)\<rparr>"
    using read_loop_decode [of ?f C "[]"] assms by auto
  then have "read_loop C ?f [] = (Inr es, ?f\<lparr>offset := length (content ?f)\<rparr>)"
    by (simp add: prod_eq_iff)
  with assms(1) show ?thesis by (simp add: readAllUnlocked_def file_simps)
qed

lemma ReadAll_ok [wal_simps]:
  assumes "wal_ok C l"
  shows "ReadAll C l = (Inr (entries C l), l)"
proof -
  have "l\<lparr>log_file := (log_file l)\<lparr>offset := length (content (log_file l))\<rparr>\<rparr> = l"
    using wal_okD(3) [OF assms] by simp
  then show ?thesis
    using readAll_decode [OF wal_okD(2) decode_wal_ok] assms by (simp add: ReadAll_def)
qed

lemma write_record_ok [file_simps]:
  "healthy f \<Longrightarrow> offset f = length (content f) \<Longrightarrow>
   write_record d f = (None, f\<lparr>content := content f @ frame d, offset := length (content f @ frame d)\<rparr>)"
  by (simp add: write_record_def file_simps frame_def add.assoc)

lemma wal_ok_extend:
  assumes "wal_ok C l" and "Marshal C e = Inr d" and "Seq e \<noteq> 0"
    and "f = (log_file l)\<lparr>content := content (log_file l) @ frame d,
                          offset := length (content (log_file l) @ frame d)\<rparr>"
    and "l' = l\<lparr>log_file := f, log_seq := max (log_seq l) (Seq e)\<rparr>"
  shows "wal_ok C l'" and "entries C l' = entries C l @ [e]"
proof -
  have "enc C (entries C l @ [e]) = Some (content (log_file l'))"
    using assms wal_okD(4) [OF assms(1)] by (simp add: enc_append)
  moreover have "log_seq l' = max_seq 0 (entries C l @ [e])"
    using assms wal_okD(6) [OF assms(1)] by (auto simp: max_seq_append max_def)
  ultimately show "wal_ok C l'" "entries C l' = entries C l @ [e]"
    using assms by (auto intro!: wal_okI dest: wal_okD)
qed

lemma word_less_Suc: "(n :: u64) + 1 \<noteq> 0 \<Longrightarrow> n < n + 1"
  by (metis add.commute lessI unatSuc word_less_nat_alt)

lemma Append_ok:
  assumes "wal_ok C l" and "log_seq l + 1 \<noteq> 0" and "Marshal C (e\<lparr>Seq := log_seq l + 1\<rparr>) = Inr d"
  shows "\<exists>l'. Append C e l = (Inr (log_seq l + 1), e\<lparr>Seq := log_seq l + 1\<rparr>, l') \<and> wal_ok C l' \<and>
    entries C l' = entries C l @ [e\<lparr>Seq := log_seq l + 1\<rparr>] \<and> log_seq l' = log_seq l + 1"
proof -
  let ?e = "e\<lparr>Seq := log_seq l + 1\<rparr>"
  let ?f = "(log_file l)\<lparr>content := content (log_file l) @ frame d,
                         offset := length (content (log_file l) @ frame d)\<rparr>"
  let ?l = "l\<lparr>log_file := ?f, log_seq := max (log_seq l) (Seq ?e)\<rparr>"
  have m: "max (log_seq l) (log_seq l + 1) = log_seq l + 1"
    using word_less_Suc [OF assms(2)] by (simp add: max_def)
  have "Append C e l = (Inr (log_seq l + 1), ?e, ?l)"
    using assms wal_okD(2,3) [OF assms(1)]
    by (simp add: Append_def file_simps Let_def m del: length_append)
  then show ?thesis
    using wal_ok_extend [OF assms(1,3) _ refl refl] assms(2) m by auto
qed

lemma AppendReplicated_ok:
  assumes "wal_ok C l" and "Seq e \<noteq> 0" and "Marshal C e = Inr d"
  shows "\<exists>l'. AppendReplicated C e l = (None, l') \<and> wal_ok C l' \<and>
    entries C l' = entries C l @ [e] \<and> log_seq l' = max (log_seq l) (Seq e)"
proof -
  let ?f = "(log_file l)\<lparr>content := content (log_file l) @ frame d,
                         offset := length (content (log_file l) @ frame d)\<rparr>"
  let ?l = "l\<lparr>log_file := ?f, log_seq := max (log_seq l) (Seq e)\<rparr>"
  have "AppendReplicated C e l = (None, ?l)"
    using assms wal_okD(2,3) [OF assms(1)]
    by (simp add: AppendReplicated_def file_simps max_def not_le not_less del: length_append)
  then show ?thesis
    using wal_ok_extend [OF assms(1,3,2) refl refl] by auto
qed

lemma Open_decode:
  assumes "codec_ok C" and "enc C es = Some bs" and "\<And>e. e \<in> set es \<Longrightarrow> Seq e \<noteq> 0"
    and "(case disk p of None \<Rightarrow> [] | Some bs \<Rightarrow> bs) = bs"
  shows "\<exists>l. Open C p disk (sconst IOok) = Inr l \<and> wal_ok C l \<and> entries C l = es \<and> log_seq l = max_seq 0 es"
proof -
  let ?f = "\<lparr>content = bs, offset = 0, opened = True, faults = sconst IOok\<rparr>"
  let ?l = "\<lparr>log_path = p, log_file = ?f\<lparr>offset := length bs\<rparr>, log_seq = max_seq 0 es\<rparr>"
  have "healthy ?f" by (simp add: healthy_def)
  then have "readAllUnlocked C \<lparr>log_path = p, log_file = ?f, log_seq = 0\<rparr> =
      (Inr es, \<lparr>log_path = p, log_file = ?f\<lparr>offset := length bs\<rparr>, log_seq = 0\<rparr>)"
    using readAll_decode [of "\<lparr>log_path = p, log_file = ?f, log_seq = 0\<rparr>" C es]
      decode_enc [OF assms(1-3)] by simp
  then have "Open C p disk (sconst IOok) = Inr ?l"
    using assms(4) by (simp add: Open_def OpenFile_def recoverSeq_def)
  moreover have "wal_ok C ?l" "entries C ?l = es"
    using assms by (auto intro!: wal_okI simp: healthy_def)
  ultimately show ?thesis by auto
qed

subsection \<open>The log implements the interface of a log\<close>

definition storable :: "codec \<Rightarrow> WalEntry \<Rightarrow> bool" where
  "storable C e = (case Marshal C e of Inl _ \<Rightarrow> False | Inr _ \<Rightarrow> True)"

lemma storableE: "storable C e \<Longrightarrow> (\<And>d. Marshal C e = Inr d \<Longrightarrow> P) \<Longrightarrow> P"
  by (auto simp: storable_def split: sum.splits)

interpretation walstore: log_store "Append C" "AppendReplicated C" "ReadAll C" LastSeq
  "entries C" "wal_ok C" "storable C" for C
proof (unfold_locales, goal_cases)
  case (1 l)
  then show ?case by (rule ReadAll_ok)
next
  case (2 l e)
  from 2(3) obtain d where "Marshal C (e\<lparr>Seq := log_seq l + 1\<rparr>) = Inr d"
    by (auto simp: LastSeq_def elim: storableE)
  from Append_ok [OF 2(1) _ this] 2(2) show ?case by (auto simp: LastSeq_def)
next
  case (3 l e)
  then show ?case by (auto elim!: storableE dest: AppendReplicated_ok)
next
  case (4 l)
  then show ?case by (simp add: LastSeq_def wal_okD(6) max_seq_max)
qed

subsection \<open>What a failing device leaves behind\<close>

text \<open>
  Whatever the device does, a write at the end of the file adds a prefix of the record, and the
  whole record when no error is reported.
\<close>

lemma file_Write_end:
  assumes "offset f = length (content f)" and "file_Write bs f = (r, f')"
  shows "\<exists>k. content f' = content f @ take k bs \<and> offset f' = length (content f') \<and>
    (r = None \<longrightarrow> length bs \<le> k)"
proof (cases "\<not> opened f")
  case True
  with assms show ?thesis by (intro exI [of _ 0]) (auto simp: file_Write_def)
next
  case False
  show ?thesis
  proof (cases "shd (faults f)")
    case IOok
    with assms False show ?thesis
      by (intro exI [of _ "length bs"]) (auto simp: file_Write_def put_bytes_def use_fate_def)
  next
    case (IOerr n m)
    with assms False show ?thesis
      by (intro exI [of _ n]) (auto simp: file_Write_def put_bytes_def use_fate_def)
  qed
qed

lemma file_Sync_keeps: "file_Sync f = (r, f') \<Longrightarrow> content f' = content f \<and> offset f' = offset f"
  by (auto simp: file_Sync_def use_fate_def split: if_splits io_fate.splits)

lemma write_record_end:
  assumes "offset f = length (content f)" and "write_record d f = (r, f')"
  shows "\<exists>k. content f' = content f @ take k (frame d) \<and> offset f' = length (content f') \<and>
    (r = None \<longrightarrow> 4 + length d \<le> k)"
proof -
  let ?h = "PutUint32 (of_nat (length d))"
  obtain r1 f1 where w1: "file_Write ?h f = (r1, f1)" by fastforce
  from file_Write_end [OF assms(1) w1] obtain k where
    k: "content f1 = content f @ take k ?h" "offset f1 = length (content f1)" "r1 = None \<longrightarrow> 4 \<le> k"
    by (metis PutUint32_length)
  show ?thesis
  proof (cases r1)
    case (Some err)
    moreover have "take (min k 4) ?h = take k ?h"
      by (metis PutUint32_length min.commute take_all_iff take_take order_refl)
    ultimately show ?thesis using assms(2) w1 k
      by (intro exI [of _ "min k 4"]) (auto simp: write_record_def frame_def)
  next
    case None
    then have c1: "content f1 = content f @ ?h" using k by simp
    obtain r2 f2 where w2: "file_Write d f1 = (r2, f2)" by fastforce
    from file_Write_end [OF k(2) w2] obtain m where
      m: "content f2 = content f1 @ take m d" "offset f2 = length (content f2)" "r2 = None \<longrightarrow> length d \<le> m"
      by blast
    have "content f' = content f2 \<and> offset f' = offset f2 \<and> (r = None \<longrightarrow> r2 = None)"
      using assms(2) w1 w2 None
      by (auto simp: write_record_def split: option.splits dest: file_Sync_keeps)
    with m c1 show ?thesis
      by (intro exI [of _ "4 + m"]) (auto simp: frame_def)
  qed
qed

lemma Append_any_device:
  assumes "offset (log_file l) = length (content (log_file l))" and "Append C e l = (r, e', l')"
  shows "e' = e\<lparr>Seq := log_seq l + 1\<rparr> \<and> offset (log_file l') = length (content (log_file l')) \<and>
    (case r of
       Inr s \<Rightarrow> s = log_seq l + 1 \<and> log_seq l' = s \<and>
         (\<exists>d. Marshal C e' = Inr d \<and> content (log_file l') = content (log_file l) @ frame d)
     | Inl err \<Rightarrow> log_seq l' = log_seq l \<and>
         (content (log_file l') = content (log_file l) \<or>
          (\<exists>d k. Marshal C e' = Inr d \<and> content (log_file l') = content (log_file l) @ take k (frame d))))"
proof (cases "Marshal C (e\<lparr>Seq := log_seq l + 1\<rparr>)")
  case (Inl err)
  with assms show ?thesis by (auto simp: Append_def Let_def)
next
  case (Inr d)
  obtain w f where w: "write_record d (log_file l) = (w, f)" by fastforce
  from write_record_end [OF assms(1) w] obtain k where
    k: "content f = content (log_file l) @ take k (frame d)" "offset f = length (content f)"
      "w = None \<longrightarrow> 4 + length d \<le> k"
    by blast
  show ?thesis
  proof (cases w)
    case None
    with Inr w k assms(2) show ?thesis by (auto simp: Append_def Let_def)
  next
    case (Some err)
    with Inr w k assms(2) show ?thesis by (auto simp: Append_def Let_def)
  qed
qed

text \<open>A log as \<open>Open\<close> returns it for a path that holds nothing.\<close>

definition new_log :: "string \<Rightarrow> Log" where
  "new_log p =
     \<lparr>log_path = p, log_file = \<lparr>content = [], offset = 0, opened = True, faults = sconst IOok\<rparr>, log_seq = 0\<rparr>"

lemma new_log_ok [simp]: "codec_ok C \<Longrightarrow> wal_ok C (new_log p)"
  by (rule wal_okI [of C _ "[]"]) (simp_all add: new_log_def healthy_def)

lemma new_log_entries [simp]: "entries C (new_log p) = []"
  by (simp add: new_log_def entries_def)

lemma new_log_seq [simp]: "LastSeq (new_log p) = 0" "log_seq (new_log p) = 0"
  by (simp_all add: new_log_def LastSeq_def)

lemma storable_wire [simp]:
  "(case Op e of None \<Rightarrow> True | Some p \<Rightarrow> length (op_ip p) < 2 ^ 29) \<Longrightarrow> storable wire_codec e"
  using wire_Marshal [of e] by (force simp: storable_def split: option.splits sum.splits)

text \<open>A record cut short is never read as a record.\<close>

lemma decode_torn:
  assumes "codec_ok C" and "Marshal C e = Inr d" and "Seq e \<noteq> 0" and "0 < n" and "n < 4 + length d"
  shows "decode C (take n (frame d)) = Inl (if n = 4 then EOF else ErrUnexpectedEOF)"
proof (cases "n < 4")
  case True
  then show ?thesis using assms(4) by (subst decode.simps) simp
next
  case False
  then have n: "take n (frame d) = PutUint32 (of_nat (length d)) @ take (n - 4) d"
    by (simp add: frame_def)
  have "d \<noteq> []" "length d < 2147483648" using codec_okD [OF assms(1,2)] assms(3) by auto
  with False assms(4,5) show ?thesis unfolding n by (subst decode.simps) (auto simp: Let_def)
qed

lemma readAll_decode_error:
  assumes "healthy (log_file l)" and "decode C (content (log_file l)) = Inl err"
  shows "fst (readAllUnlocked C l) = Inl err"
  using assms read_loop_decode [of "(log_file l)\<lparr>offset := 0\<rparr>" C "[]"]
  by (auto simp: readAllUnlocked_def file_simps split: prod.split)

subsection \<open>Properties of the log\<close>

text \<open>
  C7: On a log in order, \<open>Append\<close> stores the entry under the next sequence number, returns that
  number, and the next \<open>ReadAll\<close> returns the old entries followed by the stored one, leaving the
  log ready for the next append.
\<close>

theorem append_then_read:
  assumes "wal_ok C l" and "LastSeq l + 1 \<noteq> 0" and "storable C (e\<lparr>Seq := LastSeq l + 1\<rparr>)"
  shows "\<exists>l'. Append C e l = (Inr (LastSeq l + 1), e\<lparr>Seq := LastSeq l + 1\<rparr>, l') \<and>
    ReadAll C l' = (Inr (entries C l @ [e\<lparr>Seq := LastSeq l + 1\<rparr>]), l') \<and>
    LastSeq l' = LastSeq l + 1 \<and> wal_ok C l'"
proof -
  from assms(3) obtain d where "Marshal C (e\<lparr>Seq := log_seq l + 1\<rparr>) = Inr d"
    by (auto simp: LastSeq_def elim: storableE)
  from Append_ok [OF assms(1) _ this] assms(2) show ?thesis
    by (auto simp: LastSeq_def ReadAll_ok)
qed

theorem append_then_read_witness:
  "\<exists>l'. Append wire_codec \<lparr>Seq = 0, Op = None\<rparr> (new_log ''w'') = (Inr 1, \<lparr>Seq = 1, Op = None\<rparr>, l') \<and>
    ReadAll wire_codec l' = (Inr [\<lparr>Seq = 1, Op = None\<rparr>], l')"
  using append_then_read [of wire_codec "new_log ''w''" "\<lparr>Seq = 0, Op = None\<rparr>"]
  by (auto simp: wire_codec_ok)

text \<open>
  C11: A process that opens the file of a log in order again (after a crash or a restart) recovers
  exactly its entries and its last sequence number.
\<close>

theorem reopen_recovers:
  assumes "wal_ok C l"
  shows "\<exists>l'. Open C p [p \<mapsto> content (log_file l)] (sconst IOok) = Inr l' \<and>
    ReadAll C l' = (Inr (entries C l), l') \<and> LastSeq l' = LastSeq l \<and> wal_ok C l'"
proof -
  from Open_decode [OF wal_okD(1,4) [OF assms], of "[p \<mapsto> content (log_file l)]" p] wal_okD(5,6) [OF assms]
  show ?thesis by (auto simp: LastSeq_def ReadAll_ok)
qed

theorem reopen_recovers_witness:
  "\<exists>l l'. Append wire_codec \<lparr>Seq = 0, Op = None\<rparr> (new_log ''w'') = (Inr 1, \<lparr>Seq = 1, Op = None\<rparr>, l) \<and>
    Open wire_codec ''w'' [''w'' \<mapsto> content (log_file l)] (sconst IOok) = Inr l' \<and>
    ReadAll wire_codec l' = (Inr [\<lparr>Seq = 1, Op = None\<rparr>], l') \<and> LastSeq l' = 1"
proof -
  have st: "storable wire_codec \<lparr>Seq = 1, Op = None\<rparr>" by simp
  then obtain d where "Marshal wire_codec \<lparr>Seq = 1, Op = None\<rparr> = Inr d" by (rule storableE)
  from Append_ok [of wire_codec "new_log ''w''" "\<lparr>Seq = 0, Op = None\<rparr>" d] this obtain l where
    l: "Append wire_codec \<lparr>Seq = 0, Op = None\<rparr> (new_log ''w'') = (Inr 1, \<lparr>Seq = 1, Op = None\<rparr>, l)"
      "wal_ok wire_codec l" "entries wire_codec l = [\<lparr>Seq = 1, Op = None\<rparr>]" "LastSeq l = 1"
    by (auto simp: wire_codec_ok LastSeq_def)
  from reopen_recovers [OF l(2), of "''w''"] l show ?thesis by auto
qed

text \<open>
  C25: A crash in the middle of an append, which leaves a proper non-empty prefix of the record at
  the end of the file, is detected: opening the log fails with an end-of-file error instead of
  dropping or misreading the record.
\<close>

theorem torn_append_refused:
  assumes "wal_ok C l" and "Marshal C e = Inr d" and "Seq e \<noteq> 0" and "0 < n" and "n < length (frame d)"
  shows "Open C p [p \<mapsto> content (log_file l) @ take n (frame d)] (sconst IOok) =
    Inl (if n = 4 then EOF else ErrUnexpectedEOF)"
proof -
  let ?bs = "content (log_file l) @ take n (frame d)"
  let ?l = "\<lparr>log_path = p, log_file = \<lparr>content = ?bs, offset = 0, opened = True, faults = sconst IOok\<rparr>, log_seq = 0\<rparr>"
  have "decode C ?bs = Inl (if n = 4 then EOF else ErrUnexpectedEOF)"
    using decode_append [OF wal_okD(1,4) [OF assms(1)], of "take n (frame d)"] wal_okD(5) [OF assms(1)]
      decode_torn [OF wal_okD(1) [OF assms(1)] assms(2-4)] assms(5) by simp
  then have "fst (readAllUnlocked C ?l) = Inl (if n = 4 then EOF else ErrUnexpectedEOF)"
    by (intro readAll_decode_error) (simp_all add: healthy_def)
  then show ?thesis
    by (auto simp: Open_def OpenFile_def recoverSeq_def split: prod.split sum.split)
qed

theorem torn_append_refused_witness:
  "Open wire_codec ''w'' [''w'' \<mapsto> content (log_file (new_log ''w'')) @ take 3 (frame [8, 1])] (sconst IOok) =
    Inl ErrUnexpectedEOF"
proof -
  have "Marshal wire_codec \<lparr>Seq = 1, Op = None\<rparr> = Inr [8, 1]"
    by (simp add: wire_codec_def entry_fields_def opt_varint_def put_fields_def varint.simps)
  from torn_append_refused [OF new_log_ok [OF wire_codec_ok] this, of 3] show ?thesis by simp
qed

text \<open>
  C24: Whatever the disk does during \<open>Append\<close> at the end of the file, the sequence number moves only when the append is
  reported as done; the file keeps all its bytes and gains the whole record of the numbered entry
  on success, and on an error a prefix of that record, or nothing when the entry has no encoding.
\<close>

theorem append_on_any_device:
  assumes "offset (log_file l) = length (content (log_file l))" and "Append C e l = (r, e', l')"
  shows "case Marshal C (e\<lparr>Seq := LastSeq l + 1\<rparr>) of
      Inl err \<Rightarrow> r = Inl err \<and> l' = l
    | Inr d \<Rightarrow>
        (case r of
           Inr s \<Rightarrow> s = LastSeq l + 1 \<and> LastSeq l' = s \<and> content (log_file l') = content (log_file l) @ frame d
         | Inl err \<Rightarrow> LastSeq l' = LastSeq l \<and> (\<exists>k. content (log_file l') = content (log_file l) @ take k (frame d)))"
proof (cases "Marshal C (e\<lparr>Seq := LastSeq l + 1\<rparr>)")
  case (Inl err)
  with assms(2) show ?thesis by (auto simp: Append_def Let_def LastSeq_def)
next
  case (Inr d)
  note a = Append_any_device [OF assms]
  show ?thesis
  proof (cases r)
    case r: (Inl err)
    with a Inr have "LastSeq l' = LastSeq l" "\<exists>k. content (log_file l') = content (log_file l) @ take k (frame d)"
      by (auto simp: LastSeq_def intro: exI [of _ 0])
    with r Inr show ?thesis by simp
  next
    case r: (Inr s)
    with a Inr show ?thesis by (auto simp: LastSeq_def)
  qed
qed

theorem append_on_any_device_witness:
  "\<exists>l' k. Append wire_codec \<lparr>Seq = 0, Op = None\<rparr>
        ((new_log ''w'')\<lparr>log_file := (log_file (new_log ''w''))\<lparr>faults := IOok ## IOerr 1 ''disk full'' ## sconst IOok\<rparr>\<rparr>) =
      (Inl (SysErr ''disk full''), \<lparr>Seq = 1, Op = None\<rparr>, l') \<and>
    LastSeq l' = 0 \<and> content (log_file l') = take k (frame [8, 1])"
proof -
  let ?l = "(new_log ''w'')\<lparr>log_file := (log_file (new_log ''w''))\<lparr>faults := IOok ## IOerr 1 ''disk full'' ## sconst IOok\<rparr>\<rparr>"
  have m: "Marshal wire_codec \<lparr>Seq = 1, Op = None\<rparr> = Inr [8, 1]"
    by (simp add: wire_codec_def entry_fields_def opt_varint_def put_fields_def varint.simps)
  obtain l' where a: "Append wire_codec \<lparr>Seq = 0, Op = None\<rparr> ?l = (Inl (SysErr ''disk full''), \<lparr>Seq = 1, Op = None\<rparr>, l')"
    using m by (simp add: Append_def Let_def new_log_def write_record_def file_Write_def use_fate_def put_bytes_def)
  from append_on_any_device [OF _ a] m a show ?thesis by (auto simp: new_log_def LastSeq_def)
qed

text \<open>
  When the final \<open>Sync\<close> of an append fails, the record stays in the file although the append is
  reported as failed and its number is taken back: the next append stores a second entry under
  the same sequence number, and reading the log returns both.
\<close>

theorem failed_sync_reuses_seq:
  assumes "wal_ok C l" and "LastSeq l + 1 \<noteq> 0"
    and "storable C (e\<lparr>Seq := LastSeq l + 1\<rparr>)" and "storable C (e'\<lparr>Seq := LastSeq l + 1\<rparr>)"
  shows "\<exists>l1 l2.
    Append C e (l\<lparr>log_file := (log_file l)\<lparr>faults := IOok ## IOok ## IOerr 0 m ## sconst IOok\<rparr>\<rparr>) =
      (Inl (SysErr m), e\<lparr>Seq := LastSeq l + 1\<rparr>, l1) \<and>
    Append C e' l1 = (Inr (LastSeq l + 1), e'\<lparr>Seq := LastSeq l + 1\<rparr>, l2) \<and>
    ReadAll C l2 = (Inr (entries C l @ [e\<lparr>Seq := LastSeq l + 1\<rparr>, e'\<lparr>Seq := LastSeq l + 1\<rparr>]), l2)"
proof -
  let ?s = "log_seq l + 1"
  let ?es = "entries C l @ [e\<lparr>Seq := ?s\<rparr>, e'\<lparr>Seq := ?s\<rparr>]"
  from assms(3,4) obtain d d' where d: "Marshal C (e\<lparr>Seq := ?s\<rparr>) = Inr d" "Marshal C (e'\<lparr>Seq := ?s\<rparr>) = Inr d'"
    by (auto simp: LastSeq_def elim!: storableE)
  let ?b = "content (log_file l) @ frame d"
  let ?l1 = "l\<lparr>log_file := (log_file l)\<lparr>content := ?b, offset := length ?b\<rparr>\<rparr>"
  let ?l2 = "l\<lparr>log_file := (log_file l)\<lparr>content := ?b @ frame d', offset := length (?b @ frame d')\<rparr>, log_seq := ?s\<rparr>"
  note l = wal_okD [OF assms(1)]
  have w: "write_record d ((log_file l)\<lparr>faults := IOok ## IOok ## IOerr 0 m ## sconst IOok\<rparr>) =
      (Some (SysErr m), (log_file l)\<lparr>content := ?b, offset := length ?b\<rparr>)"
    using l(2,3) by (cases "log_file l") (simp add: healthy_def write_record_def file_Write_def
        file_Sync_def put_bytes_def use_fate_def frame_def overwrite_def)
  have a1: "Append C e (l\<lparr>log_file := (log_file l)\<lparr>faults := IOok ## IOok ## IOerr 0 m ## sconst IOok\<rparr>\<rparr>) =
      (Inl (SysErr m), e\<lparr>Seq := ?s\<rparr>, ?l1)"
    using w d(1) by (simp add: Append_def Let_def)
  have a2: "Append C e' ?l1 = (Inr ?s, e'\<lparr>Seq := ?s\<rparr>, ?l2)"
    using d(2) l(2) by (simp add: Append_def Let_def file_simps)
  have "log_seq ?l2 = max_seq 0 ?es"
    using l(6) word_less_Suc assms(2) by (simp add: max_seq_append LastSeq_def)
  moreover have "enc C ?es = Some (content (log_file ?l2))" "\<And>x. x \<in> set ?es \<Longrightarrow> Seq x \<noteq> 0"
    using l(4,5) d assms(2) by (auto simp: enc_append LastSeq_def)
  ultimately have "wal_ok C ?l2" "entries C ?l2 = ?es"
    using l(1,2) wal_okI [of C ?l2 ?es] by simp_all
  with a1 a2 show ?thesis by (auto simp: LastSeq_def ReadAll_ok)
qed

theorem failed_sync_reuses_seq_witness:
  "\<exists>l1 l2.
    Append wire_codec \<lparr>Seq = 0, Op = None\<rparr> ((new_log ''w'')\<lparr>log_file :=
        (log_file (new_log ''w''))\<lparr>faults := IOok ## IOok ## IOerr 0 ''EIO'' ## sconst IOok\<rparr>\<rparr>) =
      (Inl (SysErr ''EIO''), \<lparr>Seq = 1, Op = None\<rparr>, l1) \<and>
    Append wire_codec \<lparr>Seq = 0, Op = None\<rparr> l1 = (Inr 1, \<lparr>Seq = 1, Op = None\<rparr>, l2) \<and>
    ReadAll wire_codec l2 = (Inr [\<lparr>Seq = 1, Op = None\<rparr>, \<lparr>Seq = 1, Op = None\<rparr>], l2)"
  using failed_sync_reuses_seq [of wire_codec "new_log ''w''" "\<lparr>Seq = 0, Op = None\<rparr>"
      "\<lparr>Seq = 0, Op = None\<rparr>" "''EIO''"]
  by (simp add: wire_codec_ok)

subsection \<open>Reading ends\<close>

text \<open>How often the device was called between two states of a file.\<close>

definition calls :: "nat \<Rightarrow> File \<Rightarrow> File \<Rightarrow> bool" where
  "calls n f f' \<longleftrightarrow> faults f' = sdrop n (faults f) \<and> content f' = content f"

lemma calls_trans: "calls m f f1 \<Longrightarrow> calls n f1 f2 \<Longrightarrow> calls (m + n) f f2"
  by (simp add: calls_def)

lemma ReadFull_calls:
  assumes "ReadFull n f = (r, f')"
  shows "\<exists>k. k \<le> 1 \<and> calls k f f'"
proof -
  have "calls 0 f f' \<or> calls 1 f f'"
    using assms by (auto simp: ReadFull_def calls_def use_fate_def Let_def split: if_splits io_fate.splits)
  then show ?thesis by (meson le_refl zero_le)
qed

lemma read_loop_calls:
  "\<exists>n. n \<le> 2 * (length (rest f) div 5) + 2 \<and> calls n f (snd (read_loop C f acc)) \<and>
    (\<forall>es. fst (read_loop C f acc) = Inr es \<longrightarrow> length es \<le> length acc + length (rest f) div 5)"
proof (induction C f acc rule: read_loop.induct)
  case (1 C f acc)
  obtain r1 f1 where r1: "ReadFull 4 f = (r1, f1)" by fastforce
  from ReadFull_calls [OF this] obtain k1 where k1: "k1 \<le> 1" "calls k1 f f1" by auto
  show ?case
  proof (cases "\<exists>header. r1 = Inr header \<and> Uint32 header \<noteq> 0")
    case False
    then have "snd (read_loop C f acc) = f1" "\<And>es. fst (read_loop C f acc) = Inr es \<Longrightarrow> es = acc"
      using r1 by (auto simp: read_loop.simps [of C f acc] Let_def split: sum.splits if_splits)
    with k1 show ?thesis by (intro exI [of _ k1]) auto
  next
    case True
    then obtain header where h: "r1 = Inr header" "Uint32 header \<noteq> 0" by blast
    let ?n = "unat (Uint32 header)"
    have pos: "0 < ?n" using h(2) by (simp add: unat_gt_0)
    obtain r2 f2 where r2: "ReadFull ?n f1 = (r2, f2)" by fastforce
    from ReadFull_calls [OF this] obtain k2 where k2: "k2 \<le> 1" "calls k2 f1 f2" by auto
    note k = calls_trans [OF k1(2) k2(2)]
    show ?thesis
    proof (cases "\<exists>data entry. r2 = Inr data \<and> Unmarshal C data = Inr entry")
      case False
      then have "snd (read_loop C f acc) = f2" "\<And>es. fst (read_loop C f acc) \<noteq> Inr es"
        using r1 r2 h by (auto simp: read_loop.simps [of C f acc] Let_def split: sum.splits)
      with k k1(1) k2(1) show ?thesis by (intro exI [of _ "k1 + k2"]) auto
    next
      case True
      then obtain data entry where d: "r2 = Inr data" "Unmarshal C data = Inr entry" by blast
      have e: "read_loop C f acc = read_loop C f2 (acc @ [entry])"
        using r1 r2 h d by (simp add: read_loop.simps [of C f acc])
      have "length (rest f1) + 4 = length (rest f)" "length (rest f2) + ?n = length (rest f1)"
        using ReadFull_progress r1 r2 h(1) d(1) by blast+
      with pos have len: "length (rest f2) div 5 + 1 \<le> length (rest f) div 5" by auto
      from "1.IH" [OF r1 [symmetric] h(1) refl h(2) r2 [symmetric] d(1) d(2)] obtain n where
        n: "n \<le> 2 * (length (rest f2) div 5) + 2" "calls n f2 (snd (read_loop C f2 (acc @ [entry])))"
          "\<And>es. fst (read_loop C f2 (acc @ [entry])) = Inr es \<Longrightarrow> length es \<le> length (acc @ [entry]) + length (rest f2) div 5"
        by blast
      have "k1 + k2 + n \<le> 2 * (length (rest f) div 5) + 2" using k1(1) k2(1) n(1) len by linarith
      moreover have "length es \<le> length acc + length (rest f) div 5" if "fst (read_loop C f acc) = Inr es" for es
        using n(3) [of es] that len unfolding e by simp
      ultimately show ?thesis using calls_trans [OF k n(2)] unfolding e by blast
    qed
  qed
qed

text \<open>
  C23: Reading a log ends whatever the file holds and whatever the device does: it calls the device
  at most twice for every five bytes of the file and three times more, it never writes, and it
  returns at most one entry for every five bytes.
\<close>

theorem reading_ends:
  "\<exists>n. n \<le> 2 * (length (content (log_file l)) div 5) + 3 \<and>
    faults (log_file (snd (ReadAll C l))) = sdrop n (faults (log_file l)) \<and>
    content (log_file (snd (ReadAll C l))) = content (log_file l) \<and>
    (case fst (ReadAll C l) of Inl err \<Rightarrow> True | Inr es \<Rightarrow> length es \<le> length (content (log_file l)) div 5)"
proof -
  let ?f = "log_file l"
  obtain err f1 where s: "file_SeekStart ?f = (err, f1)" by fastforce
  then have "calls 0 ?f f1 \<or> calls 1 ?f f1"
    by (auto simp: file_SeekStart_def calls_def use_fate_def split: if_splits io_fate.splits)
  then obtain k where k: "k \<le> 1" "calls k ?f f1" by (meson le_refl zero_le)
  show ?thesis
  proof (cases err)
    case None
    then have "rest f1 = content ?f"
      using s by (auto simp: file_SeekStart_def use_fate_def rest_def split: if_splits io_fate.splits)
    with read_loop_calls [of f1 C "[]"] obtain n where
      n: "n \<le> 2 * (length (content ?f) div 5) + 2" "calls n f1 (snd (read_loop C f1 []))"
        "\<And>es. fst (read_loop C f1 []) = Inr es \<Longrightarrow> length es \<le> length (content ?f) div 5" by auto
    have r: "ReadAll C l = (fst (read_loop C f1 []), l\<lparr>log_file := snd (read_loop C f1 [])\<rparr>)"
      using s None by (simp add: ReadAll_def readAllUnlocked_def split: prod.split)
    have "k + n \<le> 2 * (length (content ?f) div 5) + 3" using k(1) n(1) by linarith
    with calls_trans [OF k(2) n(2)] n(3) show ?thesis
      unfolding r calls_def by (auto split: sum.split)
  next
    case (Some e)
    then have "ReadAll C l = (Inl e, l\<lparr>log_file := f1\<rparr>)" using s by (simp add: ReadAll_def readAllUnlocked_def)
    with k show ?thesis by (intro exI [of _ k]) (simp add: calls_def)
  qed
qed

end
