(* ===== verification/Station_State.thy ===== *)
theory Station_State
  imports Protocol
begin

section \<open>Clients and stations in memory (internal/state/state.go)\<close>

text \<open>
  The package variables are the record \<open>store\<close>. A \<open>*ClientInfo\<close> is shared between the map of
  clients and the slice of a station, and the code compares such pointers, so client records live
  in a heap: an address is a position in \<open>heap\<close>, and allocation appends. A mutex protects each
  access; the operations here are the whole functions, run without interleaving. A panic (an index
  out of range, a channel closed twice) is \<open>None\<close>.
\<close>

type_synonym addr = nat

record UDPAddr =
  addr_IP :: IP
  addr_Port :: int

record ClientInfo =
  ci_UDPAddr :: UDPAddr
  CurrStation :: int
  EventChan :: "ServerEvent chan"

record Station =
  st_Clients :: "addr list"
  st_Name :: string

record store =
  heap :: "ClientInfo list"
  CurrentClients :: "string \<rightharpoonup> addr"
  StationList :: "Station list"

text \<open>The package variables before any call.\<close>

definition initial_store :: store where
  "initial_store = \<lparr>heap = [], CurrentClients = Map.empty, StationList = []\<rparr>"

subsection \<open>Slices, pointers\<close>

definition index :: "'a list \<Rightarrow> int \<Rightarrow> 'a may_panic" where
  "index xs i = (if 0 \<le> i \<and> i < int (length xs) then Some (xs ! nat i) else None)"

definition upd_client :: "addr \<Rightarrow> (ClientInfo \<Rightarrow> ClientInfo) \<Rightarrow> store \<Rightarrow> store" where
  "upd_client a g s = s\<lparr>heap := (heap s)[a := g (heap s ! a)]\<rparr>"

definition upd_clients_of :: "int \<Rightarrow> (addr list \<Rightarrow> addr list) \<Rightarrow> store \<Rightarrow> store" where
  "upd_clients_of i g s =
     (let st = StationList s ! nat i in
      s\<lparr>StationList := (StationList s)[nat i := st\<lparr>st_Clients := g (st_Clients st)\<rparr>]\<rparr>)"

definition alloc :: "ClientInfo \<Rightarrow> store \<Rightarrow> addr \<times> store" where
  "alloc c s = (length (heap s), s\<lparr>heap := heap s @ [c]\<rparr>)"

subsection \<open>The operations\<close>

definition InitStations :: "string list \<Rightarrow> store \<Rightarrow> store" where
  "InitStations files s = s\<lparr>StationList := map (\<lambda>p. \<lparr>st_Clients = [], st_Name = p\<rparr>) files\<rparr>"

definition ClientKey :: "string \<Rightarrow> u32 \<Rightarrow> string" where
  "ClientKey ip udpPort = ip @ '':'' @ dec (unat udpPort)"

definition ApplyHandshake :: "string \<Rightarrow> u32 \<Rightarrow> store \<Rightarrow> (error + string) \<times> store" where
  "ApplyHandshake ip udpPort s =
     (let key = ClientKey ip udpPort in
      case CurrentClients s key of
        Some _ \<Rightarrow> (Inl (Errorf (''client already connected: '' @ key)), s)
      | None \<Rightarrow>
          (let client = \<lparr>ci_UDPAddr = \<lparr>addr_IP = ParseIP ip, addr_Port = uint udpPort\<rparr>,
                         CurrStation = -1, EventChan = make_chan 100\<rparr>;
               (a, s1) = alloc client s
           in (Inr key, s1\<lparr>CurrentClients := (CurrentClients s1)(key \<mapsto> a)\<rparr>)))"

definition RollbackHandshake :: "string \<Rightarrow> u32 \<Rightarrow> store \<Rightarrow> store" where
  "RollbackHandshake ip udpPort s =
     s\<lparr>CurrentClients := (CurrentClients s)(ClientKey ip udpPort := None)\<rparr>"

definition removeFromCurrentStation :: "addr \<Rightarrow> store \<Rightarrow> store may_panic" where
  "removeFromCurrentStation client s =
     (let i = CurrStation (heap s ! client) in
      if i = -1 then Some s
      else do {
        _ \<leftarrow> index (StationList s) i;
        Some (upd_clients_of i (swap_remove client) s)
      })"

definition ApplySetStation :: "string \<Rightarrow> int \<Rightarrow> store \<Rightarrow> ((error + string) \<times> store) may_panic" where
  "ApplySetStation clientKey stationNum s =
     (case CurrentClients s clientKey of
        None \<Rightarrow> Some (Inl (Errorf (''client not found: '' @ clientKey)), s)
      | Some client \<Rightarrow> do {
          s1 \<leftarrow> removeFromCurrentStation client s;
          let s2 = upd_client client (\<lambda>c. c\<lparr>CurrStation := stationNum\<rparr>) s1;
          station \<leftarrow> index (StationList s2) stationNum;
          Some (Inr (st_Name station), upd_clients_of stationNum (\<lambda>cs. cs @ [client]) s2)
        })"

definition RollbackSetStation :: "string \<Rightarrow> int \<Rightarrow> store \<Rightarrow> store may_panic" where
  "RollbackSetStation clientKey previousStation s =
     (case CurrentClients s clientKey of
        None \<Rightarrow> Some s
      | Some client \<Rightarrow> do {
          s1 \<leftarrow> removeFromCurrentStation client s;
          let s2 = (if 0 \<le> previousStation \<and> previousStation < int (length (StationList s1))
                    then upd_clients_of previousStation (\<lambda>cs. cs @ [client]) s1 else s1);
          Some (upd_client client (\<lambda>c. c\<lparr>CurrStation := previousStation\<rparr>) s2)
        })"

definition ApplyDisconnect :: "string \<Rightarrow> store \<Rightarrow> (error option \<times> store) may_panic" where
  "ApplyDisconnect clientKey s =
     (case CurrentClients s clientKey of
        None \<Rightarrow> Some (Some (Errorf (''client not found: '' @ clientKey)), s)
      | Some client \<Rightarrow> do {
          let s1 = s\<lparr>CurrentClients := (CurrentClients s)(clientKey := None)\<rparr>;
          s2 \<leftarrow> removeFromCurrentStation client s1;
          ch \<leftarrow> chan_close (EventChan (heap s2 ! client));
          Some (None, upd_client client (\<lambda>c. c\<lparr>EventChan := ch\<rparr>) s2)
        })"

definition RollbackDisconnect :: "string \<Rightarrow> addr \<Rightarrow> store \<Rightarrow> store" where
  "RollbackDisconnect clientKey client s =
     (let s1 = s\<lparr>CurrentClients := (CurrentClients s)(clientKey \<mapsto> client)\<rparr>;
          i = CurrStation (heap s1 ! client)
      in if 0 \<le> i \<and> i < int (length (StationList s1))
         then upd_clients_of i (\<lambda>cs. cs @ [client]) s1 else s1)"

definition ApplyWalEntry :: "WalEntry \<Rightarrow> store \<Rightarrow> (error option \<times> store) may_panic" where
  "ApplyWalEntry entry s =
     (case Op entry of
        Some (WalEntry_Handshake op) \<Rightarrow>
          (case ApplyHandshake (hs_ClientIp op) (hs_UdpPort op) s of
             (Inl err, s') \<Rightarrow> Some (Some err, s') | (Inr _, s') \<Rightarrow> Some (None, s'))
      | Some (WalEntry_SetStation op) \<Rightarrow> do {
          (r, s') \<leftarrow> ApplySetStation (ClientKey (ss_ClientIp op) (ss_UdpPort op)) (sint (ss_StationNumber op)) s;
          Some (case r of Inl err \<Rightarrow> Some err | Inr _ \<Rightarrow> None, s')
        }
      | Some (WalEntry_Disconnect op) \<Rightarrow> ApplyDisconnect (ClientKey (dc_ClientIp op) (dc_UdpPort op)) s
      | None \<Rightarrow> Some (Some (Errorf ''unknown wal op''), s))"

definition RemoveFromCurrentStation :: "addr \<Rightarrow> store \<Rightarrow> store may_panic" where
  "RemoveFromCurrentStation client s = removeFromCurrentStation client s"

definition GetClient :: "string \<Rightarrow> store \<Rightarrow> addr option" where
  "GetClient clientKey s = CurrentClients s clientKey"

definition NumStations :: "store \<Rightarrow> int" where
  "NumStations s = int (length (StationList s))"

text \<open>
  The loop with which a coordinator or the node manager feeds the entries of a log to
  \<open>ApplyWalEntry\<close>: it stops at the first error and wraps it with the entry's number.
\<close>

fun replay :: "string \<Rightarrow> WalEntry list \<Rightarrow> store \<Rightarrow> (error option \<times> store) may_panic" where
  "replay pre [] s = Some (None, s)"
| "replay pre (entry # es) s =
     (case ApplyWalEntry entry s of
        None \<Rightarrow> None
      | Some (Some err, s') \<Rightarrow> Some (Some (Wrapf (pre @ dec (unat (Seq entry))) err), s')
      | Some (None, s') \<Rightarrow> replay pre es s')"

end
