(* ===== verification/Entry_Machine.thy ===== *)
theory Entry_Machine
  imports Protocol
begin

section \<open>The interface of a replayed state\<close>

text \<open>
  What the recovery loops rely on in the state they rebuild: applying one valid entry either
  implements one step of an abstract machine, or the abstract machine refuses the entry and the
  state is unchanged with an error; it never panics. A loop that applies the entries of a log in
  order then implements the abstract run, whatever it does with the error text.
\<close>

fun a_run :: "(WalEntry \<Rightarrow> 'a \<Rightarrow> 'a option) \<Rightarrow> WalEntry list \<Rightarrow> 'a \<Rightarrow> 'a option" where
  "a_run f [] m = Some m"
| "a_run f (e # es) m = (case f e m of None \<Rightarrow> None | Some m' \<Rightarrow> a_run f es m')"

lemma a_run_append: "a_run f (es @ es') m = Option.bind (a_run f es m) (a_run f es')"
  by (induction es arbitrary: m) (auto split: option.splits)

locale entry_machine =
  fixes apply_entry :: "WalEntry \<Rightarrow> 's \<Rightarrow> (error option \<times> 's) may_panic"
    and a_step :: "WalEntry \<Rightarrow> 'a \<Rightarrow> 'a option"
    and abs_of :: "'s \<Rightarrow> 'a"
    and inv :: "'s \<Rightarrow> bool"
    and valid :: "WalEntry \<Rightarrow> bool"
  assumes applies: "inv s \<Longrightarrow> valid e \<Longrightarrow> a_step e (abs_of s) = Some m \<Longrightarrow>
      \<exists>s'. apply_entry e s = Some (None, s') \<and> inv s' \<and> abs_of s' = m"
    and refuses: "inv s \<Longrightarrow> valid e \<Longrightarrow> a_step e (abs_of s) = None \<Longrightarrow>
      \<exists>err. apply_entry e s = Some (Some err, s)"
begin

definition is_loop :: "(WalEntry list \<Rightarrow> 's \<Rightarrow> (error option \<times> 's) may_panic) \<Rightarrow> bool" where
  "is_loop loop \<longleftrightarrow>
     (\<forall>s. loop [] s = Some (None, s)) \<and>
     (\<forall>e es s s'. apply_entry e s = Some (None, s') \<longrightarrow> loop (e # es) s = loop es s') \<and>
     (\<forall>e es s err s'. apply_entry e s = Some (Some err, s') \<longrightarrow>
        (\<exists>err'. loop (e # es) s = Some (Some err', s')))"

lemma loop_applies:
  assumes "is_loop loop" and "inv s" and "\<And>e. e \<in> set es \<Longrightarrow> valid e" and "a_run a_step es (abs_of s) = Some m"
  shows "\<exists>s'. loop es s = Some (None, s') \<and> inv s' \<and> abs_of s' = m"
  using assms(2-4)
proof (induction es arbitrary: s)
  case Nil
  with assms(1) show ?case by (auto simp: is_loop_def)
next
  case (Cons e es)
  from Cons.prems obtain m1 where m1: "a_step e (abs_of s) = Some m1" "a_run a_step es m1 = Some m"
    by (auto split: option.splits)
  from applies [OF Cons.prems(1) _ m1(1)] Cons.prems(2) obtain s1 where
    s1: "apply_entry e s = Some (None, s1)" "inv s1" "abs_of s1 = m1" by auto
  from Cons.IH [OF s1(2)] Cons.prems(2) m1(2) s1(3) have
    "\<exists>s'. loop es s1 = Some (None, s') \<and> inv s' \<and> abs_of s' = m" by simp
  moreover have "loop (e # es) s = loop es s1" using assms(1) s1(1) by (auto simp: is_loop_def)
  ultimately show ?case by simp
qed

lemma loop_refuses:
  assumes "is_loop loop" and "inv s" and "\<And>e. e \<in> set es \<Longrightarrow> valid e" and "a_run a_step es (abs_of s) = None"
  shows "\<exists>err s'. loop es s = Some (Some err, s') \<and> inv s'"
  using assms(2-4)
proof (induction es arbitrary: s)
  case Nil
  then show ?case by simp
next
  case (Cons e es)
  show ?case
  proof (cases "a_step e (abs_of s)")
    case None
    from refuses [OF Cons.prems(1) _ None] Cons.prems(2) obtain err where
      "apply_entry e s = Some (Some err, s)" by auto
    with assms(1) Cons.prems(1) show ?thesis unfolding is_loop_def by blast
  next
    case (Some m1)
    from applies [OF Cons.prems(1) _ Some] Cons.prems(2) obtain s1 where
      s1: "apply_entry e s = Some (None, s1)" "inv s1" "abs_of s1 = m1" by auto
    from Cons.IH [OF s1(2)] Cons.prems(2,3) Some s1(3) have
      "\<exists>err s'. loop es s1 = Some (Some err, s') \<and> inv s'" by simp
    moreover have "loop (e # es) s = loop es s1" using assms(1) s1(1) by (auto simp: is_loop_def)
    ultimately show ?thesis by simp
  qed
qed

end

end
