(* ===== verification/Station_Inv.thy ===== *)
theory Station_Inv
  imports Station_State Entry_Machine
begin

section \<open>The invariant of the in-memory state, and what it implements\<close>

text \<open>
  The two data structures of \<open>state.go\<close> say the same thing twice: a client records its station and
  the station lists the client. \<open>store_inv\<close> says that they agree. The abstract state is the map
  from a client's key to its station (-1 for none); every operation of the package implements one
  update of that map.
\<close>

definition registered :: "store \<Rightarrow> addr \<Rightarrow> bool" where
  "registered s a \<longleftrightarrow> a \<in> ran (CurrentClients s)"

definition clients_ok :: "store \<Rightarrow> bool" where
  "clients_ok s \<longleftrightarrow>
     inj_on (CurrentClients s) (dom (CurrentClients s)) \<and>
     (\<forall>k a. CurrentClients s k = Some a \<longrightarrow>
        a < length (heap s) \<and>
        \<not> closed (EventChan (heap s ! a)) \<and>
        cap (EventChan (heap s ! a)) = 100 \<and> length (buf (EventChan (heap s ! a))) \<le> 100 \<and>
        (\<exists>ip port. k = ClientKey ip port \<and>
           ci_UDPAddr (heap s ! a) = \<lparr>addr_IP = ParseIP ip, addr_Port = uint port\<rparr>))"

definition range_ok :: "store \<Rightarrow> bool" where
  "range_ok s \<longleftrightarrow>
     (\<forall>a. registered s a \<longrightarrow>
        -1 \<le> CurrStation (heap s ! a) \<and> CurrStation (heap s ! a) < int (length (StationList s)))"

text \<open>The stations list the registered clients by their station, but for the clients of a set.\<close>

definition stations_ok :: "addr set \<Rightarrow> store \<Rightarrow> bool" where
  "stations_ok A s \<longleftrightarrow>
     (\<forall>i < length (StationList s).
        distinct (st_Clients (StationList s ! i)) \<and>
        set (st_Clients (StationList s ! i)) =
          {a. a \<notin> A \<and> registered s a \<and> CurrStation (heap s ! a) = int i})"

definition store_inv :: "store \<Rightarrow> bool" where
  "store_inv s \<longleftrightarrow> clients_ok s \<and> range_ok s \<and> stations_ok {} s"

subsection \<open>The abstract state\<close>

type_synonym assignment = "string \<rightharpoonup> int"

definition abs_store :: "store \<Rightarrow> assignment" where
  "abs_store s = (\<lambda>k. map_option (\<lambda>a. CurrStation (heap s ! a)) (CurrentClients s k))"

definition station_names :: "store \<Rightarrow> string list" where
  "station_names s = map st_Name (StationList s)"

fun a_apply :: "WalOp \<Rightarrow> assignment \<Rightarrow> assignment option" where
  "a_apply (WalEntry_Handshake op) m =
     (let k = ClientKey (hs_ClientIp op) (hs_UdpPort op) in
      if m k = None then Some (m(k \<mapsto> -1)) else None)"
| "a_apply (WalEntry_SetStation op) m =
     (let k = ClientKey (ss_ClientIp op) (ss_UdpPort op) in
      if m k = None then None else Some (m(k \<mapsto> sint (ss_StationNumber op))))"
| "a_apply (WalEntry_Disconnect op) m =
     (let k = ClientKey (dc_ClientIp op) (dc_UdpPort op) in
      if m k = None then None else Some (m(k := None)))"

definition a_entry :: "WalEntry \<Rightarrow> assignment \<Rightarrow> assignment option" where
  "a_entry e m = (case Op e of None \<Rightarrow> None | Some p \<Rightarrow> a_apply p m)"

definition a_replay :: "WalEntry list \<Rightarrow> assignment \<Rightarrow> assignment option" where
  "a_replay es m = a_run a_entry es m"

text \<open>The obligation \<open>ApplySetStation\<close> leaves to its caller: the station exists.\<close>

fun op_valid :: "nat \<Rightarrow> WalOp \<Rightarrow> bool" where
  "op_valid n (WalEntry_SetStation op) =
     (0 \<le> sint (ss_StationNumber op) \<and> sint (ss_StationNumber op) < int n)"
| "op_valid n _ = True"

definition entry_valid :: "nat \<Rightarrow> WalEntry \<Rightarrow> bool" where
  "entry_valid n e = (case Op e of None \<Rightarrow> False | Some p \<Rightarrow> op_valid n p)"

subsection \<open>Keys\<close>

lemma append_colon_inject:
  assumes "CHR '':'' \<notin> set t" and "CHR '':'' \<notin> set t'" and "s @ '':'' @ t = s' @ '':'' @ t'"
  shows "s = s' \<and> t = t'"
proof -
  have "rev t @ CHR '':'' # rev s = rev t' @ CHR '':'' # rev s'"
    using assms(3) [THEN arg_cong, of rev] by simp
  moreover have "takeWhile (\<lambda>c. c \<noteq> CHR '':'') (rev u @ CHR '':'' # r) = rev u"
    if "CHR '':'' \<notin> set u" for u r :: string
    using that by (subst takeWhile_append2) auto
  ultimately have "rev t = rev t'" using assms(1,2) by metis
  with assms(3) show ?thesis by simp
qed

lemma ClientKey_inject: "ClientKey ip p = ClientKey ip' p' \<longleftrightarrow> ip = ip' \<and> p = p'"
proof
  assume "ClientKey ip p = ClientKey ip' p'"
  then have "ip = ip' \<and> dec (unat p) = dec (unat p')"
    unfolding ClientKey_def by (intro append_colon_inject) (simp_all add: colon_not_in_dec)
  then show "ip = ip' \<and> p = p'" by (simp add: word_unat_eq_iff)
qed simp

subsection \<open>Frames of the small updates\<close>

lemma upd_client_simps [simp]:
  "CurrentClients (upd_client a g s) = CurrentClients s"
  "StationList (upd_client a g s) = StationList s"
  "length (heap (upd_client a g s)) = length (heap s)"
  "a < length (heap s) \<Longrightarrow> heap (upd_client a g s) ! b = (if b = a then g (heap s ! a) else heap s ! b)"
  "registered (upd_client a g s) = registered s"
  by (auto simp: upd_client_def registered_def fun_eq_iff)

lemma upd_clients_of_simps [simp]:
  "CurrentClients (upd_clients_of i g s) = CurrentClients s"
  "heap (upd_clients_of i g s) = heap s"
  "length (StationList (upd_clients_of i g s)) = length (StationList s)"
  "registered (upd_clients_of i g s) = registered s"
  by (auto simp: upd_clients_of_def Let_def registered_def fun_eq_iff)

lemma upd_clients_of_nth:
  assumes "0 \<le> i" and "i < int (length (StationList s))" and "j < length (StationList s)"
  shows "st_Clients (StationList (upd_clients_of i g s) ! j) =
      (if int j = i then g (st_Clients (StationList s ! j)) else st_Clients (StationList s ! j))"
  using assms by (auto simp: upd_clients_of_def Let_def nth_list_update)

lemma station_names_upd_client [simp]: "station_names (upd_client a g s) = station_names s"
  by (simp add: station_names_def)

lemma station_names_upd_clients_of [simp]: "station_names (upd_clients_of i g s) = station_names s"
proof (rule nth_equalityI)
  fix j
  assume "j < length (station_names (upd_clients_of i g s))"
  then show "station_names (upd_clients_of i g s) ! j = station_names s ! j"
    by (cases "j = nat i") (auto simp: station_names_def upd_clients_of_def Let_def)
qed (simp add: station_names_def)

lemma length_StationList: "station_names s = station_names t \<Longrightarrow> length (StationList s) = length (StationList t)"
  by (metis length_map station_names_def)

lemma registeredI: "CurrentClients s k = Some a \<Longrightarrow> registered s a"
  by (auto simp: registered_def ran_def)

lemma registeredE: "registered s a \<Longrightarrow> (\<And>k. CurrentClients s k = Some a \<Longrightarrow> P) \<Longrightarrow> P"
  by (auto simp: registered_def ran_def)

lemma clients_okD:
  assumes "clients_ok s" and "CurrentClients s k = Some a"
  shows "a < length (heap s)" and "\<not> closed (EventChan (heap s ! a))"
    and "CurrentClients s k' = Some a \<Longrightarrow> k' = k"
  using assms unfolding clients_ok_def inj_on_def by (auto simp: dom_def)

lemma index_Some [simp]: "0 \<le> i \<Longrightarrow> i < int (length xs) \<Longrightarrow> index xs i = Some (xs ! nat i)"
  by (simp add: index_def)

subsection \<open>Taking a client off its station and putting it on one\<close>

lemma detach:
  assumes "stations_ok A s" and "range_ok s" and "registered s a \<or> CurrStation (heap s ! a) = -1 \<or>
      (0 \<le> CurrStation (heap s ! a) \<and> CurrStation (heap s ! a) < int (length (StationList s)))"
  shows "\<exists>s'. removeFromCurrentStation a s = Some s' \<and> stations_ok (insert a A) s' \<and>
    heap s' = heap s \<and> CurrentClients s' = CurrentClients s \<and> station_names s' = station_names s"
proof (cases "CurrStation (heap s ! a) = -1")
  case True
  then have "removeFromCurrentStation a s = Some s" by (simp add: removeFromCurrentStation_def)
  moreover have "stations_ok (insert a A) s"
    using assms(1) True by (auto simp: stations_ok_def)
  ultimately show ?thesis by auto
next
  case False
  let ?i = "CurrStation (heap s ! a)"
  let ?s = "upd_clients_of ?i (swap_remove a) s"
  have i: "0 \<le> ?i" "?i < int (length (StationList s))"
    using False assms(2,3) by (auto simp: range_ok_def)
  then have "removeFromCurrentStation a s = Some ?s"
    using False by (simp add: removeFromCurrentStation_def Let_def)
  moreover have "stations_ok (insert a A) ?s"
    using assms(1) i unfolding stations_ok_def by (auto simp: upd_clients_of_nth)
  ultimately show ?thesis by auto
qed

lemma attach:
  assumes "stations_ok (insert a A) s" and "a \<notin> A" and "registered s a"
    and "CurrStation (heap s ! a) = i" and "0 \<le> i" and "i < int (length (StationList s))"
  shows "stations_ok A (upd_clients_of i (\<lambda>cs. cs @ [a]) s)"
  using assms unfolding stations_ok_def by (auto simp: upd_clients_of_nth)

lemma stations_ok_idle:
  "stations_ok (insert a A) s \<Longrightarrow> CurrStation (heap s ! a) = -1 \<Longrightarrow> stations_ok A s"
  by (auto simp: stations_ok_def)

lemma stations_ok_upd_client:
  "stations_ok (insert a A) s \<Longrightarrow> a < length (heap s) \<Longrightarrow> stations_ok (insert a A) (upd_client a g s)"
  by (auto simp: stations_ok_def)

lemma range_ok_frame:
  "range_ok s \<Longrightarrow> heap s' = heap s \<Longrightarrow> CurrentClients s' = CurrentClients s \<Longrightarrow>
   station_names s' = station_names s \<Longrightarrow> range_ok s'"
  using length_StationList [of s' s] by (auto simp: range_ok_def registered_def)

lemma clients_ok_frame:
  "clients_ok s \<Longrightarrow> heap s' = heap s \<Longrightarrow> CurrentClients s' = CurrentClients s \<Longrightarrow> clients_ok s'"
  by (simp add: clients_ok_def)

lemma clients_ok_CurrStation:
  "clients_ok s \<Longrightarrow> a < length (heap s) \<Longrightarrow> clients_ok (upd_client a (\<lambda>c. c\<lparr>CurrStation := i\<rparr>) s)"
  unfolding clients_ok_def upd_client_simps by auto

lemma abs_store_frame:
  "heap s' = heap s \<Longrightarrow> CurrentClients s' = CurrentClients s \<Longrightarrow> abs_store s' = abs_store s"
  by (simp add: abs_store_def)

lemma abs_store_CurrStation:
  assumes "clients_ok s" and "CurrentClients s k = Some a"
  shows "abs_store (upd_client a (\<lambda>c. c\<lparr>CurrStation := i\<rparr>) s) = (abs_store s)(k \<mapsto> i)"
proof
  fix k'
  have "CurrentClients s k' = Some a \<Longrightarrow> k' = k" by (rule clients_okD(3) [OF assms])
  with clients_okD(1) [OF assms] assms(2) show
    "abs_store (upd_client a (\<lambda>c. c\<lparr>CurrStation := i\<rparr>) s) k' = ((abs_store s)(k \<mapsto> i)) k'"
    by (cases "CurrentClients s k'") (auto simp: abs_store_def)
qed

lemma abs_store_None [simp]: "abs_store s k = None \<longleftrightarrow> CurrentClients s k = None"
  by (simp add: abs_store_def)

subsection \<open>Each operation keeps the invariant and implements its update\<close>

lemma store_invD:
  "store_inv s \<Longrightarrow> clients_ok s" "store_inv s \<Longrightarrow> range_ok s" "store_inv s \<Longrightarrow> stations_ok {} s"
  by (simp_all add: store_inv_def)

lemma InitStations_inv:
  "store_inv (InitStations files s) \<and> abs_store (InitStations files s) = Map.empty"
  if "CurrentClients s = Map.empty"
  by (simp add: that InitStations_def store_inv_def clients_ok_def range_ok_def stations_ok_def
      registered_def abs_store_def)

lemma move_client:
  assumes "store_inv s" and "CurrentClients s k = Some a"
    and "i = -1 \<or> (0 \<le> i \<and> i < int (length (StationList s)))"
  shows "\<exists>s1. removeFromCurrentStation a s = Some s1 \<and>
    heap s1 = heap s \<and> CurrentClients s1 = CurrentClients s \<and> station_names s1 = station_names s \<and>
    (let s2 = upd_client a (\<lambda>c. c\<lparr>CurrStation := i\<rparr>) s1;
         s3 = (if i = -1 then s2 else upd_clients_of i (\<lambda>cs. cs @ [a]) s2)
     in store_inv s3 \<and> abs_store s3 = (abs_store s)(k \<mapsto> i) \<and> station_names s3 = station_names s)"
proof -
  note inv = store_invD [OF assms(1)]
  note reg = registeredI [OF assms(2)]
  from detach [OF inv(3,2)] reg obtain s1 where
    s1: "removeFromCurrentStation a s = Some s1" "stations_ok {a} s1" "heap s1 = heap s"
      "CurrentClients s1 = CurrentClients s" "station_names s1 = station_names s"
    by auto
  have a: "a < length (heap s1)" using clients_okD(1) [OF inv(1) assms(2)] s1(3) by simp
  let ?s2 = "upd_client a (\<lambda>c. c\<lparr>CurrStation := i\<rparr>) s1"
  let ?s3 = "if i = -1 then ?s2 else upd_clients_of i (\<lambda>cs. cs @ [a]) ?s2"
  have c1: "clients_ok s1" using clients_ok_frame [OF inv(1) s1(3,4)] .
  have len: "length (StationList s1) = length (StationList s)" using length_StationList [OF s1(5)] .
  have "stations_ok {} ?s3"
  proof (cases "i = -1")
    case True
    then show ?thesis using stations_ok_idle [OF stations_ok_upd_client [OF s1(2) a]] a by simp
  next
    case False
    have "registered ?s2 a" using reg s1(4) by (simp add: registered_def)
    with False show ?thesis
      using attach [OF stations_ok_upd_client [OF s1(2) a], of "\<lambda>c. c\<lparr>CurrStation := i\<rparr>" i] a assms(3) len
      by simp
  qed
  moreover have "clients_ok ?s3"
    using clients_ok_CurrStation [OF c1 a] by (auto simp: clients_ok_def)
  moreover have "range_ok ?s3"
    using range_ok_frame [OF inv(2) s1(3-5)] assms(3) a len by (auto simp: range_ok_def)
  moreover have "abs_store ?s3 = (abs_store s)(k \<mapsto> i)"
    using abs_store_CurrStation [OF c1, of k a i] assms(2) s1(3,4)
      abs_store_frame [of "upd_clients_of i (\<lambda>cs. cs @ [a]) ?s2" ?s2] abs_store_frame [of s1 s]
    by auto
  ultimately show ?thesis using s1 by (auto simp: Let_def store_inv_def)
qed

lemma ApplySetStation_ok:
  assumes "store_inv s" and "CurrentClients s k = Some a"
    and "0 \<le> i" and "i < int (length (StationList s))"
  shows "\<exists>s'. ApplySetStation k i s = Some (Inr (station_names s ! nat i), s') \<and> store_inv s' \<and>
    abs_store s' = (abs_store s)(k \<mapsto> i) \<and> station_names s' = station_names s \<and>
    CurrentClients s' = CurrentClients s"
proof -
  from move_client [OF assms(1,2), of i] assms(3,4) obtain s1 where
    s1: "removeFromCurrentStation a s = Some s1" "station_names s1 = station_names s"
      "CurrentClients s1 = CurrentClients s"
    and s3: "store_inv (upd_clients_of i (\<lambda>cs. cs @ [a]) (upd_client a (\<lambda>c. c\<lparr>CurrStation := i\<rparr>) s1))"
      "abs_store (upd_clients_of i (\<lambda>cs. cs @ [a]) (upd_client a (\<lambda>c. c\<lparr>CurrStation := i\<rparr>) s1)) =
         (abs_store s)(k \<mapsto> i)"
    by (auto simp: Let_def)
  have len: "length (StationList s1) = length (StationList s)" using length_StationList [OF s1(2)] .
  have "st_Name (StationList s1 ! nat i) = station_names s ! nat i"
    using assms(3,4) len s1(2) by (metis nat_less_iff nth_map station_names_def)
  then show ?thesis using assms s1 s3 len by (simp add: ApplySetStation_def)
qed

lemma upd_client_upd_clients_of:
  "upd_client a g (upd_clients_of i h s) = upd_clients_of i h (upd_client a g s)"
  by (simp add: upd_client_def upd_clients_of_def Let_def)

lemma RollbackSetStation_ok:
  assumes "store_inv s" and "CurrentClients s k = Some a"
    and "p = -1 \<or> (0 \<le> p \<and> p < int (length (StationList s)))"
  shows "\<exists>s'. RollbackSetStation k p s = Some s' \<and> store_inv s' \<and>
    abs_store s' = (abs_store s)(k \<mapsto> p) \<and> station_names s' = station_names s"
proof -
  from move_client [OF assms] obtain s1 where
    s1: "removeFromCurrentStation a s = Some s1" "station_names s1 = station_names s"
    and s3: "let s2 = upd_client a (\<lambda>c. c\<lparr>CurrStation := p\<rparr>) s1;
         s3 = (if p = -1 then s2 else upd_clients_of p (\<lambda>cs. cs @ [a]) s2)
     in store_inv s3 \<and> abs_store s3 = (abs_store s)(k \<mapsto> p) \<and> station_names s3 = station_names s"
    by auto
  then show ?thesis
    using assms length_StationList [OF s1(2)]
    by (auto simp: RollbackSetStation_def Let_def upd_client_upd_clients_of)
qed

lemma ApplyHandshake_ok:
  assumes "store_inv s" and "CurrentClients s (ClientKey ip port) = None"
  shows "\<exists>s'. ApplyHandshake ip port s = (Inr (ClientKey ip port), s') \<and> store_inv s' \<and>
    abs_store s' = (abs_store s)(ClientKey ip port \<mapsto> -1) \<and> station_names s' = station_names s \<and>
    CurrentClients s' = (CurrentClients s)(ClientKey ip port \<mapsto> length (heap s))"
proof -
  let ?k = "ClientKey ip port"
  let ?c = "\<lparr>ci_UDPAddr = \<lparr>addr_IP = ParseIP ip, addr_Port = uint port\<rparr>,
             CurrStation = -1, EventChan = make_chan 100\<rparr>"
  let ?s = "s\<lparr>heap := heap s @ [?c], CurrentClients := (CurrentClients s)(?k \<mapsto> length (heap s))\<rparr>"
  note inv = store_invD [OF assms(1)]
  have fresh: "a < length (heap s)" if "CurrentClients s k = Some a" for k a
    using clients_okD(1) [OF inv(1) that] .
  have reg: "registered ?s a \<longleftrightarrow> a = length (heap s) \<or> registered s a" for a
    using assms(2) by (simp add: registered_def)
  have old: "registered s a \<Longrightarrow> a < length (heap s)" for a
    using fresh by (auto elim: registeredE)
  have "clients_ok ?s"
    using inv(1) assms(2) unfolding clients_ok_def inj_on_def
    by (auto simp: nth_append make_chan_def dest: fresh split: if_splits)
  moreover have "range_ok ?s"
    using inv(2) old by (auto simp: range_ok_def reg nth_append)
  moreover have "stations_ok {} ?s"
    using inv(3) old unfolding stations_ok_def reg by (auto simp: nth_append split: if_splits)
  moreover have "abs_store ?s = (abs_store s)(?k \<mapsto> -1)"
    by (rule ext) (auto simp: abs_store_def nth_append fresh intro!: map_option_cong)
  ultimately show ?thesis
    using assms(2) by (simp add: ApplyHandshake_def alloc_def Let_def store_inv_def station_names_def)
qed

lemma unregister:
  assumes "clients_ok s" and "CurrentClients s k = Some a"
  shows "b \<in> ran ((CurrentClients s)(k := None)) \<longleftrightarrow> b \<in> ran (CurrentClients s) \<and> b \<noteq> a"
proof -
  have "k' = k" if "CurrentClients s k' = Some a" for k' using clients_okD(3) [OF assms that] .
  then have "(\<exists>k'. k' \<noteq> k \<and> CurrentClients s k' = Some b) \<longleftrightarrow> (\<exists>k'. CurrentClients s k' = Some b) \<and> b \<noteq> a"
    using assms(2) by (metis option.inject)
  then show ?thesis by (auto simp: ran_def)
qed

lemma RollbackHandshake_ok:
  assumes "store_inv s" and "abs_store s (ClientKey ip port) = Some (-1)"
  shows "store_inv (RollbackHandshake ip port s)"
    and "abs_store (RollbackHandshake ip port s) = (abs_store s)(ClientKey ip port := None)"
    and "station_names (RollbackHandshake ip port s) = station_names s"
proof -
  let ?k = "ClientKey ip port"
  let ?s = "RollbackHandshake ip port s"
  note inv = store_invD [OF assms(1)]
  obtain a where a: "CurrentClients s ?k = Some a" "CurrStation (heap s ! a) = -1"
    using assms(2) by (auto simp: abs_store_def)
  have reg: "registered ?s b \<longleftrightarrow> registered s b \<and> b \<noteq> a" for b
    using unregister [OF inv(1) a(1)] by (simp add: registered_def RollbackHandshake_def)
  have "clients_ok ?s"
    using inv(1) unfolding clients_ok_def inj_on_def by (auto simp: RollbackHandshake_def)
  moreover have "range_ok ?s" using inv(2) by (auto simp: range_ok_def reg) (auto simp: RollbackHandshake_def)
  moreover have "stations_ok {} ?s"
    using inv(3) a(2) unfolding stations_ok_def reg by (auto simp: RollbackHandshake_def)
  ultimately show "store_inv ?s" by (simp add: store_inv_def)
  show "abs_store ?s = (abs_store s)(?k := None)" "station_names ?s = station_names s"
    by (auto simp: RollbackHandshake_def abs_store_def station_names_def)
qed

lemma ApplyDisconnect_ok:
  assumes "store_inv s" and "CurrentClients s k = Some a"
  shows "\<exists>s'. ApplyDisconnect k s = Some (None, s') \<and> store_inv s' \<and>
    abs_store s' = (abs_store s)(k := None) \<and> station_names s' = station_names s \<and>
    CurrentClients s' = (CurrentClients s)(k := None) \<and> length (heap s') = length (heap s) \<and>
    (\<forall>b. b \<noteq> a \<longrightarrow> heap s' ! b = heap s ! b)"
proof -
  note inv = store_invD [OF assms(1)]
  note a = clients_okD [OF inv(1) assms(2)]
  let ?s1 = "s\<lparr>CurrentClients := (CurrentClients s)(k := None)\<rparr>"
  have reg: "registered ?s1 b \<longleftrightarrow> registered s b \<and> b \<noteq> a" for b
    using unregister [OF inv(1) assms(2)] by (simp add: registered_def)
  have r1: "range_ok ?s1" using inv(2) reg by (simp add: range_ok_def)
  have c: "CurrStation (heap s ! a) = -1 \<or>
      (0 \<le> CurrStation (heap s ! a) \<and> CurrStation (heap s ! a) < int (length (StationList s)))"
    using inv(2) registeredI [OF assms(2)] by (auto simp: range_ok_def)
  have d: "\<exists>s2. removeFromCurrentStation a ?s1 = Some s2 \<and> stations_ok {a} s2 \<and>
    heap s2 = heap s \<and> CurrentClients s2 = CurrentClients ?s1 \<and> station_names s2 = station_names s"
  proof -
    from detach [OF inv(3,2), of a] c obtain s2 where
      s2: "removeFromCurrentStation a s = Some s2" "stations_ok {a} s2" "heap s2 = heap s"
        "CurrentClients s2 = CurrentClients s" "station_names s2 = station_names s" by auto
    let ?t = "s2\<lparr>CurrentClients := (CurrentClients s)(k := None)\<rparr>"
    have "removeFromCurrentStation a ?s1 = Some ?t"
      using s2(1) by (auto simp: removeFromCurrentStation_def Let_def upd_clients_of_def
          split: if_splits Option.bind_splits)
    moreover have "stations_ok {a} ?t"
      using s2(2,4) reg by (auto simp: stations_ok_def registered_def)
    ultimately show ?thesis using s2 by (auto simp: station_names_def)
  qed
  then obtain s2 where s2: "removeFromCurrentStation a ?s1 = Some s2" "stations_ok {a} s2"
    "heap s2 = heap s" "CurrentClients s2 = (CurrentClients s)(k := None)" "station_names s2 = station_names s"
    by auto
  let ?s' = "upd_client a (\<lambda>c. c\<lparr>EventChan := (EventChan (heap s ! a))\<lparr>closed := True\<rparr>\<rparr>) s2"
  have al: "a < length (heap s2)" using a(1) s2(3) by simp
  have reg2: "registered s2 b \<longleftrightarrow> registered s b \<and> b \<noteq> a" for b
    using reg s2(4) by (simp add: registered_def)
  have "ApplyDisconnect k s = Some (None, ?s')"
    using assms(2) s2(1,3) a(2) by (simp add: ApplyDisconnect_def chan_close_def Let_def)
  moreover have "stations_ok {} ?s'"
    using s2(2) al by (auto simp: stations_ok_def reg2)
  moreover have "range_ok ?s'"
    using r1 reg reg2 al s2(3) length_StationList [OF s2(5)] by (auto simp: range_ok_def)
  moreover have "clients_ok ?s'"
    using inv(1) al s2(3,4) a(3) unfolding clients_ok_def inj_on_def by auto
  moreover have "abs_store ?s' = (abs_store s)(k := None)"
    using al s2(3,4) a(3) by (auto simp: abs_store_def fun_eq_iff intro!: map_option_cong)
  ultimately show ?thesis using al s2(3-5) by (auto simp: store_inv_def)
qed

lemma alloc_ok:
  assumes "store_inv s" and "alloc c s = (b, s')"
  shows "store_inv s'" and "abs_store s' = abs_store s" and "station_names s' = station_names s"
    and "CurrentClients s' = CurrentClients s" and "b = length (heap s)"
    and "heap s' = heap s @ [c]" and "\<not> registered s' b"
proof -
  note inv = store_invD [OF assms(1)]
  have s': "s' = s\<lparr>heap := heap s @ [c]\<rparr>" and b: "b = length (heap s)"
    using assms(2) by (auto simp: alloc_def)
  have old: "CurrentClients s k = Some a \<Longrightarrow> a < length (heap s)" for k a
    by (rule clients_okD(1) [OF inv(1)])
  have reg: "registered s' a = registered s a" "registered s a \<Longrightarrow> a < length (heap s)" for a
    using old by (auto simp: registered_def s' ran_def)
  have "clients_ok s'"
    using inv(1) old unfolding clients_ok_def s' by (auto simp: nth_append less_SucI)
  moreover have "range_ok s'" using inv(2) reg unfolding range_ok_def by (auto simp: s' nth_append)
  moreover have "stations_ok {} s'"
    using inv(3) reg unfolding stations_ok_def by (auto simp: s' nth_append)
  ultimately show "store_inv s'" by (simp add: store_inv_def)
  show "abs_store s' = abs_store s" using old
    by (auto simp: abs_store_def s' nth_append fun_eq_iff intro!: map_option_cong)
  show "station_names s' = station_names s" "CurrentClients s' = CurrentClients s" "b = length (heap s)"
    "heap s' = heap s @ [c]" by (simp_all add: s' b station_names_def)
  show "\<not> registered s' b" using reg b by blast
qed

lemma RollbackDisconnect_ok:
  assumes "store_inv s" and "CurrentClients s k = None" and "\<not> registered s b" and "b < length (heap s)"
    and "EventChan (heap s ! b) = make_chan 100"
    and "\<exists>ip port. k = ClientKey ip port \<and>
      ci_UDPAddr (heap s ! b) = \<lparr>addr_IP = ParseIP ip, addr_Port = uint port\<rparr>"
    and "-1 \<le> CurrStation (heap s ! b)" and "CurrStation (heap s ! b) < int (length (StationList s))"
  shows "store_inv (RollbackDisconnect k b s)"
    and "abs_store (RollbackDisconnect k b s) = (abs_store s)(k \<mapsto> CurrStation (heap s ! b))"
    and "station_names (RollbackDisconnect k b s) = station_names s"
proof -
  note inv = store_invD [OF assms(1)]
  let ?s1 = "s\<lparr>CurrentClients := (CurrentClients s)(k \<mapsto> b)\<rparr>"
  let ?i = "CurrStation (heap s ! b)"
  let ?s = "RollbackDisconnect k b s"
  have reg: "registered ?s1 a \<longleftrightarrow> a = b \<or> registered s a" for a
    using assms(2) by (simp add: registered_def)
  have s: "?s = (if ?i = -1 then ?s1 else upd_clients_of ?i (\<lambda>cs. cs @ [b]) ?s1)"
    using assms(7,8) by (auto simp: RollbackDisconnect_def Let_def)
  have fresh: "CurrentClients s k' \<noteq> Some b" for k' using assms(3) by (auto dest: registeredI)
  have c1: "clients_ok ?s1"
    using inv(1) assms(4-6) fresh unfolding clients_ok_def inj_on_def
    by (auto simp: make_chan_def split: if_splits)
  have st: "stations_ok {b} ?s1"
    using inv(3) assms(3) unfolding stations_ok_def reg by auto
  have "stations_ok {} ?s"
  proof (cases "?i = -1")
    case True
    then show ?thesis using stations_ok_idle [OF st] s by simp
  next
    case False
    then show ?thesis using attach [OF st _ _ refl] s assms(7,8) reg by simp
  qed
  moreover have "clients_ok ?s" using c1 s by (auto simp: clients_ok_def)
  moreover have "range_ok ?s" using inv(2) assms(7,8) reg s by (auto simp: range_ok_def)
  ultimately show "store_inv ?s" by (simp add: store_inv_def)
  show "abs_store ?s = (abs_store s)(k \<mapsto> ?i)" using s by (auto simp: abs_store_def)
  show "station_names ?s = station_names s" using s by (auto simp: station_names_def [of ?s1] station_names_def [of s])
qed

subsection \<open>Applying and replaying entries\<close>

lemma ApplyWalEntry_applies:
  assumes "store_inv s" and "entry_valid (length (StationList s)) e" and "a_entry e (abs_store s) = Some m"
  shows "\<exists>s'. ApplyWalEntry e s = Some (None, s') \<and> store_inv s' \<and> abs_store s' = m \<and>
    station_names s' = station_names s"
proof -
  obtain p where p: "Op e = Some p" "op_valid (length (StationList s)) p" "a_apply p (abs_store s) = Some m"
    using assms(2,3) by (auto simp: a_entry_def entry_valid_def split: option.splits)
  show ?thesis
  proof (cases p)
    case (WalEntry_Handshake op)
    with p assms(1) show ?thesis
      using ApplyHandshake_ok [of s "hs_ClientIp op" "hs_UdpPort op"]
      by (auto simp: ApplyWalEntry_def Let_def split: if_splits)
  next
    case (WalEntry_SetStation op)
    with p obtain a where "CurrentClients s (ClientKey (ss_ClientIp op) (ss_UdpPort op)) = Some a"
      by (auto simp: Let_def split: if_splits)
    from ApplySetStation_ok [OF assms(1) this, of "sint (ss_StationNumber op)"] WalEntry_SetStation p
    show ?thesis
      by (auto simp: ApplyWalEntry_def Let_def split: if_splits)
  next
    case (WalEntry_Disconnect op)
    with p obtain a where "CurrentClients s (ClientKey (dc_ClientIp op) (dc_UdpPort op)) = Some a"
      by (auto simp: Let_def split: if_splits)
    from ApplyDisconnect_ok [OF assms(1) this] WalEntry_Disconnect p show ?thesis
      by (auto simp: ApplyWalEntry_def Let_def split: if_splits)
  qed
qed

lemma ApplyWalEntry_refuses:
  assumes "a_entry e (abs_store s) = None"
  shows "\<exists>err. ApplyWalEntry e s = Some (Some err, s)"
  using assms
  by (auto simp: a_entry_def ApplyWalEntry_def ApplyHandshake_def ApplySetStation_def ApplyDisconnect_def Let_def
      split: option.splits WalOp.splits if_splits)

interpretation stations: entry_machine ApplyWalEntry a_entry abs_store
  "\<lambda>s. store_inv s \<and> station_names s = names" "entry_valid (length names)" for names
  using ApplyWalEntry_applies ApplyWalEntry_refuses
  by unfold_locales (metis length_map station_names_def)+

lemma replay_is_loop: "stations.is_loop (replay pre)"
  by (auto simp: stations.is_loop_def)

lemma replay_applies:
  assumes "store_inv s" and "\<And>e. e \<in> set es \<Longrightarrow> entry_valid (length (station_names s)) e"
    and "a_replay es (abs_store s) = Some m"
  shows "\<exists>s'. replay pre es s = Some (None, s') \<and> store_inv s' \<and> abs_store s' = m \<and>
    station_names s' = station_names s"
  using stations.loop_applies [OF replay_is_loop, of s "station_names s" es m pre] assms
  by (auto simp: a_replay_def)

lemma replay_refuses:
  assumes "store_inv s" and "\<And>e. e \<in> set es \<Longrightarrow> entry_valid (length (station_names s)) e"
    and "a_replay es (abs_store s) = None"
  shows "\<exists>err s'. replay pre es s = Some (Some err, s') \<and> store_inv s' \<and> station_names s' = station_names s"
  using stations.loop_refuses [OF replay_is_loop, of s "station_names s" es pre] assms
  by (auto simp: a_replay_def)

end
