(* ===== verification/Replication.thy ===== *)
theory Replication
  imports Wal Station_Inv
begin

section \<open>Replication between a primary and a backup (internal/replication)\<close>

text \<open>
  The receiving side is \<open>server.go\<close>, the sending side \<open>coordinator.go\<close>, and \<open>local.go\<close> is the
  coordinator without a peer. The \<open>wal\<close> field of a coordinator or handler points to the one log of
  its process, so the log is passed beside the struct. gRPC and the network are outside the
  program: a connection carries the stream of the fates its coming calls will have. A call may
  reach the peer and return, may never reach it, or may take effect there although the caller gets
  an error. A call that takes effect only after its caller gave up is not modelled.
\<close>

subsection \<open>The receiving side (server.go)\<close>

record inboundHandler =
  h_lastWalSeq :: u64
  accepting :: bool

text \<open>A standby process: the handler and the log it writes.\<close>

record backup =
  handler :: inboundHandler
  b_wal :: Log

definition StartReplServer_handler :: "Log \<Rightarrow> inboundHandler" where
  "StartReplServer_handler w = \<lparr>h_lastWalSeq = LastSeq w, accepting = True\<rparr>"

definition StartReplServer :: "error option \<Rightarrow> Log \<Rightarrow> error + inboundHandler" where
  "StartReplServer listen w =
     (case listen of
        Some err \<Rightarrow> Inl (Wrapf ''listen replication'' err)
      | None \<Rightarrow> Inr (StartReplServer_handler w))"

definition GracefulStop :: "inboundHandler \<Rightarrow> inboundHandler" where
  "GracefulStop h = h\<lparr>accepting := False\<rparr>"

definition Replicate :: "codec \<Rightarrow> ReplicateRequest \<Rightarrow> backup \<Rightarrow> ReplicateResponse \<times> backup" where
  "Replicate C req b =
     (case req_Entry req of
        None \<Rightarrow> (\<lparr>resp_Seq = 0, resp_Ok = False, resp_Error = ''missing entry''\<rparr>, b)
      | Some entry \<Rightarrow>
          (let h = handler b in
           if \<not> accepting h
           then (\<lparr>resp_Seq = 0, resp_Ok = False, resp_Error = ''replication server stopped''\<rparr>, b)
           else if Seq entry \<le> h_lastWalSeq h
           then (\<lparr>resp_Seq = Seq entry, resp_Ok = True, resp_Error = ''''\<rparr>, b)
           else if h_lastWalSeq h > 0 \<and> Seq entry \<noteq> h_lastWalSeq h + 1
           then (\<lparr>resp_Seq = Seq entry, resp_Ok = False,
                  resp_Error = ''expected seq '' @ dec (unat (h_lastWalSeq h + 1)) @
                    '', got '' @ dec (unat (Seq entry))\<rparr>, b)
           else case AppendReplicated C entry (b_wal b) of
             (Some err, w) \<Rightarrow>
               (\<lparr>resp_Seq = Seq entry, resp_Ok = False, resp_Error = err_Error err\<rparr>, b\<lparr>b_wal := w\<rparr>)
           | (None, w) \<Rightarrow>
               (\<lparr>resp_Seq = Seq entry, resp_Ok = True, resp_Error = ''''\<rparr>,
                b\<lparr>b_wal := w, handler := h\<lparr>h_lastWalSeq := Seq entry\<rparr>\<rparr>)))"

definition Ping :: "backup \<Rightarrow> PingResponse" where
  "Ping b = \<lparr>LastWalSeq = h_lastWalSeq (handler b)\<rparr>"

subsection \<open>Calls over the network\<close>

datatype rpc_fate = Delivered | RequestLost string | ResponseLost string

definition call :: "('p \<Rightarrow> 'r \<times> 'p) \<Rightarrow> rpc_fate \<Rightarrow> 'p \<Rightarrow> (error + 'r) \<times> 'p" where
  "call method fate peer =
     (case fate of
        Delivered \<Rightarrow> (case method peer of (r, peer') \<Rightarrow> (Inr r, peer'))
      | RequestLost m \<Rightarrow> (Inl (SysErr m), peer)
      | ResponseLost m \<Rightarrow> (Inl (SysErr m), snd (method peer)))"

subsection \<open>The sending side (coordinator.go)\<close>

record Coordinator =
  conn :: "rpc_fate stream option"
  lastWalSeq :: u64

text \<open>
  What a call on a primary can touch: its coordinator, its log, its memory, and through the
  connection the backup process.
\<close>

record world =
  coord :: Coordinator
  p_wal :: Log
  mem :: store
  peer :: backup

text \<open>
  One call of the replication client: it uses up one fate of the connection. A closed connection
  (nil after \<open>ShutdownClient\<close>) refuses every call.
\<close>

definition rpc :: "(backup \<Rightarrow> 'r \<times> backup) \<Rightarrow> world \<Rightarrow> (error + 'r) \<times> world" where
  "rpc method w =
     (case conn (coord w) of
        None \<Rightarrow> (Inl (SysErr ''grpc: the client connection is closing''), w)
      | Some fates \<Rightarrow>
          (case call method (shd fates) (peer w) of
             (r, p) \<Rightarrow> (r, w\<lparr>coord := (coord w)\<lparr>conn := Some (stl fates)\<rparr>, peer := p\<rparr>)))"

definition replicate_entry :: "codec \<Rightarrow> WalEntry \<Rightarrow> world \<Rightarrow> error option \<times> world" where
  "replicate_entry C entry w =
     (case rpc (Replicate C \<lparr>req_Entry = Some entry\<rparr>) w of
        (Inl err, w') \<Rightarrow> (Some err, w')
      | (Inr resp, w') \<Rightarrow>
          (if \<not> resp_Ok resp
           then if resp_Error resp \<noteq> '''' then (Some (Errorf (resp_Error resp)), w')
             else (Some (Errorf (''backup rejected seq '' @ dec (unat (Seq entry)))), w')
           else (None, w')))"

definition backupLastWalSeq :: "world \<Rightarrow> (error + u64) \<times> world" where
  "backupLastWalSeq w =
     (case rpc (\<lambda>b. (Ping b, b)) w of
        (Inl err, w') \<Rightarrow> (Inl err, w')
      | (Inr resp, w') \<Rightarrow> (Inr (LastWalSeq resp), w'))"

definition note_seq :: "u64 \<Rightarrow> world \<Rightarrow> world" where
  "note_seq s w = w\<lparr>coord := (coord w)\<lparr>lastWalSeq := (if s > lastWalSeq (coord w) then s else lastWalSeq (coord w))\<rparr>\<rparr>"

fun sync_loop :: "codec \<Rightarrow> u64 \<Rightarrow> WalEntry list \<Rightarrow> world \<Rightarrow> error option \<times> world" where
  "sync_loop C lastSeq [] w = (None, w)"
| "sync_loop C lastSeq (entry # es) w =
     (if Seq entry \<le> lastSeq then sync_loop C lastSeq es w
      else case replicate_entry C entry w of
        (Some err, w') \<Rightarrow> (Some err, w')
      | (None, w') \<Rightarrow> sync_loop C lastSeq es (note_seq (Seq entry) w'))"

definition syncBackupWal :: "codec \<Rightarrow> world \<Rightarrow> error option \<times> world" where
  "syncBackupWal C w =
     (case backupLastWalSeq w of
        (Inl err, w1) \<Rightarrow> (Some err, w1)
      | (Inr lastSeq, w1) \<Rightarrow>
          (case ReadAll C (p_wal w1) of
             (Inl err, l) \<Rightarrow> (Some err, w1\<lparr>p_wal := l\<rparr>)
           | (Inr es, l) \<Rightarrow> sync_loop C lastSeq es (w1\<lparr>p_wal := l\<rparr>)))"

definition replicateWithRetry :: "codec \<Rightarrow> WalEntry \<Rightarrow> world \<Rightarrow> error option \<times> world" where
  "replicateWithRetry C entry w =
     (case replicate_entry C entry w of
        (None, w1) \<Rightarrow> (None, w1)
      | (Some _, w1) \<Rightarrow>
          (case syncBackupWal C w1 of
             (Some syncErr, w2) \<Rightarrow> (Some syncErr, w2)
           | (None, w2) \<Rightarrow> replicate_entry C entry w2))"

text \<open>
  The callbacks of \<open>ReplicateAndWait\<close> act on the memory. \<open>apply\<close> may return a value to its caller
  through a captured variable, so its result is a sum; \<open>rollback\<close> returns nothing.
\<close>

type_synonym 'v applier = "store \<Rightarrow> ((error + 'v) \<times> store) may_panic"
type_synonym undoer = "store \<Rightarrow> store may_panic"

definition ReplicateAndWait ::
  "codec \<Rightarrow> WalEntry \<Rightarrow> 'v applier \<Rightarrow> undoer \<Rightarrow> world \<Rightarrow> ((error + 'v) \<times> world) may_panic" where
  "ReplicateAndWait C entry apply_fn rollback w =
     (case Append C entry (p_wal w) of
        (Inl err, entry1, l) \<Rightarrow> Some (Inl (Wrapf ''wal append'' err), w\<lparr>p_wal := l\<rparr>)
      | (Inr s, entry1, l) \<Rightarrow>
          (let w1 = w\<lparr>p_wal := l\<rparr>; entry2 = entry1\<lparr>Seq := s\<rparr> in
           do {
             (r, m1) \<leftarrow> apply_fn (mem w1);
             let w2 = w1\<lparr>mem := m1\<rparr>;
             (case r of
                Inl err \<Rightarrow> Some (Inl err, w2)
              | Inr v \<Rightarrow>
                  (case replicateWithRetry C entry2 w2 of
                     (Some err, w3) \<Rightarrow> do {
                       m2 \<leftarrow> rollback (mem w3);
                       Some (Inl (Wrapf ''replication failed'' err), w3\<lparr>mem := m2\<rparr>)
                     }
                   | (None, w3) \<Rightarrow> Some (Inr v, note_seq s w3)))
           }))"

subsection \<open>Recovery and start-up of a coordinator\<close>

definition recoverPrimary :: "codec \<Rightarrow> world \<Rightarrow> (error option \<times> world) may_panic" where
  "recoverPrimary C w =
     (case ReadAll C (p_wal w) of
        (Inl err, l) \<Rightarrow> Some (Some err, w\<lparr>p_wal := l\<rparr>)
      | (Inr es, l) \<Rightarrow> do {
          (err, m) \<leftarrow> replay ''recover seq '' es (mem w);
          Some (err, w\<lparr>p_wal := l, mem := m\<rparr>)
        })"

text \<open>
  One round of the dial loop: creating the client may fail; otherwise the backup is pinged over a
  new connection, whose first fate decides the ping. The list holds the rounds that begin before
  the deadline; the result is the connection with its remaining fates.
\<close>

datatype dial_attempt = NewClientFails | Dialled "rpc_fate stream"

fun dialBackup :: "string \<Rightarrow> dial_attempt list \<Rightarrow> backup \<Rightarrow> error + rpc_fate stream" where
  "dialBackup addr [] b = Inl (Errorf (''backup not ready at '' @ addr))"
| "dialBackup addr (NewClientFails # rounds) b = dialBackup addr rounds b"
| "dialBackup addr (Dialled fates # rounds) b =
     (case call (\<lambda>p. (Ping p, p)) (shd fates) b of
        (Inr _, _) \<Rightarrow> Inr (stl fates)
      | (Inl _, _) \<Rightarrow> dialBackup addr rounds b)"

definition ShutdownClient :: "Coordinator \<Rightarrow> Coordinator" where
  "ShutdownClient c = c\<lparr>conn := None\<rparr>"

text \<open>
  \<open>startWithWal\<close>: the new coordinator is the package's \<open>global\<close>; on an error its client is shut
  down and \<open>global\<close> is nil again. The result says whether \<open>global\<close> is set.
\<close>

definition startWithWal ::
  "codec \<Rightarrow> string \<Rightarrow> dial_attempt list \<Rightarrow> world \<Rightarrow> (error option \<times> world) may_panic" where
  "startWithWal C backupAddr rounds w =
     (case dialBackup backupAddr rounds (peer w) of
        Inl err \<Rightarrow> Some (Some err, w)
      | Inr fates \<Rightarrow> do {
          let w0 = w\<lparr>coord := \<lparr>conn = Some fates, lastWalSeq = 0\<rparr>\<rparr>;
          (err, w1) \<leftarrow> recoverPrimary C w0;
          (case err of
             Some e \<Rightarrow> Some (Some (Wrapf ''wal recover primary'' e), w1\<lparr>coord := ShutdownClient (coord w1)\<rparr>)
           | None \<Rightarrow>
               (case syncBackupWal C w1 of
                  (Some e, w2) \<Rightarrow>
                    Some (Some (Wrapf ''sync backup wal'' e), w2\<lparr>coord := ShutdownClient (coord w2)\<rparr>)
                | (None, w2) \<Rightarrow> Some (None, w2)))
        })"

text \<open>
  The two exported forms differ only in the timeout, that is in the rounds that begin before the
  deadline. \<open>Start\<close> opens the log first.
\<close>

definition StartWithWal ::
  "codec \<Rightarrow> Log \<Rightarrow> string \<Rightarrow> dial_attempt list \<Rightarrow> world \<Rightarrow> (error option \<times> world) may_panic" where
  "StartWithWal C l backupAddr rounds w = startWithWal C backupAddr rounds (w\<lparr>p_wal := l\<rparr>)"

definition StartWithWalTimeout ::
  "codec \<Rightarrow> Log \<Rightarrow> string \<Rightarrow> dial_attempt list \<Rightarrow> world \<Rightarrow> (error option \<times> world) may_panic" where
  "StartWithWalTimeout C l backupAddr rounds w = startWithWal C backupAddr rounds (w\<lparr>p_wal := l\<rparr>)"

definition Start ::
  "codec \<Rightarrow> string \<Rightarrow> (string \<rightharpoonup> byte list) \<Rightarrow> io_fate stream \<Rightarrow> string \<Rightarrow> dial_attempt list \<Rightarrow>
    world \<Rightarrow> (error option \<times> world) may_panic" where
  "Start C walPath disk fs backupAddr rounds w =
     (case Open C walPath disk fs of
        Inl err \<Rightarrow> Some (Some (Wrapf ''open wal'' err), w)
      | Inr l \<Rightarrow> StartWithWal C l backupAddr rounds w)"

text \<open>
  \<open>global\<close> is set exactly while its connection is open, so shutting down the global coordinator
  closes that connection if there is one. \<open>Shutdown\<close> ignores the error of closing the log.
\<close>

definition ShutdownGlobal :: "world \<Rightarrow> world" where
  "ShutdownGlobal w =
     (case conn (coord w) of None \<Rightarrow> w | Some _ \<Rightarrow> w\<lparr>coord := ShutdownClient (coord w)\<rparr>)"

definition Shutdown :: "world \<Rightarrow> world" where
  "Shutdown w = w\<lparr>coord := ShutdownClient (coord w), p_wal := snd (Close (p_wal w))\<rparr>"

subsection \<open>The coordinator without a peer (local.go)\<close>

definition StartLocal :: "codec \<Rightarrow> string \<Rightarrow> (string \<rightharpoonup> byte list) \<Rightarrow> io_fate stream \<Rightarrow> world \<Rightarrow> error option \<times> world" where
  "StartLocal C walPath disk fs w =
     (case Open C walPath disk fs of
        Inl err \<Rightarrow> (Some err, w)
      | Inr l \<Rightarrow> (None, w\<lparr>p_wal := l\<rparr>))"

definition NewLocalFromLog :: "Log \<Rightarrow> world \<Rightarrow> world" where
  "NewLocalFromLog l w = w\<lparr>p_wal := l\<rparr>"

definition Local_Close :: "world \<Rightarrow> error option \<times> world" where
  "Local_Close w = (case Close (p_wal w) of (err, l) \<Rightarrow> (err, w\<lparr>p_wal := l\<rparr>))"

definition Local_Recover :: "codec \<Rightarrow> world \<Rightarrow> (error option \<times> world) may_panic" where
  "Local_Recover C w =
     (case ReadAll C (p_wal w) of
        (Inl err, l) \<Rightarrow> Some (Some err, w\<lparr>p_wal := l\<rparr>)
      | (Inr es, l) \<Rightarrow> do {
          (err, m) \<leftarrow> replay ''recover seq '' es (mem w);
          Some (err, w\<lparr>p_wal := l, mem := m\<rparr>)
        })"

definition Local_ReplicateAndWait ::
  "codec \<Rightarrow> WalEntry \<Rightarrow> 'v applier \<Rightarrow> undoer \<Rightarrow> world \<Rightarrow> ((error + 'v) \<times> world) may_panic" where
  "Local_ReplicateAndWait C entry apply_fn rollback w =
     (case Append C entry (p_wal w) of
        (Inl err, entry1, l) \<Rightarrow> Some (Inl (Wrapf ''wal append'' err), w\<lparr>p_wal := l\<rparr>)
      | (Inr _, entry1, l) \<Rightarrow> do {
          (r, m1) \<leftarrow> apply_fn (mem w);
          (case r of
             Inl err \<Rightarrow> do {
               m2 \<leftarrow> rollback m1;
               Some (Inl err, w\<lparr>p_wal := l, mem := m2\<rparr>)
             }
           | Inr v \<Rightarrow> Some (Inr v, w\<lparr>p_wal := l, mem := m1\<rparr>))
        })"

end
