(* ===== verification/Replication_Inv.thy ===== *)
theory Replication_Inv
  imports Replication
begin

section \<open>The backup's log is a prefix of the primary's\<close>

text \<open>
  The invariant of replication: both logs are in order, the primary's entries are numbered from 1
  without a gap, the backup's entries are a prefix of them, and the handler's counter is the
  length of that prefix. The lemmas follow a call from the handler through the retries to
  \<open>ReplicateAndWait\<close>, for every behaviour of the network.
\<close>

abbreviation b_entries :: "codec \<Rightarrow> backup \<Rightarrow> WalEntry list" where
  "b_entries C b \<equiv> entries C (b_wal b)"

definition backup_inv :: "codec \<Rightarrow> WalEntry list \<Rightarrow> backup \<Rightarrow> bool" where
  "backup_inv C pes b \<longleftrightarrow>
     wal_ok C (b_wal b) \<and> prefix (b_entries C b) pes \<and>
     h_lastWalSeq (handler b) = of_nat (length (b_entries C b))"

definition repl_inv :: "codec \<Rightarrow> world \<Rightarrow> bool" where
  "repl_inv C w \<longleftrightarrow>
     wal_ok C (p_wal w) \<and> numbered (entries C (p_wal w)) \<and>
     backup_inv C (entries C (p_wal w)) (peer w)"

text \<open>The backup has a first entry, or there is none to have.\<close>

definition seeded :: "codec \<Rightarrow> world \<Rightarrow> bool" where
  "seeded C w \<longleftrightarrow> b_entries C (peer w) \<noteq> [] \<or> entries C (p_wal w) = []"

lemma enc_storable: "enc C es = Some bs \<Longrightarrow> e \<in> set es \<Longrightarrow> storable C e"
  by (induction es arbitrary: bs) (auto simp: storable_def split: sum.splits)

lemma wal_ok_storable: "wal_ok C l \<Longrightarrow> e \<in> set (entries C l) \<Longrightarrow> storable C e"
  by (auto dest: wal_okD(4) intro: enc_storable)

subsection \<open>One call of the handler\<close>

lemma Replicate_inv:
  assumes b: "backup_inv C pes b" and n: "numbered pes" and st: "storable C (pes ! i)"
    and i: "i < length pes" and seed: "b_entries C b \<noteq> [] \<or> i = 0"
    and r: "Replicate C \<lparr>req_Entry = Some (pes ! i)\<rparr> b = (r, b')"
  shows "backup_inv C pes b' \<and> prefix (b_entries C b) (b_entries C b') \<and>
    length (b_entries C b') \<le> Suc (length (b_entries C b)) \<and>
    accepting (handler b') = accepting (handler b) \<and>
    (resp_Ok r \<longrightarrow> i < length (b_entries C b')) \<and>
    (accepting (handler b) \<and> i \<le> length (b_entries C b) \<longrightarrow> resp_Ok r)"
proof -
  let ?m = "length (b_entries C b)"
  have pre: "prefix (b_entries C b) pes" and ok: "wal_ok C (b_wal b)"
    and h: "h_lastWalSeq (handler b) = of_nat ?m"
    using b by (auto simp: backup_inv_def)
  have lim: "length pes < seq_limit" using numbered_length [OF n] .
  then have m: "?m \<le> length pes" "?m \<le> seq_limit" "Suc i \<le> seq_limit" "Suc ?m \<le> seq_limit"
    using prefix_length_le [OF pre] i by auto
  have s: "Seq (pes ! i) = of_nat (Suc i)" using numbered_nth [OF n i] .
  have old: "Seq (pes ! i) \<le> h_lastWalSeq (handler b) \<longleftrightarrow> i < ?m"
    using of_nat_u64_le [OF m(3,2)] by (simp add: s h less_eq_Suc_le del: of_nat_Suc)
  have pos: "h_lastWalSeq (handler b) > 0 \<longleftrightarrow> ?m > 0"
    using of_nat_u64_less [of 0 ?m] m(2) by (simp add: h)
  have nxt: "Seq (pes ! i) = h_lastWalSeq (handler b) + 1 \<longleftrightarrow> i = ?m"
    using of_nat_u64_eq [OF m(3,4)] by (simp add: s h add.commute)
  show ?thesis
  proof (cases "accepting (handler b) \<and> i = ?m")
    case False
    then have "b' = b \<and> (resp_Ok r \<longrightarrow> i < ?m) \<and> (accepting (handler b) \<and> i \<le> ?m \<longrightarrow> resp_Ok r)"
      using r seed by (auto simp: Replicate_def Let_def old pos nxt split: if_splits)
    with b False show ?thesis by auto
  next
    case True
    have "numbered (b_entries C b)" by (rule numbered_prefix [OF pre n])
    with ok have io: "walstore.in_order C (b_wal b)" by (simp add: walstore.in_order_def)
    have "Suc ?m < seq_limit" using True i lim by linarith
    from walstore.append_replicated_in_order [OF io this _ st] True s obtain l where
      l: "AppendReplicated C (pes ! i) (b_wal b) = (None, l)" "walstore.in_order C l"
        "entries C l = b_entries C b @ [pes ! i]" by auto
    have new: "\<not> i < ?m" "Seq (pes ! i) = h_lastWalSeq (handler b) + 1" using True nxt by simp_all
    have "prefix (b_entries C b @ [pes ! i]) pes"
      using pre True i by (metis prefix_def append_one_prefix)
    moreover have "r = \<lparr>resp_Seq = Seq (pes ! i), resp_Ok = True, resp_Error = ''''\<rparr>"
      "b' = b\<lparr>b_wal := l, handler := (handler b)\<lparr>h_lastWalSeq := Seq (pes ! i)\<rparr>\<rparr>"
      using r l(1) conjunct1 [OF True] old new by (simp_all add: Replicate_def Let_def)
    ultimately show ?thesis using l(2,3) True s
      by (simp add: backup_inv_def walstore.in_order_def del: of_nat_Suc)
  qed
qed

subsection \<open>Calls over the network\<close>

text \<open>What a call leaves alone, and what is true of the backup after it.\<close>

definition same_primary :: "world \<Rightarrow> world \<Rightarrow> bool" where
  "same_primary w w' \<longleftrightarrow> p_wal w' = p_wal w \<and> mem w' = mem w"

lemma same_primary_refl [simp]: "same_primary w w"
  by (simp add: same_primary_def)

lemma same_primary_trans: "same_primary w w' \<Longrightarrow> same_primary w' w'' \<Longrightarrow> same_primary w w''"
  by (simp add: same_primary_def)

lemma note_seq_simps [simp]:
  "p_wal (note_seq s w) = p_wal w" "mem (note_seq s w) = mem w" "peer (note_seq s w) = peer w"
  "conn (coord (note_seq s w)) = conn (coord w)" "same_primary w (note_seq s w)"
  by (simp_all add: note_seq_def same_primary_def)

lemma rpc_cases:
  assumes "rpc method w = (r, w')"
  shows "same_primary w w'" and "peer w' = peer w \<or> peer w' = snd (method (peer w))"
    and "\<And>x. r = Inr x \<Longrightarrow> method (peer w) = (x, peer w')"
  using assms
  by (auto simp: rpc_def call_def same_primary_def split: option.splits rpc_fate.splits prod.splits)

lemma rpc_delivered:
  "conn (coord w) = Some (Delivered ## fates) \<Longrightarrow>
   rpc method w = (Inr (fst (method (peer w))),
     w\<lparr>coord := (coord w)\<lparr>conn := Some fates\<rparr>, peer := snd (method (peer w))\<rparr>)"
  by (simp add: rpc_def call_def split: prod.split)

lemma replicate_entry_inv:
  assumes b: "backup_inv C pes (peer w)" and n: "numbered pes" and st: "storable C (pes ! i)"
    and i: "i < length pes" and seed: "b_entries C (peer w) \<noteq> [] \<or> i = 0"
    and r: "replicate_entry C (pes ! i) w = (r, w')"
  shows "backup_inv C pes (peer w') \<and> prefix (b_entries C (peer w)) (b_entries C (peer w')) \<and>
    length (b_entries C (peer w')) \<le> Suc (length (b_entries C (peer w))) \<and>
    same_primary w w' \<and> (r = None \<longrightarrow> i < length (b_entries C (peer w')))"
proof -
  let ?f = "Replicate C \<lparr>req_Entry = Some (pes ! i)\<rparr>"
  obtain q b' where q: "?f (peer w) = (q, b')" by fastforce
  note R = Replicate_inv [OF b n st i seed q]
  obtain x w1 where x: "rpc ?f w = (x, w1)" by fastforce
  have w1: "same_primary w w1" "peer w1 = peer w \<or> peer w1 = b'"
    "\<And>y. x = Inr y \<Longrightarrow> y = q \<and> peer w1 = b'"
    using rpc_cases(1,2) [OF x] rpc_cases(3) [OF x] q by auto
  have "w' = w1" "r = None \<Longrightarrow> \<exists>y. x = Inr y \<and> resp_Ok y"
    using r x by (auto simp: replicate_entry_def split: sum.splits if_splits)
  with R w1 b show ?thesis by auto
qed

lemma sync_loop_inv:
  assumes "backup_inv C pes (peer w)" and n: "numbered pes" and st: "\<And>e. e \<in> set pes \<Longrightarrow> storable C e"
    and "es = drop k pes" and "lastSeq = of_nat m" and "m \<le> length (b_entries C (peer w))"
    and "k \<le> length (b_entries C (peer w))" and "sync_loop C lastSeq es w = (r, w')"
  shows "backup_inv C pes (peer w') \<and> prefix (b_entries C (peer w)) (b_entries C (peer w')) \<and>
    same_primary w w' \<and> (r = None \<longrightarrow> b_entries C (peer w') = pes)"
  using assms(1,4-8)
proof (induction es arbitrary: k w)
  case Nil
  then have "length pes \<le> length (b_entries C (peer w))" by simp
  moreover have "prefix (b_entries C (peer w)) pes" using Nil.prems(1) by (simp add: backup_inv_def)
  ultimately have "b_entries C (peer w) = pes"
    by (metis prefix_def append_eq_conv_conj take_all)
  with Nil show ?case by auto
next
  case (Cons entry es)
  have "k < length pes" using Cons.prems(2) by (metis drop_eq_Nil leI list.distinct(1))
  with Cons.prems(2) have k: "k < length pes" "entry = pes ! k" "es = drop (Suc k) pes"
    using Cons_nth_drop_Suc [of k pes] by (metis list.inject)+
  have lim: "length pes < seq_limit" by (rule numbered_length [OF n])
  have bl: "length (b_entries C (peer w)) \<le> length pes"
    using Cons.prems(1) by (auto simp: backup_inv_def dest: prefix_length_le)
  have "Seq entry \<le> lastSeq \<longleftrightarrow> k < m"
    using of_nat_u64_le [of "Suc k" m] lim k Cons.prems(3,4) bl numbered_nth [OF n k(1)]
    by (simp add: Suc_le_eq del: of_nat_Suc)
  then consider (skip) "Seq entry \<le> lastSeq" "k < m" | (send) "\<not> Seq entry \<le> lastSeq" by blast
  then show ?case
  proof cases
    case skip
    then have "sync_loop C lastSeq es w = (r, w')" using Cons.prems(6) by simp
    with Cons.IH [OF Cons.prems(1) k(3) Cons.prems(3,4)] skip(2) Cons.prems(4) show ?thesis by simp
  next
    case send
    obtain q w1 where q: "replicate_entry C entry w = (q, w1)" by fastforce
    have seed: "b_entries C (peer w) \<noteq> [] \<or> k = 0" using Cons.prems(5) by auto
    have R: "backup_inv C pes (peer w1) \<and> prefix (b_entries C (peer w)) (b_entries C (peer w1)) \<and>
        same_primary w w1 \<and> (q = None \<longrightarrow> k < length (b_entries C (peer w1)))"
      using replicate_entry_inv [OF Cons.prems(1) n st k(1) seed, of q w1] k(1,2) q by simp
    show ?thesis
    proof (cases q)
      case (Some err)
      with send q R Cons.prems(6) show ?thesis by auto
    next
      case None
      let ?w2 = "note_seq (Seq entry) w1"
      have "sync_loop C lastSeq es ?w2 = (r, w')" using send q None Cons.prems(6) by simp
      moreover have "length (b_entries C (peer w)) \<le> length (b_entries C (peer w1))"
        using R by (auto dest: prefix_length_le)
      ultimately have "backup_inv C pes (peer w') \<and> prefix (b_entries C (peer w1)) (b_entries C (peer w')) \<and>
          same_primary ?w2 w' \<and> (r = None \<longrightarrow> b_entries C (peer w') = pes)"
        using Cons.IH [of ?w2 "Suc k"] R None k(3) Cons.prems(3,4) by simp
      moreover have "same_primary w ?w2" using R by (simp add: same_primary_def)
      ultimately show ?thesis using R
        by (blast intro: prefix_order.trans same_primary_trans)
    qed
  qed
qed

lemma repl_invD:
  assumes "repl_inv C w"
  shows "wal_ok C (p_wal w)" and "numbered (entries C (p_wal w))"
    and "backup_inv C (entries C (p_wal w)) (peer w)"
    and "prefix (b_entries C (peer w)) (entries C (p_wal w))"
    and "\<And>e. e \<in> set (entries C (p_wal w)) \<Longrightarrow> storable C e"
  using assms wal_ok_storable by (auto simp: repl_inv_def backup_inv_def)

text \<open>What every call of the coordinator keeps: the backup's log only grows.\<close>

definition carried :: "codec \<Rightarrow> world \<Rightarrow> world \<Rightarrow> bool" where
  "carried C w w' \<longleftrightarrow>
     repl_inv C w' \<and> same_primary w w' \<and> prefix (b_entries C (peer w)) (b_entries C (peer w'))"

lemma carried_trans: "carried C w w' \<Longrightarrow> carried C w' w'' \<Longrightarrow> carried C w w''"
  by (auto simp: carried_def intro: same_primary_trans prefix_order.trans)

lemma carried_entries: "carried C w w' \<Longrightarrow> entries C (p_wal w') = entries C (p_wal w)"
  by (simp add: carried_def same_primary_def)

lemma syncBackupWal_inv:
  assumes inv: "repl_inv C w" and r: "syncBackupWal C w = (r, w')"
  shows "carried C w w' \<and> (r = None \<longrightarrow> b_entries C (peer w') = entries C (p_wal w))"
proof -
  let ?pes = "entries C (p_wal w)"
  note i = repl_invD [OF inv]
  obtain x w1 where x: "rpc (\<lambda>b. (Ping b, b)) w = (x, w1)" by fastforce
  have w1: "same_primary w w1" "peer w1 = peer w" "\<And>y. x = Inr y \<Longrightarrow> y = Ping (peer w)"
    using rpc_cases(1,2) [OF x] rpc_cases(3) [OF x] by (simp_all del: all_simps)
  have ra: "ReadAll C (p_wal w1) = (Inr ?pes, p_wal w1)"
    using w1(1) ReadAll_ok [OF i(1)] by (simp add: same_primary_def)
  show ?thesis
  proof (cases x)
    case (Inl err)
    with r x have "w' = w1" "r \<noteq> None" by (auto simp: syncBackupWal_def backupLastWalSeq_def)
    with w1(1,2) inv show ?thesis by (auto simp: carried_def repl_inv_def same_primary_def)
  next
    case (Inr y)
    then have "sync_loop C (of_nat (length (b_entries C (peer w)))) ?pes w1 = (r, w')"
      using r x w1(3) [OF Inr] ra i(3) by (simp add: syncBackupWal_def backupLastWalSeq_def Ping_def backup_inv_def)
    note R = sync_loop_inv [OF _ i(2,5) _ refl _ _ this, of 0]
    have "p_wal w1 = p_wal w" "mem w1 = mem w" using w1(1) by (simp_all add: same_primary_def)
    with R i(1-3) w1(2) show ?thesis
      by (simp add: carried_def repl_inv_def same_primary_def)
  qed
qed

lemma replicate_last_inv:
  assumes inv: "repl_inv C w" and es: "entries C (p_wal w) = es @ [e]"
    and seed: "b_entries C (peer w) \<noteq> [] \<or> es = []" and r: "replicate_entry C e w = (r, w')"
  shows "carried C w w' \<and> (r = None \<longrightarrow> b_entries C (peer w') = es @ [e])"
proof -
  note i = repl_invD [OF inv]
  have e: "e = entries C (p_wal w) ! length es" "length es < length (entries C (p_wal w))"
    using es by simp_all
  have R: "backup_inv C (es @ [e]) (peer w') \<and> prefix (b_entries C (peer w)) (b_entries C (peer w')) \<and>
      same_primary w w' \<and> (r = None \<longrightarrow> length es < length (b_entries C (peer w')))"
    using replicate_entry_inv [OF i(3,2) _ e(2), of r w'] i(5) [of e] seed r es by simp
  moreover have "b_entries C (peer w') = es @ [e]"
    if "length es < length (b_entries C (peer w'))" "prefix (b_entries C (peer w')) (es @ [e])"
    using that by (auto simp: prefix_snoc dest: prefix_length_le)
  ultimately show ?thesis
    using i(1,2) es by (auto simp: carried_def repl_inv_def backup_inv_def same_primary_def)
qed

lemma replicateWithRetry_inv:
  assumes inv: "repl_inv C w" and es: "entries C (p_wal w) = es @ [e]"
    and seed: "b_entries C (peer w) \<noteq> [] \<or> es = []" and r: "replicateWithRetry C e w = (r, w')"
  shows "carried C w w' \<and> (r = None \<longrightarrow> b_entries C (peer w') = es @ [e])"
proof -
  obtain q w1 where q: "replicate_entry C e w = (q, w1)" by fastforce
  note R = replicate_last_inv [OF inv es seed q]
  show ?thesis
  proof (cases q)
    case None
    with R r q show ?thesis by (auto simp: replicateWithRetry_def)
  next
    case (Some err)
    obtain y w2 where y: "syncBackupWal C w1 = (y, w2)" by fastforce
    have w1: "repl_inv C w1" "entries C (p_wal w1) = es @ [e]"
      using R carried_entries es by (auto simp: carried_def)
    note S = syncBackupWal_inv [OF w1(1) y]
    then have c: "carried C w w2" using R carried_trans by blast
    show ?thesis
    proof (cases y)
      case (Some err)
      with r q y \<open>q = Some _\<close> c show ?thesis by (auto simp: replicateWithRetry_def)
    next
      case None
      then have w2: "repl_inv C w2" "entries C (p_wal w2) = es @ [e]" "b_entries C (peer w2) \<noteq> []"
        using S w1(2) carried_entries by (auto simp: carried_def)
      have "replicate_entry C e w2 = (r, w')"
        using None r q y \<open>q = Some _\<close> by (simp add: replicateWithRetry_def)
      from replicate_last_inv [OF w2(1,2) _ this] w2(3) show ?thesis
        using c carried_trans by blast
    qed
  qed
qed

subsection \<open>A connection that works\<close>

definition online :: "world \<Rightarrow> bool" where
  "online w \<longleftrightarrow> conn (coord w) = Some (sconst Delivered) \<and> accepting (handler (peer w))"

lemma online_note_seq [simp]: "online (note_seq s w) = online w"
  by (simp add: online_def)

lemma rpc_online:
  "online w \<Longrightarrow> rpc method w = (Inr (fst (method (peer w))), w\<lparr>peer := snd (method (peer w))\<rparr>)"
  by (cases w, cases "coord w") (simp add: online_def rpc_def call_def split: prod.split)

lemma replicate_entry_online:
  assumes b: "backup_inv C pes (peer w)" and n: "numbered pes" and st: "storable C (pes ! i)"
    and i: "i < length pes" "i \<le> length (b_entries C (peer w))" and on: "online w"
  shows "\<exists>w'. replicate_entry C (pes ! i) w = (None, w') \<and> online w'"
proof -
  let ?f = "Replicate C \<lparr>req_Entry = Some (pes ! i)\<rparr>"
  obtain q b' where q: "?f (peer w) = (q, b')" by fastforce
  have "b_entries C (peer w) \<noteq> [] \<or> i = 0" using i(2) by auto
  note R = Replicate_inv [OF b n st i(1) this q]
  have "resp_Ok q" "accepting (handler b')" using R on i(2) by (auto simp: online_def)
  then show ?thesis
    using rpc_online [OF on, of ?f] q on by (simp add: replicate_entry_def online_def)
qed

lemma sync_loop_online:
  assumes "backup_inv C pes (peer w)" and n: "numbered pes" and st: "\<And>e. e \<in> set pes \<Longrightarrow> storable C e"
    and "es = drop k pes" and "k \<le> length (b_entries C (peer w)) \<or> m \<ge> k"
    and "m \<le> length (b_entries C (peer w))"
    and "lastSeq = of_nat m" and "online w"
  shows "\<exists>w'. sync_loop C lastSeq es w = (None, w') \<and> online w'"
  using assms(1,4-8)
proof (induction es arbitrary: k w)
  case (Cons entry es)
  have "k < length pes" using Cons.prems(2) by (metis drop_eq_Nil leI list.distinct(1))
  with Cons.prems(2) have k: "k < length pes" "entry = pes ! k" "es = drop (Suc k) pes"
    using Cons_nth_drop_Suc [of k pes] by (metis list.inject)+
  have kb: "k \<le> length (b_entries C (peer w))" using Cons.prems(3,4) by linarith
  show ?case
  proof (cases "Seq entry \<le> lastSeq")
    case True
    have "m < seq_limit"
      using Cons.prems(1,4) numbered_length [OF n] by (auto simp: backup_inv_def dest!: prefix_length_le)
    then have "k < m"
      using True of_nat_u64_le [of "Suc k" m] numbered_nth [OF n k(1)] numbered_length [OF n] k(1,2)
        Cons.prems(5) by (simp add: Suc_le_eq del: of_nat_Suc)
    with Cons.IH [OF Cons.prems(1) k(3) _ Cons.prems(4-6)] True show ?thesis by simp
  next
    case False
    from replicate_entry_online [OF Cons.prems(1) n _ k(1) kb Cons.prems(6)] st k(1,2) obtain w1 where
      w1: "replicate_entry C entry w = (None, w1)" "online w1" by (metis nth_mem)
    have seed: "b_entries C (peer w) \<noteq> [] \<or> k = 0" using kb by auto
    have "backup_inv C pes (peer w1)" "k < length (b_entries C (peer w1))"
      "length (b_entries C (peer w)) \<le> length (b_entries C (peer w1))"
      using replicate_entry_inv [OF Cons.prems(1) n _ k(1) seed, of None w1] st k(1,2) w1(1)
      by (auto dest: prefix_length_le)
    with Cons.IH [OF _ k(3) _ _ Cons.prems(5), of "note_seq (Seq entry) w1"] w1 False Cons.prems(4)
    show ?thesis by simp
  qed
qed simp

lemma syncBackupWal_online:
  assumes inv: "repl_inv C w" and on: "online w"
  shows "\<exists>w'. syncBackupWal C w = (None, w') \<and> online w'"
proof -
  let ?pes = "entries C (p_wal w)"
  note i = repl_invD [OF inv]
  from sync_loop_online [OF i(3,2,5) _ _ _ refl on, of ?pes 0 "length (b_entries C (peer w))"]
  show ?thesis
    using rpc_online [OF on, of "\<lambda>b. (Ping b, b)"] i(3) ReadAll_ok [OF i(1)]
    by (simp add: syncBackupWal_def backupLastWalSeq_def Ping_def backup_inv_def)
qed

subsection \<open>The retry\<close>

text \<open>
  The retry makes up for one call that fails, whichever way it fails: the handler answers with
  success a second time for an entry it has, and the synchronisation fills what is missing.
\<close>

lemma replicateWithRetry_one_fault:
  assumes inv: "repl_inv C w" and es: "entries C (p_wal w) = es @ [e]"
    and seed: "b_entries C (peer w) \<noteq> [] \<or> es = []"
    and conn: "conn (coord w) = Some (fate ## sconst Delivered)" and acc: "accepting (handler (peer w))"
  shows "\<exists>w'. replicateWithRetry C e w = (None, w') \<and> online w'"
proof -
  obtain q w1 where q: "replicate_entry C e w = (q, w1)" by fastforce
  have R: "carried C w w1" using replicate_last_inv [OF inv es seed q] by simp
  have acc1: "accepting (handler (snd (Replicate C \<lparr>req_Entry = Some e\<rparr> (peer w))))"
    using acc by (auto simp: Replicate_def Let_def split: prod.split option.split)
  have on: "online w1"
    using q conn acc acc1 by (auto simp: replicate_entry_def rpc_def call_def online_def Let_def
        split: rpc_fate.splits prod.splits if_splits)
  show ?thesis
  proof (cases q)
    case None
    then show ?thesis using q on by (simp add: replicateWithRetry_def)
  next
    case (Some err)
    have w1: "repl_inv C w1" "entries C (p_wal w1) = es @ [e]"
      using R es carried_entries by (auto simp: carried_def)
    from syncBackupWal_online [OF w1(1) on] obtain w2 where
      w2: "syncBackupWal C w1 = (None, w2)" "online w2" by auto
    note S = syncBackupWal_inv [OF w1(1) w2(1)]
    have i2: "repl_inv C w2" "entries C (p_wal w2) = es @ [e]" "b_entries C (peer w2) = es @ [e]"
      using S w1(2) carried_entries by (auto simp: carried_def)
    have "\<exists>w'. replicate_entry C e w2 = (None, w') \<and> online w'"
      using replicate_entry_online [of C "es @ [e]" w2 "length es"] repl_invD [OF i2(1)] i2 w2(2) by simp
    then show ?thesis using Some q w2(1) by (simp add: replicateWithRetry_def)
  qed
qed

subsection \<open>A replicated operation\<close>

definition next_entry :: "codec \<Rightarrow> WalEntry \<Rightarrow> world \<Rightarrow> WalEntry" where
  "next_entry C e w = e\<lparr>Seq := of_nat (Suc (length (entries C (p_wal w))))\<rparr>"

text \<open>There is a number left for the entry, and it can be stored.\<close>

definition fits :: "codec \<Rightarrow> WalEntry \<Rightarrow> world \<Rightarrow> bool" where
  "fits C e w \<longleftrightarrow> Suc (length (entries C (p_wal w))) < seq_limit \<and> storable C (next_entry C e w)"

lemma Append_world:
  assumes "wal_ok C (p_wal w)" and "numbered (entries C (p_wal w))" and "fits C e w"
  shows "\<exists>l. Append C e (p_wal w) = (Inr (Seq (next_entry C e w)), next_entry C e w, l) \<and>
    wal_ok C l \<and> entries C l = entries C (p_wal w) @ [next_entry C e w] \<and>
    numbered (entries C (p_wal w) @ [next_entry C e w])"
  using walstore.append_in_order [of C "p_wal w" e] assms
  by (auto simp: walstore.in_order_def fits_def next_entry_def)

lemma repl_inv_append:
  assumes "repl_inv C w" and "wal_ok C l" and "entries C l = entries C (p_wal w) @ [e]" and "numbered (entries C l)"
  shows "repl_inv C (w\<lparr>p_wal := l, mem := m\<rparr>)"
  using assms by (auto simp: repl_inv_def backup_inv_def)

lemma ReplicateAndWait_applied:
  assumes inv: "repl_inv C w" and seed: "seeded C w" and fit: "fits C e w"
    and a: "f (mem w) = Some (Inr v, m1)" and g: "g m1 = Some m2"
  shows "\<exists>r w'. ReplicateAndWait C e f g w = Some (r, w') \<and> repl_inv C w' \<and>
    entries C (p_wal w') = entries C (p_wal w) @ [next_entry C e w] \<and>
    prefix (b_entries C (peer w)) (b_entries C (peer w')) \<and>
    ((r = Inr v \<and> mem w' = m1 \<and> b_entries C (peer w') = entries C (p_wal w')) \<or>
     (\<exists>err. r = Inl (Wrapf ''replication failed'' err) \<and> mem w' = m2))"
proof -
  note i = repl_invD [OF inv]
  from Append_world [OF i(1,2) fit] obtain l where
    l: "Append C e (p_wal w) = (Inr (Seq (next_entry C e w)), next_entry C e w, l)" "wal_ok C l"
      "entries C l = entries C (p_wal w) @ [next_entry C e w]" "numbered (entries C l)" by auto
  let ?w2 = "w\<lparr>p_wal := l, mem := m1\<rparr>"
  have inv2: "repl_inv C ?w2" by (rule repl_inv_append [OF inv l(2-4)])
  obtain q w3 where q: "replicateWithRetry C (next_entry C e w) ?w2 = (q, w3)" by fastforce
  have R: "carried C ?w2 w3 \<and> (q = None \<longrightarrow> b_entries C (peer w3) = entries C l)"
    using replicateWithRetry_inv [OF inv2 _ _ q] seed l(3) by (simp add: seeded_def)
  then have w3: "p_wal w3 = l" "mem w3 = m1" "repl_inv C w3" "prefix (b_entries C (peer w)) (b_entries C (peer w3))"
    by (auto simp: carried_def same_primary_def)
  show ?thesis
  proof (cases q)
    case None
    with R w3 l q a show ?thesis
      by (auto simp: ReplicateAndWait_def repl_inv_def Let_def)
  next
    case (Some err)
    with R w3 l q a g show ?thesis
      by (auto simp: ReplicateAndWait_def repl_inv_def Let_def)
  qed
qed

lemma ReplicateAndWait_refused:
  assumes inv: "repl_inv C w" and fit: "fits C e w" and a: "f (mem w) = Some (Inl err, m1)"
  shows "\<exists>w'. ReplicateAndWait C e f g w = Some (Inl err, w') \<and> repl_inv C w' \<and> mem w' = m1 \<and>
    peer w' = peer w \<and> entries C (p_wal w') = entries C (p_wal w) @ [next_entry C e w]"
proof -
  note i = repl_invD [OF inv]
  from Append_world [OF i(1,2) fit] obtain l where
    l: "Append C e (p_wal w) = (Inr (Seq (next_entry C e w)), next_entry C e w, l)" "wal_ok C l"
      "entries C l = entries C (p_wal w) @ [next_entry C e w]" "numbered (entries C l)" by auto
  with a repl_inv_append [OF inv l(2-4), of m1] show ?thesis by (simp add: ReplicateAndWait_def Let_def)
qed

lemma ReplicateAndWait_one_fault:
  assumes inv: "repl_inv C w" and seed: "seeded C w" and fit: "fits C e w"
    and conn: "conn (coord w) = Some (fate ## sconst Delivered)" and acc: "accepting (handler (peer w))"
    and a: "f (mem w) = Some (Inr v, m1)"
  shows "\<exists>w'. ReplicateAndWait C e f g w = Some (Inr v, w') \<and> mem w' = m1 \<and> online w'"
proof -
  note i = repl_invD [OF inv]
  from Append_world [OF i(1,2) fit] obtain l where
    l: "Append C e (p_wal w) = (Inr (Seq (next_entry C e w)), next_entry C e w, l)" "wal_ok C l"
      "entries C l = entries C (p_wal w) @ [next_entry C e w]" "numbered (entries C l)" by auto
  let ?w2 = "w\<lparr>p_wal := l, mem := m1\<rparr>"
  have inv2: "repl_inv C ?w2" by (rule repl_inv_append [OF inv l(2-4)])
  have s2: "b_entries C (peer ?w2) \<noteq> [] \<or> entries C (p_wal w) = []" using seed by (simp add: seeded_def)
  from replicateWithRetry_one_fault [OF inv2 _ s2, of "next_entry C e w" fate] l(3) conn acc obtain w3 where
    w3: "replicateWithRetry C (next_entry C e w) ?w2 = (None, w3)" "online w3" by auto
  have "carried C ?w2 w3" using replicateWithRetry_inv [OF inv2 _ s2 w3(1)] l(3) by simp
  then have "mem w3 = m1" by (simp add: carried_def same_primary_def)
  with w3 l(1) a show ?thesis by (simp add: ReplicateAndWait_def Let_def)
qed

lemma ReplicateAndWait_online:
  assumes "repl_inv C w" and "seeded C w" and "fits C e w" and "f (mem w) = Some (Inr v, m1)" and "online w"
  shows "\<exists>w'. ReplicateAndWait C e f g w = Some (Inr v, w') \<and> online w'"
proof -
  have "Delivered ## sconst Delivered = sconst Delivered" by (metis siterate.code id_apply)
  with ReplicateAndWait_one_fault [where f = f and fate = Delivered and g = g, OF assms(1-3) _ _ assms(4)] assms(5)
  show ?thesis by (auto simp: online_def)
qed

subsection \<open>Start-up\<close>

lemma dialBackup_first:
  "dialBackup addr (Dialled (Delivered ## fates) # rounds) b = Inr fates"
  by (simp add: call_def)

lemma recoverPrimary_ok:
  assumes "wal_ok C (p_wal w)" and "replay ''recover seq '' (entries C (p_wal w)) (mem w) = Some (err, m)"
  shows "recoverPrimary C w = Some (err, w\<lparr>mem := m\<rparr>)"
  using assms by (simp add: recoverPrimary_def ReadAll_ok)

lemma startWithWal_done:
  assumes inv: "repl_inv C w" and r: "startWithWal C addr rounds w = Some (None, w')"
  shows "\<exists>m. replay ''recover seq '' (entries C (p_wal w)) (mem w) = Some (None, m) \<and> mem w' = m \<and>
    repl_inv C w' \<and> p_wal w' = p_wal w \<and> b_entries C (peer w') = entries C (p_wal w)"
proof -
  note i = repl_invD [OF inv]
  from r obtain fates where d: "dialBackup addr rounds (peer w) = Inr fates"
    by (auto simp: startWithWal_def split: sum.splits)
  let ?w0 = "w\<lparr>coord := \<lparr>conn = Some fates, lastWalSeq = 0\<rparr>\<rparr>"
  from r d obtain err w1 where r1: "recoverPrimary C ?w0 = Some (err, w1)"
    by (auto simp: startWithWal_def Let_def split: Option.bind_splits)
  obtain e2 w2 where s: "syncBackupWal C w1 = (e2, w2)" by fastforce
  from r d r1 s have none: "err = None" "e2 = None" "w' = w2"
    by (auto simp: startWithWal_def Let_def split: option.splits)
  from r1 i(1) none obtain m where
    m: "replay ''recover seq '' (entries C (p_wal w)) (mem w) = Some (None, m)" "w1 = ?w0\<lparr>mem := m\<rparr>"
    by (auto simp: recoverPrimary_def ReadAll_ok split: Option.bind_splits)
  have "repl_inv C w1" using inv m(2) by (simp add: repl_inv_def)
  from syncBackupWal_inv [OF this s] none m show ?thesis
    by (auto simp: carried_def same_primary_def)
qed

lemma startWithWal_online:
  assumes inv: "repl_inv C w" and acc: "accepting (handler (peer w))"
    and m: "replay ''recover seq '' (entries C (p_wal w)) (mem w) = Some (None, m)"
  shows "\<exists>w'. startWithWal C addr (Dialled (sconst Delivered) # rounds) w = Some (None, w') \<and> online w'"
proof -
  note i = repl_invD [OF inv]
  let ?w1 = "w\<lparr>coord := \<lparr>conn = Some (sconst Delivered), lastWalSeq = 0\<rparr>, mem := m\<rparr>"
  have d: "dialBackup addr (Dialled (sconst Delivered) # rounds) (peer w) = Inr (sconst Delivered)"
    by (simp add: call_def)
  have "repl_inv C ?w1" "online ?w1" using inv acc by (simp_all add: repl_inv_def online_def)
  from syncBackupWal_online [OF this] d m show ?thesis
    using recoverPrimary_ok [of C "w\<lparr>coord := \<lparr>conn = Some (sconst Delivered), lastWalSeq = 0\<rparr>\<rparr>" None m] i(1)
    by (auto simp: startWithWal_def simp del: dialBackup.simps)
qed

subsection \<open>A pair of processes that has just started\<close>

definition fresh_backup :: backup where
  "fresh_backup = \<lparr>handler = StartReplServer_handler (new_log ''b''), b_wal = new_log ''b''\<rparr>"

definition fresh_world :: "rpc_fate stream \<Rightarrow> world" where
  "fresh_world fates =
     \<lparr>coord = \<lparr>conn = Some fates, lastWalSeq = 0\<rparr>, p_wal = new_log ''p'',
      mem = InitStations [''mp3/a.mp3'', ''mp3/b.mp3''] initial_store, peer = fresh_backup\<rparr>"

lemma fresh_world_inv [simp]:
  "codec_ok C \<Longrightarrow> repl_inv C (fresh_world fates)" "seeded C (fresh_world fates)"
  by (simp_all add: fresh_world_def fresh_backup_def repl_inv_def backup_inv_def seeded_def StartReplServer_handler_def)

lemma fresh_world_fits [simp]: "storable C (e\<lparr>Seq := 1\<rparr>) \<Longrightarrow> fits C e (fresh_world fates)"
  by (simp add: fits_def next_entry_def fresh_world_def seq_limit_def)

lemma fresh_world_simps [simp]:
  "accepting (handler (peer (fresh_world fates)))" "conn (coord (fresh_world fates)) = Some fates"
  "entries C (p_wal (fresh_world fates)) = []" "b_entries C (peer (fresh_world fates)) = []"
  "wal_ok C (p_wal (fresh_world fates)) = wal_ok C (new_log ''p'')"
  by (simp_all add: fresh_world_def fresh_backup_def StartReplServer_handler_def)

lemma fresh_mem [simp]:
  "mem (fresh_world fates) = InitStations [''mp3/a.mp3'', ''mp3/b.mp3''] initial_store"
  by (simp add: fresh_world_def)

end
