(* ===== verification/Replication_Props.thy ===== *)
theory Replication_Props
  imports Replication_Inv
begin

section \<open>What replication guarantees\<close>

text \<open>
  The properties of the coordinator and of the backup's handler, for every behaviour of the
  network. The witnesses run a freshly started pair of processes with the wire format of proto3.
\<close>

lemma ReplicateAndWait_success_undo:
  "ReplicateAndWait C e f g w = Some (Inr v, w') \<Longrightarrow> ReplicateAndWait C e f Some w = Some (Inr v, w')"
  by (auto simp: ReplicateAndWait_def Let_def split: prod.splits sum.splits option.splits Option.bind_splits)

lemma ReplicateAndWait_success_applied:
  assumes "wal_ok C (p_wal w)" and "numbered (entries C (p_wal w))" and "fits C e w"
    and "ReplicateAndWait C e f g w = Some (Inr v, w')"
  shows "\<exists>m1. f (mem w) = Some (Inr v, m1)"
  using Append_world [OF assms(1-3)] assms(4)
  by (auto simp: ReplicateAndWait_def Let_def split: prod.splits sum.splits option.splits Option.bind_splits)

text \<open>
  C2: On a pair whose logs are intact, the backup's a prefix of the primary's, and whose backup has an
  entry unless the primary has none either: an operation that \<open>ReplicateAndWait\<close> acknowledges is
  applied in the primary's memory and is the last entry of both logs, which then hold exactly the
  same entries, whatever calls were lost on the way. The condition on the backup is needed, for the
  handler accepts any number while its log is empty (\<^verbatim>\<open>Interleaving\<close> has a run);
  after one acknowledged operation it holds for good.
\<close>

theorem acknowledged_on_both_logs:
  assumes "repl_inv C w" and "seeded C w" and "fits C e w"
    and "ReplicateAndWait C e f g w = Some (Inr v, w')"
  shows "f (mem w) = Some (Inr v, mem w') \<and>
    entries C (p_wal w') = entries C (p_wal w) @ [next_entry C e w] \<and>
    b_entries C (peer w') = entries C (p_wal w') \<and> repl_inv C w' \<and> seeded C w'"
proof -
  from ReplicateAndWait_success_applied [OF repl_invD(1,2) [OF assms(1)] assms(3,4)]
  obtain m1 where a: "f (mem w) = Some (Inr v, m1)" ..
  have "ReplicateAndWait C e f Some w = Some (Inr v, w')"
    by (rule ReplicateAndWait_success_undo [OF assms(4)])
  with ReplicateAndWait_applied [where f = f and g = Some, OF assms(1-3) a] a show ?thesis
    by (auto simp: seeded_def)
qed

definition hello_entry :: WalEntry where
  "hello_entry = \<lparr>Seq = 0, Op = Some (WalEntry_Handshake \<lparr>hs_ClientIp = ''127.0.0.1'', hs_UdpPort = 5000\<rparr>)\<rparr>"

definition hello_apply :: "unit applier" where
  "hello_apply m = (case ApplyHandshake ''127.0.0.1'' 5000 m of
     (Inl err, m') \<Rightarrow> Some (Inl err, m') | (Inr _, m') \<Rightarrow> Some (Inr (), m'))"

lemma hello_facts [simp]:
  "fits wire_codec hello_entry (fresh_world fates)"
  "next_entry wire_codec hello_entry (fresh_world fates) = hello_entry\<lparr>Seq := 1\<rparr>"
  by (simp_all add: hello_entry_def next_entry_def)

lemma hello_applies:
  obtains m1 where "hello_apply (mem (fresh_world fates)) = Some (Inr (), m1)"
  by (simp add: hello_apply_def ApplyHandshake_def InitStations_def initial_store_def alloc_def Let_def)

theorem acknowledged_on_both_logs_witness:
  "\<exists>w'. ReplicateAndWait wire_codec hello_entry hello_apply (\<lambda>m. Some m)
      (fresh_world (RequestLost ''unavailable'' ## sconst Delivered)) = Some (Inr (), w') \<and>
    entries wire_codec (p_wal w') = [hello_entry\<lparr>Seq := 1\<rparr>] \<and>
    b_entries wire_codec (peer w') = [hello_entry\<lparr>Seq := 1\<rparr>]"
proof -
  let ?w = "fresh_world (RequestLost ''unavailable'' ## sconst Delivered)"
  obtain m1 where a: "hello_apply (mem ?w) = Some (Inr (), m1)" by (rule hello_applies)
  from ReplicateAndWait_one_fault [where f = hello_apply, OF fresh_world_inv(1) [OF wire_codec_ok] fresh_world_inv(2) hello_facts(1) _ _ a,
      of "RequestLost ''unavailable''" Some]
  obtain w' where w': "ReplicateAndWait wire_codec hello_entry hello_apply (\<lambda>m. Some m) ?w = Some (Inr (), w')"
    by auto
  from acknowledged_on_both_logs [OF fresh_world_inv(1) [OF wire_codec_ok] fresh_world_inv(2) hello_facts(1) this] w' show ?thesis
    by simp
qed

text \<open>
  C22: On a pair whose logs are intact, the backup's a prefix of the primary's, and whose backup has an
  entry unless the primary has none either: when \<open>ReplicateAndWait\<close> reports that replication failed,
  the callback has undone the change in memory and the backup still has a prefix of the primary's
  log, but the entry stays in the primary's log, where the next recovery will apply it.
\<close>

theorem failed_replication_keeps_entry:
  assumes "repl_inv C w" and "seeded C w" and "fits C e w"
    and "f (mem w) = Some (Inr v, m1)" and "g m1 = Some m2"
    and "ReplicateAndWait C e f g w = Some (Inl err, w')"
  shows "mem w' = m2 \<and> repl_inv C w' \<and>
    entries C (p_wal w') = entries C (p_wal w) @ [next_entry C e w] \<and>
    prefix (b_entries C (peer w)) (b_entries C (peer w')) \<and>
    prefix (b_entries C (peer w')) (entries C (p_wal w'))"
  using ReplicateAndWait_applied [where f = f and g = g, OF assms(1-5)] assms(6) by (auto dest: repl_invD(4))

theorem failed_replication_keeps_entry_witness:
  "\<exists>err w'. ReplicateAndWait wire_codec hello_entry hello_apply
      (\<lambda>m. Some (RollbackHandshake ''127.0.0.1'' 5000 m))
      (fresh_world (sconst (RequestLost ''unavailable''))) = Some (Inl err, w') \<and>
    entries wire_codec (p_wal w') = [hello_entry\<lparr>Seq := 1\<rparr>] \<and>
    CurrentClients (mem w') (ClientKey ''127.0.0.1'' 5000) = None"
proof -
  let ?w = "fresh_world (sconst (RequestLost ''unavailable''))"
  let ?g = "\<lambda>m. Some (RollbackHandshake ''127.0.0.1'' 5000 m)"
  obtain m1 where a: "hello_apply (mem ?w) = Some (Inr (), m1)" by (rule hello_applies)
  have d: "Marshal wire_codec (hello_entry\<lparr>Seq := 1\<rparr>) \<noteq> Inl x" for x
    using wire_Marshal [of "hello_entry\<lparr>Seq := 1\<rparr>"] by (auto simp: hello_entry_def)
  have "\<exists>err w'. ReplicateAndWait wire_codec hello_entry hello_apply ?g ?w = Some (Inl err, w')"
  proof -
    from Append_world [of wire_codec ?w hello_entry] obtain l where
      "Append wire_codec hello_entry (p_wal ?w) = (Inr 1, hello_entry\<lparr>Seq := 1\<rparr>, l)"
      by (auto simp: wire_codec_ok)
    with a show ?thesis
      by (simp add: ReplicateAndWait_def Let_def replicateWithRetry_def replicate_entry_def rpc_def
          call_def syncBackupWal_def backupLastWalSeq_def)
  qed
  then obtain err w' where w': "ReplicateAndWait wire_codec hello_entry hello_apply ?g ?w = Some (Inl err, w')"
    by blast
  from failed_replication_keeps_entry [where f = hello_apply and g = ?g, OF fresh_world_inv(1) [OF wire_codec_ok] fresh_world_inv(2) hello_facts(1) a refl this] w'
  show ?thesis by (auto simp: RollbackHandshake_def)
qed

text \<open>
  C10: On a pair whose logs are intact, the backup's a prefix of the primary's, and whose backup has an
  entry unless the primary has none either, one failed call is never visible to the caller of
  \<open>ReplicateAndWait\<close>: whether the request or only its answer was lost, the single retry with its
  synchronisation succeeds when the calls after it get through and the backup accepts, and the
  backup then has the primary's whole log.
\<close>

theorem one_lost_call_is_masked:
  assumes "repl_inv C w" and "seeded C w" and "fits C e w"
    and "conn (coord w) = Some (fate ## sconst Delivered)" and "accepting (handler (peer w))"
    and "f (mem w) = Some (Inr v, m1)"
  shows "\<exists>w'. ReplicateAndWait C e f g w = Some (Inr v, w') \<and> mem w' = m1 \<and>
    b_entries C (peer w') = entries C (p_wal w) @ [next_entry C e w]"
proof -
  from ReplicateAndWait_one_fault [where f = f, OF assms] obtain w' where
    w': "ReplicateAndWait C e f g w = Some (Inr v, w')" "mem w' = m1" by blast
  from ReplicateAndWait_applied [where f = f and g = Some, OF assms(1-3,6)] ReplicateAndWait_success_undo [OF w'(1)] w'
  show ?thesis by auto
qed

theorem one_lost_call_is_masked_witness:
  "\<exists>w'. ReplicateAndWait wire_codec hello_entry hello_apply (\<lambda>m. None)
      (fresh_world (ResponseLost ''deadline exceeded'' ## sconst Delivered)) = Some (Inr (), w') \<and>
    b_entries wire_codec (peer w') = [hello_entry\<lparr>Seq := 1\<rparr>]"
proof -
  let ?w = "fresh_world (ResponseLost ''deadline exceeded'' ## sconst Delivered)"
  obtain m1 where a: "hello_apply (mem ?w) = Some (Inr (), m1)" by (rule hello_applies)
  from one_lost_call_is_masked [where f = hello_apply, OF fresh_world_inv(1) [OF wire_codec_ok] fresh_world_inv(2) hello_facts(1) _ _ a,
      of "ResponseLost ''deadline exceeded''" "\<lambda>m. None"] show ?thesis by auto
qed

text \<open>
  Starting a coordinator on a primary's log (recover, then synchronise) succeeds when the
  backup answers and the log replays; afterwards both logs are equal, so that every later
  operation starts from a synchronised pair.
\<close>

theorem start_synchronises:
  assumes "repl_inv C w" and "accepting (handler (peer w))"
    and "replay ''recover seq '' (entries C (p_wal w)) (mem w) = Some (None, m)"
  shows "\<exists>w'. startWithWal C addr (Dialled (sconst Delivered) # rounds) w = Some (None, w') \<and>
    mem w' = m \<and> p_wal w' = p_wal w \<and> b_entries C (peer w') = entries C (p_wal w) \<and>
    repl_inv C w' \<and> seeded C w'"
proof -
  from startWithWal_online [OF assms] obtain w' where
    w': "startWithWal C addr (Dialled (sconst Delivered) # rounds) w = Some (None, w')" by blast
  from startWithWal_done [OF assms(1) w'] assms(3) w' show ?thesis by (auto simp: seeded_def)
qed

theorem start_synchronises_witness:
  "\<exists>w'. startWithWal wire_codec ''127.0.0.1:16801'' [Dialled (sconst Delivered)]
      (fresh_world (sconst (RequestLost ''old''))) = Some (None, w') \<and>
    b_entries wire_codec (peer w') = []"
  using start_synchronises [OF fresh_world_inv(1) [OF wire_codec_ok], of _ _ "''127.0.0.1:16801''" "[]"]
  by fastforce

text \<open>
  C32: The handler is idempotent: an entry that it accepted is accepted again with the same answer
  and is not stored a second time, which is what makes the retry safe.
\<close>

theorem replicate_idempotent:
  assumes "Replicate C req b = (r, b')" and "resp_Ok r"
  shows "Replicate C req b' = (r, b')"
  using assms by (auto simp: Replicate_def Let_def split: option.splits if_splits prod.splits)

theorem replicate_idempotent_witness:
  "\<exists>r b'. Replicate wire_codec \<lparr>req_Entry = Some (hello_entry\<lparr>Seq := 1\<rparr>)\<rparr> fresh_backup = (r, b') \<and>
    Replicate wire_codec \<lparr>req_Entry = Some (hello_entry\<lparr>Seq := 1\<rparr>)\<rparr> b' = (r, b')"
proof -
  obtain r b' where R: "Replicate wire_codec \<lparr>req_Entry = Some (hello_entry\<lparr>Seq := 1\<rparr>)\<rparr> fresh_backup = (r, b')"
    by fastforce
  have "resp_Ok r"
    using Replicate_inv [of wire_codec "[hello_entry\<lparr>Seq := 1\<rparr>]" fresh_backup 0 r b'] R
    by (simp add: backup_inv_def fresh_backup_def StartReplServer_handler_def wire_codec_ok numbered_def
        seq_limit_def hello_entry_def)
  from replicate_idempotent [OF R this] R show ?thesis by blast
qed

text \<open>
  A backup whose log is empty takes any first entry: after an entry with a later number it
  acknowledges every earlier one without storing it, so a primary whose first replication failed
  believes a log replicated that lacks its beginning.
\<close>

lemma empty_backup_accepts_gap:
  assumes "wal_ok C (b_wal b)" and "b_entries C b = []" and "h_lastWalSeq (handler b) = 0"
    and "accepting (handler b)" and "storable C late" and "Seq early < Seq late"
  shows "\<exists>b'. Replicate C \<lparr>req_Entry = Some late\<rparr> b =
      (\<lparr>resp_Seq = Seq late, resp_Ok = True, resp_Error = ''''\<rparr>, b') \<and>
    Replicate C \<lparr>req_Entry = Some early\<rparr> b' =
      (\<lparr>resp_Seq = Seq early, resp_Ok = True, resp_Error = ''''\<rparr>, b') \<and>
    b_entries C b' = [late]"
proof -
  have nz: "Seq late \<noteq> 0" using assms(6) by (metis word_not_simps(1))
  from walstore.append_replicated [OF assms(1) nz assms(5)] obtain l where
    l: "AppendReplicated C late (b_wal b) = (None, l)" "entries C l = [late]" using assms(2) by auto
  with assms(3,4,6) nz show ?thesis by (auto simp: Replicate_def Let_def)
qed

end
