(* ===== verification/Requests.thy ===== *)
theory Requests
  imports Replication_Props
begin

section \<open>Requests that run at the same time\<close>

text \<open>
  The handlers run in goroutines of their own and \<open>ReplicateAndWait\<close> holds no lock over its phases,
  so between any two of its steps other requests can run. What is locked is one step here: the
  append to the log, the change in memory, one remote call, the reading of the log. A request is
  where it stands; the world is shared.

  One step is coarser than the code: the change in memory. \<open>ApplySetStation\<close>, its rollback and
  \<open>ApplyDisconnect\<close> take the locks of the map of clients and of the stations one after the other
  and release each before the next, so that two of them could run into each other; here each of them
  runs as a whole. The schedules of \<^verbatim>\<open>Interleaving\<close> that go wrong do so already at this granularity.
\<close>

subsection \<open>The steps of a request (coordinator.go)\<close>

datatype 'v phase =
    ToAppend
  | ToApply WalEntry
  | ToReplicate WalEntry 'v
  | ToPing WalEntry 'v
  | ToRead WalEntry 'v u64
  | ToSync WalEntry 'v u64 "WalEntry list"
  | ToRetry WalEntry 'v
  | ToRollback error
  | Acked WalEntry 'v
  | Refused error

record 'v request =
  r_entry :: WalEntry
  r_apply :: "'v applier"
  r_rollback :: undoer
  r_phase :: "'v phase"

definition send_step :: "codec \<Rightarrow> WalEntry \<Rightarrow> 'v phase \<Rightarrow> (error \<Rightarrow> 'v phase) \<Rightarrow> world \<Rightarrow> 'v phase \<times> world" where
  "send_step C entry next fail w =
     (case replicate_entry C entry w of
        (None, w1) \<Rightarrow> (next, note_seq (Seq entry) w1)
      | (Some err, w1) \<Rightarrow> (fail err, w1))"

definition req_step :: "codec \<Rightarrow> 'v request \<Rightarrow> world \<Rightarrow> ('v phase \<times> world) may_panic" where
  "req_step C r w =
     (case r_phase r of
        ToAppend \<Rightarrow>
          Some (case Append C (r_entry r) (p_wal w) of
                  (Inl err, entry1, l) \<Rightarrow> (Refused (Wrapf ''wal append'' err), w\<lparr>p_wal := l\<rparr>)
                | (Inr s, entry1, l) \<Rightarrow> (ToApply (entry1\<lparr>Seq := s\<rparr>), w\<lparr>p_wal := l\<rparr>))
      | ToApply e \<Rightarrow> do {
          (res, m) \<leftarrow> r_apply r (mem w);
          Some (case res of Inl err \<Rightarrow> Refused err | Inr v \<Rightarrow> ToReplicate e v, w\<lparr>mem := m\<rparr>)
        }
      | ToReplicate e v \<Rightarrow> Some (send_step C e (Acked e v) (\<lambda>_. ToPing e v) w)
      | ToPing e v \<Rightarrow>
          Some (case backupLastWalSeq w of
                  (Inl err, w1) \<Rightarrow> (ToRollback err, w1)
                | (Inr lastSeq, w1) \<Rightarrow> (ToRead e v lastSeq, w1))
      | ToRead e v lastSeq \<Rightarrow>
          Some (case ReadAll C (p_wal w) of
                  (Inl err, l) \<Rightarrow> (ToRollback err, w\<lparr>p_wal := l\<rparr>)
                | (Inr es, l) \<Rightarrow> (ToSync e v lastSeq es, w\<lparr>p_wal := l\<rparr>))
      | ToSync e v lastSeq [] \<Rightarrow> Some (ToRetry e v, w)
      | ToSync e v lastSeq (e' # es) \<Rightarrow>
          Some (if Seq e' \<le> lastSeq then (ToSync e v lastSeq es, w)
                else send_step C e' (ToSync e v lastSeq es) ToRollback w)
      | ToRetry e v \<Rightarrow> Some (send_step C e (Acked e v) ToRollback w)
      | ToRollback err \<Rightarrow> do {
          m \<leftarrow> r_rollback r (mem w);
          Some (Refused (Wrapf ''replication failed'' err), w\<lparr>mem := m\<rparr>)
        }
      | Acked e v \<Rightarrow> Some (Acked e v, w)
      | Refused err \<Rightarrow> Some (Refused err, w))"

text \<open>A schedule names the request that runs next; a number beyond the requests is no step.\<close>

fun run_requests :: "codec \<Rightarrow> nat list \<Rightarrow> 'v request list \<Rightarrow> world \<Rightarrow> ('v request list \<times> world) may_panic" where
  "run_requests C [] rs w = Some (rs, w)"
| "run_requests C (i # is) rs w =
     (if i < length rs then do {
        (p, w1) \<leftarrow> req_step C (rs ! i) w;
        run_requests C is (rs[i := (rs ! i)\<lparr>r_phase := p\<rparr>]) w1
      } else run_requests C is rs w)"

subsection \<open>A request on its own\<close>

fun steps :: "codec \<Rightarrow> nat \<Rightarrow> 'v request \<Rightarrow> world \<Rightarrow> ('v phase \<times> world) may_panic" where
  "steps C 0 r w = Some (r_phase r, w)"
| "steps C (Suc k) r w = do { (p, w1) \<leftarrow> req_step C r w; steps C k (r\<lparr>r_phase := p\<rparr>) w1 }"

lemma steps_add: "steps C (j + k) r w = steps C j r w \<bind> (\<lambda>(p, w1). steps C k (r\<lparr>r_phase := p\<rparr>) w1)"
  by (induction j arbitrary: r w) (auto split: bind_split)

text \<open>\<open>r\<close> gets from one phase and world to another on its own, or to a panic.\<close>

definition gets_to :: "codec \<Rightarrow> 'v request \<Rightarrow> 'v phase \<Rightarrow> world \<Rightarrow> ('v phase \<times> world) option \<Rightarrow> bool" where
  "gets_to C r p w out \<longleftrightarrow> (\<exists>k. steps C k (r\<lparr>r_phase := p\<rparr>) w = out)"

lemma gets_to_refl: "gets_to C r p w (Some (p, w))"
  unfolding gets_to_def by (rule exI [of _ 0]) simp

lemma gets_to_step:
  assumes "req_step C (r\<lparr>r_phase := p\<rparr>) w = Some (q, u)" and "gets_to C r q u out"
  shows "gets_to C r p w out"
proof -
  from assms(2) obtain k where "steps C k (r\<lparr>r_phase := q\<rparr>) u = out" by (auto simp: gets_to_def)
  with assms(1) have "steps C (Suc k) (r\<lparr>r_phase := p\<rparr>) w = out" by simp
  then show ?thesis unfolding gets_to_def by blast
qed

lemma gets_to_panic: "req_step C (r\<lparr>r_phase := p\<rparr>) w = None \<Longrightarrow> gets_to C r p w None"
  unfolding gets_to_def by (rule exI [of _ 1]) simp

lemma gets_to_trans:
  assumes "gets_to C r p w (Some (p1, w1))" and "gets_to C r p1 w1 out"
  shows "gets_to C r p w out"
proof -
  from assms obtain j k where "steps C j (r\<lparr>r_phase := p\<rparr>) w = Some (p1, w1)" "steps C k (r\<lparr>r_phase := p1\<rparr>) w1 = out"
    by (auto simp: gets_to_def)
  then have "steps C (j + k) (r\<lparr>r_phase := p\<rparr>) w = out" by (simp add: steps_add)
  then show ?thesis unfolding gets_to_def by blast
qed

lemma gets_to_sync:
  "gets_to C r (ToSync e v s es) w (Some (case sync_loop C s es w of
     (None, w1) \<Rightarrow> (ToRetry e v, w1) | (Some err, w1) \<Rightarrow> (ToRollback err, w1)))"
proof (induction es arbitrary: w)
  case Nil
  show ?case by (rule gets_to_step [where q = "ToRetry e v" and u = w]) (simp_all add: req_step_def gets_to_refl)
next
  case (Cons e' es)
  consider "Seq e' \<le> s" | w1 where "\<not> Seq e' \<le> s" "replicate_entry C e' w = (None, w1)"
    | err w1 where "\<not> Seq e' \<le> s" "replicate_entry C e' w = (Some err, w1)" by (metis option.exhaust prod.exhaust)
  then show ?case
  proof cases
    case 1
    show ?thesis by (rule gets_to_step [where q = "ToSync e v s es" and u = w]) (use 1 Cons [of w] in \<open>simp_all add: req_step_def\<close>)
  next
    case 2
    show ?thesis
      by (rule gets_to_step [where q = "ToSync e v s es" and u = "note_seq (Seq e') w1"])
         (use 2 Cons [of "note_seq (Seq e') w1"] in \<open>simp_all add: req_step_def send_step_def\<close>)
  next
    case 3
    show ?thesis
      by (rule gets_to_step [where q = "ToRollback err" and u = w1])
         (use 3 in \<open>simp_all add: req_step_def send_step_def gets_to_refl\<close>)
  qed
qed

lemma gets_to_rollback:
  "gets_to C r (ToRollback err) w (do {
     m \<leftarrow> r_rollback r (mem w); Some (Refused (Wrapf ''replication failed'' err), w\<lparr>mem := m\<rparr>) })"
proof (cases "r_rollback r (mem w)")
  case None
  then show ?thesis by (simp add: gets_to_panic req_step_def)
next
  case (Some m)
  show ?thesis
    by (rule gets_to_step [where q = "Refused (Wrapf ''replication failed'' err)" and u = "w\<lparr>mem := m\<rparr>"])
      (use Some in \<open>simp_all add: req_step_def gets_to_refl\<close>)
qed

lemma gets_to_send:
  "replicate_entry C e w = (None, w1) \<Longrightarrow> gets_to C r (ToRetry e v) w (Some (Acked e v, note_seq (Seq e) w1))"
  "replicate_entry C e w = (Some err, w1) \<Longrightarrow> gets_to C r (ToRetry e v) w (Some (ToRollback err, w1))"
  "replicate_entry C e w = (None, w1) \<Longrightarrow> gets_to C r (ToReplicate e v) w (Some (Acked e v, note_seq (Seq e) w1))"
  "replicate_entry C e w = (Some err, w1) \<Longrightarrow> gets_to C r (ToReplicate e v) w (Some (ToPing e v, w1))"
  unfolding gets_to_def by (rule exI [of _ 1], simp add: req_step_def send_step_def)+

lemma gets_to_read:
  "gets_to C r (ToPing e v) w (Some (case syncBackupWal C w of
     (None, w1) \<Rightarrow> (ToRetry e v, w1) | (Some err, w1) \<Rightarrow> (ToRollback err, w1)))"
proof -
  obtain q w1 where q: "backupLastWalSeq w = (q, w1)" by fastforce
  show ?thesis
  proof (cases q)
    case (Inl err)
    show ?thesis
      by (rule gets_to_step [where q = "ToRollback err" and u = w1])
        (use q Inl in \<open>simp_all add: req_step_def syncBackupWal_def gets_to_refl\<close>)
  next
    case (Inr s)
    obtain x l where x: "ReadAll C (p_wal w1) = (x, l)" by fastforce
    have "gets_to C r (ToRead e v s) w1 (Some (case syncBackupWal C w of
     (None, w1) \<Rightarrow> (ToRetry e v, w1) | (Some err, w1) \<Rightarrow> (ToRollback err, w1)))"
    proof (cases x)
      case (Inl err)
      show ?thesis
        by (rule gets_to_step [where q = "ToRollback err" and u = "w1\<lparr>p_wal := l\<rparr>"])
          (use q \<open>q = Inr s\<close> x Inl in \<open>simp_all add: req_step_def syncBackupWal_def gets_to_refl\<close>)
    next
      case (Inr es)
      show ?thesis
        by (rule gets_to_step [where q = "ToSync e v s es" and u = "w1\<lparr>p_wal := l\<rparr>"])
          (use q \<open>q = Inr s\<close> x Inr gets_to_sync [of C r e v s es "w1\<lparr>p_wal := l\<rparr>"] in
            \<open>simp_all add: req_step_def syncBackupWal_def\<close>)
    qed
    then show ?thesis by (rule gets_to_step [where q = "ToRead e v s" and u = w1, rotated]) (use q Inr in \<open>simp add: req_step_def\<close>)
  qed
qed

text \<open>The rest of a request once it has been applied: the replication with its retry.\<close>

lemma gets_to_retry:
  "gets_to C r (ToReplicate e v) w (case replicateWithRetry C e w of
     (None, w1) \<Rightarrow> Some (Acked e v, note_seq (Seq e) w1)
   | (Some err, w1) \<Rightarrow> do { m \<leftarrow> r_rollback r (mem w1); Some (Refused (Wrapf ''replication failed'' err), w1\<lparr>mem := m\<rparr>) })"
proof -
  obtain a w1 where a: "replicate_entry C e w = (a, w1)" by fastforce
  obtain b w2 where b: "syncBackupWal C w1 = (b, w2)" by fastforce
  obtain c w3 where c: "replicate_entry C e w2 = (c, w3)" by fastforce
  show ?thesis
  proof (cases a)
    case None
    with a gets_to_send(3) [of C e w w1 r v] show ?thesis by (simp add: replicateWithRetry_def)
  next
    case (Some err)
    note ping = gets_to_trans [OF gets_to_send(4) [OF a [unfolded Some]] gets_to_read]
    show ?thesis
    proof (cases b)
      case None
      with b ping [of r v] have retry: "gets_to C r (ToReplicate e v) w (Some (ToRetry e v, w2))" by simp
      show ?thesis
      proof (cases c)
        case None
        with gets_to_trans [OF retry gets_to_send(1)] a b c \<open>a = Some err\<close> \<open>b = None\<close> show ?thesis
          by (simp add: replicateWithRetry_def)
      next
        case (Some err')
        with gets_to_trans [OF gets_to_trans [OF retry gets_to_send(2)] gets_to_rollback] a b c \<open>a = Some err\<close> \<open>b = None\<close>
        show ?thesis by (simp add: replicateWithRetry_def)
      qed
    next
      case (Some err')
      with b ping [of r v] have "gets_to C r (ToReplicate e v) w (Some (ToRollback err', w2))" by simp
      from gets_to_trans [OF this gets_to_rollback] a b \<open>a = Some err\<close> Some show ?thesis by (simp add: replicateWithRetry_def)
    qed
  qed
qed

text \<open>
  The steps agree with \<open>ReplicateAndWait\<close> as \<^verbatim>\<open>Replication\<close> has it: a request that no other request
  interrupts ends acknowledged with the same value, refused with the same error or in the same
  panic, and leaves the same world. What is proved of the one carries over to the other.
\<close>

lemma uninterrupted_request_is_ReplicateAndWait:
  "\<exists>k e'. steps C k \<lparr>r_entry = e, r_apply = f, r_rollback = g, r_phase = ToAppend\<rparr> w =
     (case ReplicateAndWait C e f g w of
        None \<Rightarrow> None
      | Some (Inl err, w') \<Rightarrow> Some (Refused err, w')
      | Some (Inr v, w') \<Rightarrow> Some (Acked e' v, w'))"
proof -
  let ?r = "\<lparr>r_entry = e, r_apply = f, r_rollback = g, r_phase = ToAppend\<rparr>"
  obtain a e1 l where a: "Append C e (p_wal w) = (a, e1, l)" by (metis prod.exhaust)
  let ?out = "\<lambda>e'. case ReplicateAndWait C e f g w of None \<Rightarrow> None | Some (Inl err, w') \<Rightarrow> Some (Refused err, w')
      | Some (Inr v, w') \<Rightarrow> Some (Acked e' v, w')"
  have "\<exists>e'. gets_to C ?r ToAppend w (?out e')"
  proof (cases a)
    case (Inl err)
    have "gets_to C ?r ToAppend w (Some (Refused (Wrapf ''wal append'' err), w\<lparr>p_wal := l\<rparr>))"
      by (rule gets_to_step [OF _ gets_to_refl]) (simp add: req_step_def a Inl)
    with a Inl show ?thesis by (simp add: ReplicateAndWait_def)
  next
    case (Inr s)
    let ?e = "e1\<lparr>Seq := s\<rparr>" and ?w = "w\<lparr>p_wal := l\<rparr>"
    have appended: "gets_to C ?r ToAppend w (Some (ToApply ?e, ?w))"
      by (rule gets_to_step [OF _ gets_to_refl]) (simp add: req_step_def a Inr)
    have "gets_to C ?r (ToApply ?e) ?w (?out ?e)"
    proof (cases "f (mem w)")
      case None
      then have "gets_to C ?r (ToApply ?e) ?w None" by (intro gets_to_panic) (simp add: req_step_def)
      with a Inr None show ?thesis by (simp add: ReplicateAndWait_def Let_def)
    next
      case (Some res)
      obtain x m where res: "res = (x, m)" by fastforce
      show ?thesis
      proof (cases x)
        case (Inl err)
        have "gets_to C ?r (ToApply ?e) ?w (Some (Refused err, ?w\<lparr>mem := m\<rparr>))"
          by (rule gets_to_step [OF _ gets_to_refl]) (simp add: req_step_def Some res Inl)
        with a Inr Some res Inl show ?thesis by (simp add: ReplicateAndWait_def Let_def)
      next
        case (Inr v)
        have "gets_to C ?r (ToApply ?e) ?w (Some (ToReplicate ?e v, ?w\<lparr>mem := m\<rparr>))"
          by (rule gets_to_step [OF _ gets_to_refl]) (simp add: req_step_def Some res Inr)
        from gets_to_trans [OF this gets_to_retry] a \<open>a = Inr s\<close> Some res Inr show ?thesis
          by (simp add: ReplicateAndWait_def Let_def bind_eq_Some_conv
              split: prod.splits option.splits bind_splits)
      qed
    qed
    with gets_to_trans [OF appended] show ?thesis by blast
  qed
  then show ?thesis by (auto simp: gets_to_def)
qed

end
