(* ===== verification/Leadership.thy ===== *)
theory Leadership
  imports GoLib
begin

section \<open>Leadership through etcd (internal/leadership/etcd.go)\<close>

text \<open>
  etcd and its client package are outside the program. The calls the code makes are the fields of
  the record \<open>etcd\<close>, a parameter of every definition here: each takes the state of the etcd
  server and returns its answer and the new state. \<open>Txn\<close> commits a transaction given by its
  comparisons and by the operations of its two branches, and answers with the \<open>Succeeded\<close> flag; the
  transaction itself is built by the code. \<open>GetKey\<close> returns the values of the matching keys. A call
  may fail, and a transaction or a revocation that fails may or may not have taken effect.
\<close>

type_synonym lease = int

datatype etcd_cmp = CompareCreateRevision string string int

datatype etcd_op = OpPut string string lease

record 'e etcd =
  Grant :: "int \<Rightarrow> 'e \<Rightarrow> (error + lease) \<times> 'e"
  Txn :: "etcd_cmp list \<Rightarrow> etcd_op list \<Rightarrow> etcd_op list \<Rightarrow> 'e \<Rightarrow> (error + bool) \<times> 'e"
  RevokeLease :: "lease \<Rightarrow> 'e \<Rightarrow> error option \<times> 'e"
  GetKey :: "string \<Rightarrow> 'e \<Rightarrow> (error + string list) \<times> 'e"

definition DefaultKey :: string where
  "DefaultKey = ''/snowcast/primary''"

text \<open>A session's callback is a closure of the manager; here only whether it is set.\<close>

record Session =
  leaseID :: lease
  sess_key :: string
  sess_value :: string
  onLost :: bool

subsection \<open>Acquiring\<close>

definition TryAcquire :: "'e etcd \<Rightarrow> string \<Rightarrow> string \<Rightarrow> int \<Rightarrow> 'e \<Rightarrow> (error + Session option) \<times> 'e" where
  "TryAcquire E key value ttl e =
     (case Grant E ttl e of
        (Inl err, e1) \<Rightarrow> (Inl err, e1)
      | (Inr l, e1) \<Rightarrow>
          (case Txn E [CompareCreateRevision key ''='' 0] [OpPut key value l] [] e1 of
             (Inl err, e2) \<Rightarrow> (Inl err, snd (RevokeLease E l e2))
           | (Inr succeeded, e2) \<Rightarrow>
               if \<not> succeeded then (Inr None, snd (RevokeLease E l e2))
               else (Inr (Some \<lparr>leaseID = l, sess_key = key, sess_value = value, onLost = False\<rparr>), e2)))"

definition Acquire :: "'e etcd \<Rightarrow> string \<Rightarrow> string \<Rightarrow> int \<Rightarrow> 'e \<Rightarrow> (error + Session) \<times> 'e" where
  "Acquire E key value ttl e =
     (case TryAcquire E key value ttl e of
        (Inl err, e1) \<Rightarrow> (Inl err, e1)
      | (Inr None, e1) \<Rightarrow> (Inl (Errorf (''leadership key '' @ [CHR 0x22] @ key @ [CHR 0x22] @ '' already held'')), e1)
      | (Inr (Some s), e1) \<Rightarrow> (Inr s, e1))"

definition GetPrimary :: "'e etcd \<Rightarrow> string \<Rightarrow> 'e \<Rightarrow> (error + string option) \<times> 'e" where
  "GetPrimary E key e =
     (case GetKey E key e of
        (Inl err, e1) \<Rightarrow> (Inl err, e1)
      | (Inr [], e1) \<Rightarrow> (Inr None, e1)
      | (Inr (v # _), e1) \<Rightarrow> (Inr (Some v), e1))"

definition SetOnLost :: "Session \<Rightarrow> Session" where
  "SetOnLost s = s\<lparr>onLost := True\<rparr>"

definition Revoke :: "'e etcd \<Rightarrow> Session \<Rightarrow> 'e \<Rightarrow> error option \<times> 'e" where
  "Revoke E s e = RevokeLease E (leaseID s) e"

subsection \<open>Keeping the lease\<close>

text \<open>
  \<open>KeepAlive\<close> selects between the cancellation of its context and the channel of answers; what it
  meets is a list of events. The result is \<open>None\<close> while it still waits, otherwise its error and
  whether it called the callback.
\<close>

datatype ka_event = Cancelled | Answer | NilAnswer | ChanClosed

fun keepalive_loop :: "Session \<Rightarrow> ka_event list \<Rightarrow> (error \<times> bool) option" where
  "keepalive_loop s [] = None"
| "keepalive_loop s (Cancelled # evs) = Some (SysErr ''context canceled'', False)"
| "keepalive_loop s (ChanClosed # evs) = Some (Errorf ''etcd lease keepalive lost'', onLost s)"
| "keepalive_loop s (NilAnswer # evs) = Some (Errorf ''etcd lease revoked'', onLost s)"
| "keepalive_loop s (Answer # evs) = keepalive_loop s evs"

definition KeepAlive :: "Session \<Rightarrow> error option \<Rightarrow> ka_event list \<Rightarrow> (error \<times> bool) option" where
  "KeepAlive s start evs =
     (case start of Some err \<Rightarrow> Some (err, False) | None \<Rightarrow> keepalive_loop s evs)"

subsection \<open>What etcd documents\<close>

text \<open>
  \<open>view\<close> tells, for a state of the server, the value, the lease and the create revision of each key; a
  key that exists has a positive create revision, and 0 stands for a key that does not. A granted
  lease is new. A transaction compares, runs the operations of the branch the comparisons choose, and
  answers whether they held; a put creates its key at the revision of the transaction or keeps the
  create revision the key has. A revocation deletes the keys of its lease and no other. A call that
  fails has had its effect or none.
\<close>

type_synonym etcd_keys = "string \<rightharpoonup> (string \<times> lease \<times> int)"

type_synonym 'e etcd_view = "'e \<Rightarrow> etcd_keys"

definition create_revision :: "etcd_keys \<Rightarrow> string \<Rightarrow> int" where
  "create_revision m k = (case m k of None \<Rightarrow> 0 | Some (v, l, c) \<Rightarrow> c)"

fun eval_cmp :: "etcd_keys \<Rightarrow> etcd_cmp \<Rightarrow> bool" where
  "eval_cmp m (CompareCreateRevision k result n) \<longleftrightarrow>
     (if result = ''='' then create_revision m k = n
      else if result = ''!='' then create_revision m k \<noteq> n
      else if result = ''<'' then create_revision m k < n
      else result = ''>'' \<and> create_revision m k > n)"

fun run_op :: "int \<Rightarrow> etcd_op \<Rightarrow> etcd_keys \<Rightarrow> etcd_keys" where
  "run_op revision (OpPut k v l) m = m(k \<mapsto> (v, l, if m k = None then revision else create_revision m k))"

definition without_lease :: "lease \<Rightarrow> etcd_keys \<Rightarrow> etcd_keys" where
  "without_lease l m = (\<lambda>k. case m k of None \<Rightarrow> None | Some (v, l', c) \<Rightarrow> if l' = l then None else Some (v, l', c))"

definition keys_ok :: "'e etcd_view \<Rightarrow> bool" where
  "keys_ok view \<longleftrightarrow> (\<forall>e k v l c. view e k = Some (v, l, c) \<longrightarrow> 0 < c)"

definition grant_ok :: "'e etcd \<Rightarrow> 'e etcd_view \<Rightarrow> bool" where
  "grant_ok E view \<longleftrightarrow>
     (\<forall>ttl e r e'. Grant E ttl e = (r, e') \<longrightarrow>
        view e' = view e \<and> (\<forall>l k v c. r = Inr l \<longrightarrow> view e k \<noteq> Some (v, l, c)))"

definition txn_ok :: "'e etcd \<Rightarrow> 'e etcd_view \<Rightarrow> bool" where
  "txn_ok E view \<longleftrightarrow>
     (\<forall>cmps thens elses e r e'. Txn E cmps thens elses e = (r, e') \<longrightarrow>
        (\<exists>revision > 0. let ok = list_all (eval_cmp (view e)) cmps;
                       after = fold (run_op revision) (if ok then thens else elses) (view e) in
           (case r of
              Inr succeeded \<Rightarrow> succeeded = ok \<and> view e' = after
            | Inl _ \<Rightarrow> view e' = view e \<or> view e' = after)))"

definition revoke_ok :: "'e etcd \<Rightarrow> 'e etcd_view \<Rightarrow> bool" where
  "revoke_ok E view \<longleftrightarrow>
     (\<forall>l e r e'. RevokeLease E l e = (r, e') \<longrightarrow>
        view e' = without_lease l (view e) \<or> (r \<noteq> None \<and> view e' = view e))"

definition get_ok :: "'e etcd \<Rightarrow> 'e etcd_view \<Rightarrow> bool" where
  "get_ok E view \<longleftrightarrow>
     (\<forall>k e r e'. GetKey E k e = (r, e') \<longrightarrow>
        view e' = view e \<and>
        (\<forall>vs. r = Inr vs \<longrightarrow> vs = (case view e k of None \<Rightarrow> [] | Some (v, _) \<Rightarrow> [v])))"

definition etcd_ok :: "'e etcd \<Rightarrow> 'e etcd_view \<Rightarrow> bool" where
  "etcd_ok E view \<longleftrightarrow> keys_ok view \<and> grant_ok E view \<and> txn_ok E view \<and> revoke_ok E view \<and> get_ok E view"

definition holds :: "('e etcd_view) \<Rightarrow> 'e \<Rightarrow> Session \<Rightarrow> bool" where
  "holds view e s \<longleftrightarrow> (\<exists>c. view e (sess_key s) = Some (sess_value s, leaseID s, c))"

subsection \<open>An etcd server in memory\<close>

text \<open>
  The documented behaviour is consistent: a server without faults, whose state is the next lease
  number and the keys, all created at revision 1.
\<close>

type_synonym mem_etcd = "nat \<times> (string \<times> string \<times> lease) list"

definition mem_view :: "mem_etcd etcd_view" where
  "mem_view e = (\<lambda>k. map_option (\<lambda>(v, l). (v, l, 1)) (map_of (snd e) k))"

definition new_lease :: "mem_etcd \<Rightarrow> nat" where
  "new_lease e = Suc (fst e + sum_list (map (\<lambda>x. nat (snd (snd x))) (snd e)))"

fun mem_op :: "etcd_op \<Rightarrow> (string \<times> string \<times> lease) list \<Rightarrow> (string \<times> string \<times> lease) list" where
  "mem_op (OpPut k v l) kvs = (k, v, l) # kvs"

definition mem_etcd :: "mem_etcd etcd" where
  "mem_etcd =
     \<lparr>Grant = (\<lambda>ttl e. (Inr (int (new_lease e)), (new_lease e, snd e))),
      Txn = (\<lambda>cmps thens elses e.
               let ok = list_all (eval_cmp (mem_view e)) cmps in
               (Inr ok, (fst e, fold mem_op (if ok then thens else elses) (snd e)))),
      RevokeLease = (\<lambda>l e. (None, (fst e, filter (\<lambda>(k, v, l'). map_of (snd e) k = Some (v, l') \<and> l' \<noteq> l) (snd e)))),
      GetKey = (\<lambda>k e. (Inr (case map_of (snd e) k of None \<Rightarrow> [] | Some (v, _) \<Rightarrow> [v]), e))\<rparr>"

lemma lease_below_new: "(k, v, l) \<in> set kvs \<Longrightarrow> l < int (Suc (n + sum_list (map (\<lambda>x. nat (snd (snd x))) kvs)))"
  by (induction kvs) auto

lemma map_of_filter_current:
  "map_of (filter (\<lambda>(k, v, l'). map_of kvs k = Some (v, l') \<and> l' \<noteq> l) kvs') k =
     (if \<exists>v l'. map_of kvs k = Some (v, l') \<and> l' \<noteq> l \<and> (k, v, l') \<in> set kvs' then map_of kvs k else None)"
  by (induction kvs') (auto split: if_splits)

lemma mem_ops_view: "mem_view (n, fold mem_op ops kvs) = fold (run_op 1) ops (mem_view (n, kvs))"
proof (induction ops arbitrary: kvs)
  case (Cons op ops)
  have "mem_view (n, mem_op op kvs) = run_op 1 op (mem_view (n, kvs))"
    by (cases op) (auto simp: mem_view_def fun_eq_iff create_revision_def split: option.split)
  with Cons [of "mem_op op kvs"] show ?case by simp
qed simp

lemma mem_txn_ok: "txn_ok mem_etcd mem_view"
  unfolding txn_ok_def
proof (intro allI impI)
  fix cmps thens elses e r e'
  assume t: "Txn mem_etcd cmps thens elses e = (r, e')"
  let ?ok = "list_all (eval_cmp (mem_view e)) cmps"
  have "r = Inr ?ok" "mem_view e' = fold (run_op 1) (if ?ok then thens else elses) (mem_view e)"
    using t mem_ops_view [of "fst e" "if ?ok then thens else elses" "snd e"] by (auto simp: mem_etcd_def Let_def)
  then show "\<exists>revision > 0. let ok = list_all (eval_cmp (mem_view e)) cmps;
                       after = fold (run_op revision) (if ok then thens else elses) (mem_view e) in
           (case r of
              Inr succeeded \<Rightarrow> succeeded = ok \<and> mem_view e' = after
            | Inl _ \<Rightarrow> mem_view e' = mem_view e \<or> mem_view e' = after)"
    by (intro exI [of _ 1]) (simp add: Let_def)
qed

lemma mem_etcd_ok: "etcd_ok mem_etcd mem_view"
proof -
  have "grant_ok mem_etcd mem_view"
    by (auto simp: grant_ok_def mem_etcd_def mem_view_def new_lease_def dest!: map_of_SomeD lease_below_new)
  moreover have "mem_view (snd (RevokeLease mem_etcd l e)) = without_lease l (mem_view e)" for l e
    by (auto simp: mem_etcd_def mem_view_def without_lease_def fun_eq_iff map_of_filter_current
        split: option.split dest: map_of_SomeD)
  then have "revoke_ok mem_etcd mem_view" by (metis revoke_ok_def snd_conv)
  moreover have "get_ok mem_etcd mem_view"
    by (auto simp: get_ok_def mem_etcd_def mem_view_def split: option.split)
  moreover have "keys_ok mem_view" by (auto simp: keys_ok_def mem_view_def)
  ultimately show ?thesis by (simp add: etcd_ok_def mem_txn_ok)
qed

subsection \<open>Facts about the calls\<close>

lemma without_lease_fresh: "(\<And>k v c. m k \<noteq> Some (v, l, c)) \<Longrightarrow> without_lease l m = m"
  by (auto simp: without_lease_def fun_eq_iff split: option.split)

lemma without_lease_put:
  "(\<And>k v c. m k \<noteq> Some (v, l, c)) \<Longrightarrow> m k = None \<Longrightarrow> without_lease l (m(k \<mapsto> (v, l, c))) = m"
  by (auto simp: without_lease_def fun_eq_iff split: option.split)

lemma RevokeLease_view:
  assumes "etcd_ok E view"
  shows "view (snd (RevokeLease E l e)) = without_lease l (view e) \<or> view (snd (RevokeLease E l e)) = view e"
  using assms by (cases "RevokeLease E l e") (auto simp: etcd_ok_def revoke_ok_def)

text \<open>
  The transaction of \<open>TryAcquire\<close>: its comparison holds exactly when the key does not exist, since a
  key that exists has a positive create revision.
\<close>

lemma create_if_absent:
  assumes "etcd_ok E view" and "Txn E [CompareCreateRevision key ''='' 0] [OpPut key value l] [] e = (r, e')"
  shows "\<exists>c. case r of
      Inr True \<Rightarrow> view e key = None \<and> view e' = (view e)(key \<mapsto> (value, l, c))
    | Inr False \<Rightarrow> view e key \<noteq> None \<and> view e' = view e
    | Inl _ \<Rightarrow> view e' = view e \<or> (view e key = None \<and> view e' = (view e)(key \<mapsto> (value, l, c)))"
proof -
  have "0 < create_revision (view e) key" if "view e key \<noteq> None"
    using that assms(1) by (auto simp: etcd_ok_def keys_ok_def create_revision_def)
  then have ok: "eval_cmp (view e) (CompareCreateRevision key ''='' 0) \<longleftrightarrow> view e key = None"
    by (auto simp: create_revision_def split: option.splits)
  from assms obtain revision where "let ok = list_all (eval_cmp (view e)) [CompareCreateRevision key ''='' 0];
                       after = fold (run_op revision) (if ok then [OpPut key value l] else []) (view e) in
           (case r of
              Inr succeeded \<Rightarrow> succeeded = ok \<and> view e' = after
            | Inl _ \<Rightarrow> view e' = view e \<or> view e' = after)"
    unfolding etcd_ok_def txn_ok_def by blast
  with ok show ?thesis
    by (intro exI [of _ revision]) (auto simp: Let_def simp del: eval_cmp.simps split: sum.splits bool.splits)
qed

lemma TryAcquire_view:
  assumes "etcd_ok E view" and "TryAcquire E key value ttl e = (r, e')"
  shows "case r of
      Inr (Some s) \<Rightarrow> view e key = None \<and> (\<exists>c. view e' = (view e)(key \<mapsto> (value, leaseID s, c))) \<and>
        sess_key s = key \<and> sess_value s = value \<and> (\<forall>k v c. view e k \<noteq> Some (v, leaseID s, c))
    | Inr None \<Rightarrow> view e key \<noteq> None \<and> view e' = view e
    | Inl err \<Rightarrow> view e' = view e \<or> (view e key = None \<and> (\<exists>l c. view e' = (view e)(key \<mapsto> (value, l, c))))"
proof -
  obtain g e1 where g: "Grant E ttl e = (g, e1)" by fastforce
  have v1: "view e1 = view e" and fresh: "\<And>l k v c. g = Inr l \<Longrightarrow> view e k \<noteq> Some (v, l, c)"
    using assms(1) g by (auto simp: etcd_ok_def grant_ok_def)
  show ?thesis
  proof (cases g)
    case (Inl err)
    with assms(2) g v1 show ?thesis by (auto simp: TryAcquire_def)
  next
    case (Inr l)
    obtain t e2 where t: "Txn E [CompareCreateRevision key ''='' 0] [OpPut key value l] [] e1 = (t, e2)" by fastforce
    from create_if_absent [OF assms(1) t] obtain c where tv: "case t of
           Inr True \<Rightarrow> view e1 key = None \<and> view e2 = (view e1)(key \<mapsto> (value, l, c))
         | Inr False \<Rightarrow> view e1 key \<noteq> None \<and> view e2 = view e1
         | Inl _ \<Rightarrow> view e2 = view e1 \<or> (view e1 key = None \<and> view e2 = (view e1)(key \<mapsto> (value, l, c)))" ..
    note rv = RevokeLease_view [OF assms(1), of l e2]
    have f: "\<And>k v c. view e k \<noteq> Some (v, l, c)" using fresh [OF Inr] .
    show ?thesis
    proof (cases t)
      case t': (Inl err)
      have r: "r = Inl err" "e' = snd (RevokeLease E l e2)" using assms(2) g Inr t t' by (auto simp: TryAcquire_def)
      from tv t' v1 have "view e2 = view e \<or> (view e key = None \<and> view e2 = (view e)(key \<mapsto> (value, l, c)))" by simp
      with rv r(2) without_lease_fresh [of "view e" l, OF f] without_lease_put [of "view e" l key "value" c, OF f]
      have "view e' = view e \<or> (view e key = None \<and> view e' = (view e)(key \<mapsto> (value, l, c)))" by auto
      with r(1) show ?thesis by auto
    next
      case t': (Inr b)
      show ?thesis
      proof (cases b)
        case True
        with assms(2) g Inr t t' tv v1 f show ?thesis by (auto simp: TryAcquire_def)
      next
        case False
        have "r = Inr None" "e' = snd (RevokeLease E l e2)"
          using assms(2) g Inr t t' False by (auto simp: TryAcquire_def)
        with tv t' False v1 rv without_lease_fresh [OF f] show ?thesis by auto
      qed
    qed
  qed
qed

subsection \<open>Properties of leadership\<close>

text \<open>
  C17: While a session holds the leadership key nobody else acquires it, and the attempt does not
  take it from its holder, whichever of the attempt's calls fail on the way. What etcd is relied on
  for is that a transaction runs the branch its comparisons choose and that existing keys have a
  positive create revision; that the transaction is guarded is the code's own doing.
\<close>

theorem leadership_exclusive:
  assumes "etcd_ok E view" and "holds view e s" and "TryAcquire E (sess_key s) value ttl e = (r, e')"
  shows "(\<forall>s'. r \<noteq> Inr (Some s')) \<and> holds view e' s"
  using TryAcquire_view [OF assms(1,3)] assms(2)
  by (auto simp: holds_def split: sum.splits option.splits)

theorem leadership_exclusive_witness:
  "\<exists>s e1 r e2. TryAcquire mem_etcd DefaultKey ''127.0.0.1:16800'' 5 (0, []) = (Inr (Some s), e1) \<and>
    TryAcquire mem_etcd DefaultKey ''127.0.0.1:16900'' 5 e1 = (r, e2) \<and>
    (\<forall>s'. r \<noteq> Inr (Some s')) \<and> holds mem_view e2 s"
proof -
  obtain r1 e1 where a: "TryAcquire mem_etcd DefaultKey ''127.0.0.1:16800'' 5 (0, []) = (r1, e1)" by (rule prod.exhaust)
  then obtain s where s: "r1 = Inr (Some s)" by (auto simp: TryAcquire_def mem_etcd_def mem_view_def create_revision_def Let_def)
  have h: "holds mem_view e1 s" "sess_key s = DefaultKey"
    using TryAcquire_view [OF mem_etcd_ok a] s by (auto simp: holds_def)
  obtain r e2 where b: "TryAcquire mem_etcd DefaultKey ''127.0.0.1:16900'' 5 e1 = (r, e2)" by (rule prod.exhaust)
  from leadership_exclusive [OF mem_etcd_ok h(1)] h(2) b a s show ?thesis by metis
qed

text \<open>
  A successful attempt found no primary registered, registers its own address, and whoever
  asks for the primary before the lease goes gets that address.
\<close>

theorem acquired_primary_is_found:
  assumes "etcd_ok E view" and "TryAcquire E key value ttl e = (Inr (Some s), e')"
    and "GetPrimary E key e' = (Inr p, e'')"
  shows "view e key = None \<and> holds view e' s \<and> p = Some value \<and> holds view e'' s"
proof -
  note t = TryAcquire_view [OF assms(1,2)]
  obtain q where q: "GetKey E key e' = (q, e'')"
    using assms(3) by (auto simp: GetPrimary_def split: prod.splits sum.splits list.splits)
  have "view e'' = view e'" "\<And>vs. q = Inr vs \<Longrightarrow> vs = (case view e' key of None \<Rightarrow> [] | Some (v, _) \<Rightarrow> [v])"
    using assms(1) q unfolding etcd_ok_def get_ok_def by blast+
  with t q assms(3) show ?thesis
    by (auto simp: holds_def GetPrimary_def split: sum.splits list.splits)
qed

theorem acquired_primary_is_found_witness:
  "\<exists>s e1 e2. TryAcquire mem_etcd DefaultKey ''127.0.0.1:16800'' 5 (0, []) = (Inr (Some s), e1) \<and>
    GetPrimary mem_etcd DefaultKey e1 = (Inr (Some ''127.0.0.1:16800''), e2)"
proof -
  obtain r1 e1 where a: "TryAcquire mem_etcd DefaultKey ''127.0.0.1:16800'' 5 (0, []) = (r1, e1)" by (rule prod.exhaust)
  then obtain s where s: "r1 = Inr (Some s)" by (auto simp: TryAcquire_def mem_etcd_def mem_view_def create_revision_def Let_def)
  obtain p e2 where p: "GetPrimary mem_etcd DefaultKey e1 = (Inr p, e2)"
    by (cases "map_of (snd e1) DefaultKey"; cases e1) (auto simp: GetPrimary_def mem_etcd_def)
  from acquired_primary_is_found [OF mem_etcd_ok a [unfolded s] p] a s p show ?thesis by auto
qed

text \<open>
  C37: The manager is told of the loss of the lease exactly when the keepalive stream, once started
  and not cancelled, ends or answers with nothing; when the stream cannot be started at all it is
  never told, whatever happens to the lease.
\<close>

theorem lost_lease_is_reported:
  "KeepAlive s start evs = Some (err, True) \<longleftrightarrow>
     start = None \<and> onLost s \<and>
     (\<exists>n x rest. evs = replicate n Answer @ x # rest \<and>
        (x = ChanClosed \<and> err = Errorf ''etcd lease keepalive lost'' \<or>
         x = NilAnswer \<and> err = Errorf ''etcd lease revoked''))"
proof -
  have "keepalive_loop s evs = Some (err, True) \<longleftrightarrow> onLost s \<and>
     (\<exists>n x rest. evs = replicate n Answer @ x # rest \<and>
        (x = ChanClosed \<and> err = Errorf ''etcd lease keepalive lost'' \<or>
         x = NilAnswer \<and> err = Errorf ''etcd lease revoked''))"
  proof (induction s evs rule: keepalive_loop.induct)
    case (5 s evs)
    have "(\<exists>n x rest. Answer # evs = replicate n Answer @ x # rest \<and> P x) \<longleftrightarrow>
        (\<exists>n x rest. evs = replicate n Answer @ x # rest \<and> P x)" if "\<not> P Answer" for P
    proof
      assume "\<exists>n x rest. Answer # evs = replicate n Answer @ x # rest \<and> P x"
      then obtain n x rest where n: "Answer # evs = replicate n Answer @ x # rest" "P x" by blast
      with that obtain k where "n = Suc k" by (cases n) auto
      with n show "\<exists>n x rest. evs = replicate n Answer @ x # rest \<and> P x" by auto
    next
      assume "\<exists>n x rest. evs = replicate n Answer @ x # rest \<and> P x"
      then obtain n x rest where "evs = replicate n Answer @ x # rest" "P x" by blast
      then have "Answer # evs = replicate (Suc n) Answer @ x # rest \<and> P x" by simp
      then show "\<exists>n x rest. Answer # evs = replicate n Answer @ x # rest \<and> P x" by blast
    qed
    from this [of "\<lambda>x. x = ChanClosed \<and> err = Errorf ''etcd lease keepalive lost'' \<or>
         x = NilAnswer \<and> err = Errorf ''etcd lease revoked''"] 5 show ?case by simp
  qed (auto simp: Cons_eq_append_conv Cons_replicate_eq)
  then show ?thesis by (auto simp: KeepAlive_def split: option.splits)
qed

end
