(* ===== verification/Replicator.thy ===== *)
theory Replicator
  imports Replication_Inv
begin

section \<open>The Replicator interface and its two implementations\<close>

text \<open>
  The control server calls \<open>ReplicateAndWait\<close> through the Go interface \<open>Replicator\<close>, which the
  coordinator with a peer and the one without implement. The locale is the contract the request
  handlers rely on. \<open>log\<close> is the log that the operations are recorded in, \<open>survives\<close> the log from
  which the state is rebuilt when the node is lost, \<open>safe\<close> what every call keeps and \<open>ready\<close> the
  condition under which an acknowledgement means that the entry survives. An operation that the
  memory accepts is recorded, and either acknowledged with its effect or refused with its undoing; in
  a \<open>steady\<close> world, where no call is lost, it is acknowledged.
\<close>

type_synonym replicator =
  "WalEntry \<Rightarrow> string applier \<Rightarrow> undoer \<Rightarrow> world \<Rightarrow> ((error + string) \<times> world) may_panic"

definition number_entry :: "WalEntry list \<Rightarrow> WalEntry \<Rightarrow> WalEntry" where
  "number_entry es e = e\<lparr>Seq := of_nat (Suc (length es))\<rparr>"

locale replicating =
  fixes repl :: replicator
    and log :: "world \<Rightarrow> WalEntry list"
    and survives :: "world \<Rightarrow> WalEntry list"
    and safe :: "world \<Rightarrow> bool"
    and ready :: "world \<Rightarrow> bool"
    and fit :: "WalEntry \<Rightarrow> world \<Rightarrow> bool"
    and steady :: "world \<Rightarrow> bool"
  assumes applied: "safe w \<Longrightarrow> ready w \<Longrightarrow> fit e w \<Longrightarrow>
      f (mem w) = Some (Inr v, m1) \<Longrightarrow> g m1 = Some m2 \<Longrightarrow>
      \<exists>r w'. repl e f g w = Some (r, w') \<and> safe w' \<and> log w' = log w @ [number_entry (log w) e] \<and>
        ((r = Inr v \<and> mem w' = m1 \<and> ready w' \<and> survives w' = log w' \<and> (steady w \<longrightarrow> steady w')) \<or>
         (\<exists>err. r = Inl err \<and> mem w' = m2 \<and> \<not> steady w))"
    and alloc_frame: "safe (w\<lparr>mem := m\<rparr>) = safe w" "ready (w\<lparr>mem := m\<rparr>) = ready w"
      "log (w\<lparr>mem := m\<rparr>) = log w" "fit e (w\<lparr>mem := m\<rparr>) = fit e w"
      "steady (w\<lparr>mem := m\<rparr>) = steady w"

interpretation remote: replicating "ReplicateAndWait C" "\<lambda>w. entries C (p_wal w)"
  "\<lambda>w. b_entries C (peer w)" "repl_inv C" "seeded C" "fits C" online for C
proof (unfold_locales, goal_cases)
  case (1 w e f v m1 g m2)
  from ReplicateAndWait_online [where f = f and g = g, OF 1(1-4)]
    ReplicateAndWait_applied [where f = f and g = g, OF 1] show ?case
    by (fastforce simp: number_entry_def next_entry_def seeded_def)
qed (simp_all add: repl_inv_def seeded_def fits_def next_entry_def online_def)

text \<open>Without a peer the node's own log is all that survives, and every call finds it ready.\<close>

definition local_inv :: "codec \<Rightarrow> world \<Rightarrow> bool" where
  "local_inv C w \<longleftrightarrow> wal_ok C (p_wal w) \<and> numbered (entries C (p_wal w))"

lemma Local_ReplicateAndWait_applied:
  assumes "local_inv C w" and "fits C e w" and "f (mem w) = Some (Inr v, m1)"
  shows "\<exists>w'. Local_ReplicateAndWait C e f g w = Some (Inr v, w') \<and> local_inv C w' \<and> mem w' = m1 \<and>
    entries C (p_wal w') = entries C (p_wal w) @ [next_entry C e w]"
  using Append_world [of C w e] assms
  by (auto simp: local_inv_def Local_ReplicateAndWait_def)

interpretation alone: replicating "Local_ReplicateAndWait C" "\<lambda>w. entries C (p_wal w)"
  "\<lambda>w. entries C (p_wal w)" "local_inv C" "\<lambda>_. True" "fits C" "\<lambda>_. True" for C
proof (unfold_locales, goal_cases)
  case (1 w e f v m1 g m2)
  from Local_ReplicateAndWait_applied [where f = f and g = g, OF 1(1,3,4)] show ?case
    by (fastforce simp: number_entry_def next_entry_def)
qed (simp_all add: local_inv_def fits_def next_entry_def)

end
