(* ===== verification/Control.thy ===== *)
theory Control
  imports Replicator
begin

section \<open>The request handlers (internal/control/grpc.go)\<close>

text \<open>
  The handlers of the SnowcastControl service. The struct \<open>Server\<close> holds the number of stations and
  the replicator, an interface value, here the function that the interface call runs. The
  callbacks of the Go code capture a variable for the song's name: its value after the call is
  what the \<open>apply\<close> callback returns beside the error, the zero value '''' where nothing is captured.
  A handler runs without interleaving with another one; a panic is \<open>None\<close>. The lines a handler
  prints are not modelled.
\<close>

record Server =
  srv_NumStations :: int
  Repl :: replicator

definition getClientIP :: string where
  "getClientIP = ''127.0.0.1''"

text \<open>The two callbacks that wrap an operation of the state package.\<close>

definition handshake_apply :: "string \<Rightarrow> u32 \<Rightarrow> string applier" where
  "handshake_apply clientIP udpPort m =
     (case ApplyHandshake clientIP udpPort m of
        (Inl err, m') \<Rightarrow> Some (Inl err, m')
      | (Inr _, m') \<Rightarrow> Some (Inr '''', m'))"

definition disconnect_apply :: "string \<Rightarrow> string applier" where
  "disconnect_apply clientKey m =
     do {
       (err, m') \<leftarrow> ApplyDisconnect clientKey m;
       Some (case err of Some e \<Rightarrow> Inl e | None \<Rightarrow> Inr '''', m')
     }"

definition Handshake :: "Server \<Rightarrow> HelloMessage \<Rightarrow> world \<Rightarrow> ((error + WelcomeMessage) \<times> world) may_panic" where
  "Handshake s req w =
     (let udpPort = hello_UdpPort req;
          clientIP = getClientIP;
          clientKey = ClientKey clientIP udpPort in
      case GetClient clientKey (mem w) of
        Some _ \<Rightarrow> Some (Inl (Errorf (''client already connected: '' @ clientKey)), w)
      | None \<Rightarrow> do {
          let entry = \<lparr>Seq = 0, Op = Some (WalEntry_Handshake \<lparr>hs_ClientIp = clientIP, hs_UdpPort = udpPort\<rparr>)\<rparr>;
          (r, w') \<leftarrow> Repl s entry (handshake_apply clientIP udpPort)
            (\<lambda>m. Some (RollbackHandshake clientIP udpPort m)) w;
          Some (case r of
                  Inl err \<Rightarrow> Inl err
                | Inr _ \<Rightarrow> Inr \<lparr>welcome_NumStations = word_of_int (srv_NumStations s)\<rparr>, w')
        })"

subsection \<open>Streams of events\<close>

text \<open>
  The server's side of a stream: the events sent so far and the fates of the sends to come. gRPC
  is outside the program, so whether a send fails is given from outside.
\<close>

record Stream =
  sent :: "ServerEvent list"
  send_fates :: "error option stream"

definition Send :: "ServerEvent \<Rightarrow> Stream \<Rightarrow> error option \<times> Stream" where
  "Send ev st =
     (case shd (send_fates st) of
        None \<Rightarrow> (None, st\<lparr>sent := sent st @ [ev], send_fates := stl (send_fates st)\<rparr>)
      | Some err \<Rightarrow> (Some err, st\<lparr>send_fates := stl (send_fates st)\<rparr>))"

text \<open>
  \<open>SetStation\<close> up to its loop: it returned an error, or it goes on to serve the events of the
  client whose pointer it looked up.
\<close>

definition SetStation ::
  "Server \<Rightarrow> SetStationMessage \<Rightarrow> Stream \<Rightarrow> world \<Rightarrow> ((error + addr) \<times> Stream \<times> world) may_panic" where
  "SetStation s req st w =
     (let stationNum = uint (set_StationNumber req) in
      if stationNum < 0 \<or> stationNum \<ge> int (length (StationList (mem w)))
      then Some (Inl (Errorf (''invalid station number: '' @ fmt_d stationNum)),
                 snd (Send (ServerEvent_Invalid \<lparr>ReplyString = ''Invalid Station Number''\<rparr>) st), w)
      else
        (let clientIP = getClientIP;
             clientKey = ClientKey clientIP (set_UdpPort req) in
         case GetClient clientKey (mem w) of
           None \<Rightarrow> Some (Inl (Errorf (''client not found, '' @ clientKey)), st, w)
         | Some clientInfo \<Rightarrow> do {
             let previousStation = CurrStation (heap (mem w) ! clientInfo);
             let entry = \<lparr>Seq = 0, Op = Some (WalEntry_SetStation
                            \<lparr>ss_ClientIp = clientIP, ss_UdpPort = set_UdpPort req,
                             ss_StationNumber = word_of_int stationNum,
                             ss_PreviousStation = word_of_int previousStation\<rparr>)\<rparr>;
             (r, w') \<leftarrow> Repl s entry (ApplySetStation clientKey stationNum)
               (RollbackSetStation clientKey previousStation) w;
             (case r of
                Inl err \<Rightarrow> Some (Inl err, st, w')
              | Inr songName \<Rightarrow>
                  (case Send (ServerEvent_Announce \<lparr>SongName = songName\<rparr>) st of
                     (Some err, st') \<Rightarrow> Some (Inl err, st', w')
                   | (None, st') \<Rightarrow> Some (Inr clientInfo, st', w')))
           }))"

text \<open>
  One round of the loop at the end of \<open>SetStation\<close>: \<open>select\<close> takes an event of the client's
  channel or notices that the stream's context is done. Which ready case it takes is not fixed by
  the language, so the choice is an input; choosing an empty open channel means to wait.
\<close>

datatype select_case = PickEvent | PickDone error

datatype loop_state = Looping | Returned "error option"

definition event_step :: "select_case \<Rightarrow> addr \<Rightarrow> store \<Rightarrow> Stream \<Rightarrow> loop_state \<times> store \<times> Stream" where
  "event_step c client m st =
     (case c of
        PickDone err \<Rightarrow> (Returned (Some err), m, st)
      | PickEvent \<Rightarrow>
          (case chan_recv (EventChan (heap m ! client)) of
             (Blocked, _) \<Rightarrow> (Looping, m, st)
           | (Drained, _) \<Rightarrow> (Returned None, m, st)
           | (Got ev, ch) \<Rightarrow>
               (let m' = upd_client client (\<lambda>c. c\<lparr>EventChan := ch\<rparr>) m in
                case Send ev st of
                  (Some err, st') \<Rightarrow> (Returned (Some err), m', st')
                | (None, st') \<Rightarrow> (Looping, m', st'))))"

fun event_loop :: "select_case list \<Rightarrow> addr \<Rightarrow> store \<Rightarrow> Stream \<Rightarrow> loop_state \<times> store \<times> Stream" where
  "event_loop [] client m st = (Looping, m, st)"
| "event_loop (c # cs) client m st =
     (case event_step c client m st of
        (Returned r, m', st') \<Rightarrow> (Returned r, m', st')
      | (Looping, m', st') \<Rightarrow> event_loop cs client m' st')"

subsection \<open>Disconnect and Health\<close>

definition Disconnect ::
  "Server \<Rightarrow> DisconnectRequest \<Rightarrow> world \<Rightarrow> ((DisconnectResponse \<times> error option) \<times> world) may_panic" where
  "Disconnect s req w =
     (let clientIP = getClientIP;
          clientKey = ClientKey clientIP (disc_UdpPort req) in
      case GetClient clientKey (mem w) of
        None \<Rightarrow> Some ((\<lparr>Success = False\<rparr>, None), w)
      | Some clientInfo \<Rightarrow> do {
          let (savedClient, m) = alloc
            \<lparr>ci_UDPAddr = ci_UDPAddr (heap (mem w) ! clientInfo),
             CurrStation = CurrStation (heap (mem w) ! clientInfo),
             EventChan = make_chan 100\<rparr> (mem w);
          let entry = \<lparr>Seq = 0, Op = Some (WalEntry_Disconnect
                         \<lparr>dc_ClientIp = clientIP, dc_UdpPort = disc_UdpPort req\<rparr>)\<rparr>;
          (r, w') \<leftarrow> Repl s entry (disconnect_apply clientKey)
            (\<lambda>m. Some (RollbackDisconnect clientKey savedClient m)) (w\<lparr>mem := m\<rparr>);
          Some (case r of
                  Inl err \<Rightarrow> (\<lparr>Success = False\<rparr>, Some err)
                | Inr _ \<Rightarrow> (\<lparr>Success = True\<rparr>, None), w')
        })"

definition Health :: "world \<Rightarrow> HealthResponse \<times> world" where
  "Health w = (\<lparr>health_Ok = True\<rparr>, w)"

end
