(* ===== verification/Runtime.thy ===== *)
theory Runtime
  imports Control
begin

section \<open>Streaming and the server's console (internal/runtime/runtime.go)\<close>

text \<open>
  One goroutine per station reads the station's file in pieces of 1500 bytes, one piece per tick
  of its clock, and sends each piece to every client on the station; at the end of the file it
  seeks to the beginning and queues an announcement for every client. A tick is one step here; the
  clock and the UDP socket are outside the program, so a tick returns the datagrams it sends. The
  console reads lines until the command q ends the process.
\<close>

record RtServer =
  rt_control :: Server
  grpc_stopped :: bool
  udp_open :: bool
  stopped :: bool

text \<open>The three calls of \<open>Serve\<close> into the network that can fail have their outcome as an argument.\<close>

definition Serve ::
  "error option \<Rightarrow> error option \<Rightarrow> error option \<Rightarrow> string list \<Rightarrow> replicator \<Rightarrow> error + RtServer" where
  "Serve resolve listenUDP listenTCP files repl =
     (case resolve of
        Some err \<Rightarrow> Inl (Wrapf ''udp addr'' err)
      | None \<Rightarrow>
     (case listenUDP of
        Some err \<Rightarrow> Inl (Wrapf ''udp listen'' err)
      | None \<Rightarrow>
     (case listenTCP of
        Some err \<Rightarrow> Inl (Wrapf ''tcp listen'' err)
      | None \<Rightarrow>
          Inr \<lparr>rt_control = \<lparr>srv_NumStations = int (length files), Repl = repl\<rparr>,
               grpc_stopped = False, udp_open = True, stopped = False\<rparr>)))"

definition Stop :: "RtServer option \<Rightarrow> RtServer option" where
  "Stop s =
     (case s of
        None \<Rightarrow> None
      | Some s \<Rightarrow>
          if stopped s then Some s
          else Some (s\<lparr>stopped := True, grpc_stopped := True, udp_open := False\<rparr>))"

subsection \<open>A station's stream\<close>

type_synonym datagram = "byte list \<times> UDPAddr"

fun announce_all :: "ServerEvent \<Rightarrow> addr list \<Rightarrow> store \<Rightarrow> store may_panic" where
  "announce_all event [] m = Some m"
| "announce_all event (client # cs) m =
     do {
       ch \<leftarrow> chan_try_send event (EventChan (heap m ! client));
       announce_all event cs (upd_client client (\<lambda>c. c\<lparr>EventChan := ch\<rparr>) m)
     }"

definition streamStation_tick :: "nat \<Rightarrow> string \<Rightarrow> File \<Rightarrow> store \<Rightarrow> (datagram list \<times> File \<times> store) may_panic" where
  "streamStation_tick ident filename f m =
     (case file_Read 1500 f of
        (buffer, err, f1) \<Rightarrow> do {
          out \<leftarrow> (if length buffer > 0 then do {
              currStation \<leftarrow> index (StationList m) (int ident);
              Some (map (\<lambda>client. (buffer, ci_UDPAddr (heap m ! client))) (st_Clients currStation))
            } else Some []);
          (case err of
             None \<Rightarrow> Some (out, f1, m)
           | Some e \<Rightarrow>
               if e = EOF then do {
                 let f2 = snd (file_SeekStart f1);
                 station \<leftarrow> index (StationList m) (int ident);
                 m' \<leftarrow> announce_all (ServerEvent_Announce \<lparr>SongName = filename\<rparr>) (st_Clients station) m;
                 Some (out, f2, m')
               } else Some (out, f1, m))
        })"

fun stream_ticks :: "nat \<Rightarrow> nat \<Rightarrow> string \<Rightarrow> File \<Rightarrow> store \<Rightarrow> (datagram list \<times> File \<times> store) may_panic" where
  "stream_ticks 0 ident filename f m = Some ([], f, m)"
| "stream_ticks (Suc n) ident filename f m =
     do {
       (out, f1, m1) \<leftarrow> streamStation_tick ident filename f m;
       (outs, f2, m2) \<leftarrow> stream_ticks n ident filename f1 m1;
       Some (out @ outs, f2, m2)
     }"

text \<open>A station's goroutine for \<open>n\<close> ticks; a file that cannot be opened ends it at once.\<close>

definition streamStation :: "error + File \<Rightarrow> nat \<Rightarrow> nat \<Rightarrow> string \<Rightarrow> store \<Rightarrow> (datagram list \<times> store) may_panic" where
  "streamStation opened_file n ident filename m =
     (case opened_file of
        Inl err \<Rightarrow> Some ([], m)
      | Inr f \<Rightarrow> do { (out, f', m') \<leftarrow> stream_ticks n ident filename f m; Some (out, m') })"

subsection \<open>The console\<close>

definition client_text :: "store \<Rightarrow> addr \<Rightarrow> string" where
  "client_text m client =
     '','' @ IP_String (addr_IP (ci_UDPAddr (heap m ! client))) @ '':'' @ fmt_d (addr_Port (ci_UDPAddr (heap m ! client)))"

definition station_line :: "store \<Rightarrow> nat \<Rightarrow> string" where
  "station_line m i =
     (let station = StationList m ! i in
      dec i @ '','' @ st_Name station @ concat (map (client_text m) (st_Clients station)) @ [CHR 0x0A])"

definition FormatStationString :: "store \<Rightarrow> string" where
  "FormatStationString m = concat (map (station_line m) [0..<length (StationList m)])"

text \<open>
  The command q ranges over the map of clients, in an order that Go leaves open: the keys come as
  a list.
\<close>

fun close_clients :: "string list \<Rightarrow> store \<Rightarrow> store may_panic" where
  "close_clients [] m = Some m"
| "close_clients (key # keys) m =
     (case CurrentClients m key of
        None \<Rightarrow> close_clients keys m
      | Some client \<Rightarrow> do {
          ch \<leftarrow> chan_close (EventChan (heap m ! client));
          let m1 = upd_client client (\<lambda>c. c\<lparr>EventChan := ch\<rparr>) m;
          close_clients keys (m1\<lparr>CurrentClients := (CurrentClients m1)(key := None)\<rparr>)
        })"

datatype cli_action = Nothing | Print string | WriteFile string string | Exit

text \<open>
  One line of input. For \<open>WriteFile\<close> the argument is the outcome of the write, which decides only
  what is printed.
\<close>

definition handle_line ::
  "string list \<Rightarrow> string \<Rightarrow> RtServer option \<times> store \<Rightarrow> (cli_action \<times> RtServer option \<times> store) may_panic" where
  "handle_line order text st =
     (case st of (s, m) \<Rightarrow>
      let words = Fields (TrimSpace text) in
      if length words = 0 then Some (Nothing, s, m)
      else if words ! 0 = ''p'' then
        (if length words = 1 then Some (Print (FormatStationString m), s, m)
         else if length words = 2 then Some (WriteFile (words ! 1) (FormatStationString m), s, m)
         else Some (Print (''Invalid Command Type'' @ [CHR 0x0A]), s, m))
      else if words ! 0 = ''q'' then do {
        m' \<leftarrow> close_clients order m;
        Some (Exit, Stop s, m')
      }
      else Some (Print (''Invalid command'' @ [CHR 0x0A]), s, m))"

text \<open>
  The whole console on the lines of the input: it ends with the process at q, and waits for ever
  when the input is over.
\<close>

datatype cli_end = Exited | WaitsForever

fun HandleUserInput ::
  "string list \<Rightarrow> string list \<Rightarrow> RtServer option \<times> store \<Rightarrow> (cli_action list \<times> cli_end \<times> RtServer option \<times> store) may_panic" where
  "HandleUserInput order [] st = Some ([], WaitsForever, st)"
| "HandleUserInput order (line # ls) st =
     do {
       (act, st1) \<leftarrow> handle_line order line st;
       if act = Exit then Some ([Exit], Exited, st1)
       else do {
         (acts, res) \<leftarrow> HandleUserInput order ls st1;
         Some (act # acts, res)
       }
     }"

end
