(* ===== verification/Node.thy ===== *)
theory Node
  imports Leadership Runtime
begin

section \<open>Roles of a node (internal/node/manager.go)\<close>

text \<open>
  A node is one process: the fields of \<open>Manager\<close> and, in \<open>proc\<close>, what its packages share (the log,
  the clients and stations, the coordinator that replication keeps as \<open>global\<close>, and through the
  connection the other node). What the outside decides comes as arguments: the etcd server, the
  outcome of listening on a port, the rounds of dialling. A function that ends in an endless wait
  yields \<open>BlocksForever\<close>. The promotion is cut where it starts the goroutine that keeps the lease
  and where it stops the replication server, so that the loss of the lease can be put in between.
\<close>

record Config =
  EtcdEndpoints :: string
  EtcdKey :: string
  LeaseTTL :: int
  LeasePoll :: int
  ClientPort :: string
  ReplPort :: string
  BackupAddr :: string
  WalPath :: string
  Files :: "string list"

datatype role = roleLeader | roleStandby

record node =
  cfg :: Config
  role :: role
  replServer :: "inboundHandler option"
  clientSrv :: "RtServer option"
  session :: "Session option"
  keepCancel :: bool
  proc :: world

datatype run = Returns "error option" | BlocksForever | Fatal

text \<open>What a node meets when it takes over: the rounds of dialling and the outcomes of listening.\<close>

record takeover =
  t_rounds :: "dial_attempt list"
  t_resolve :: "error option"
  t_udp :: "error option"
  t_tcp :: "error option"

subsection \<open>Start and end of a node\<close>

definition New ::
  "codec \<Rightarrow> Config \<Rightarrow> (string \<rightharpoonup> byte list) \<Rightarrow> io_fate stream \<Rightarrow> error option \<Rightarrow> backup \<Rightarrow> error + node" where
  "New C c disk fs dial other =
     (let c1 = (if EtcdKey c = '''' then c\<lparr>EtcdKey := DefaultKey\<rparr> else c);
          c2 = (if LeasePoll c1 = 0 then c1\<lparr>LeasePoll := 1000000000\<rparr> else c1);
          c3 = (if LeaseTTL c2 = 0 then c2\<lparr>LeaseTTL := 5\<rparr> else c2) in
      case Open C (WalPath c3) disk fs of
        Inl err \<Rightarrow> Inl err
      | Inr w \<Rightarrow>
          (case dial of
             Some err \<Rightarrow> Inl err
           | None \<Rightarrow>
               Inr \<lparr>cfg = c3, role = roleStandby, replServer = None, clientSrv = None, session = None,
                    keepCancel = False,
                    proc = \<lparr>coord = \<lparr>conn = None, lastWalSeq = 0\<rparr>, p_wal = w, mem = initial_store, peer = other\<rparr>\<rparr>))"

definition stopKeepalive :: "node \<Rightarrow> node" where
  "stopKeepalive n = n\<lparr>keepCancel := False\<rparr>"

definition startKeepalive :: "node \<Rightarrow> node" where
  "startKeepalive n =
     (let n1 = (stopKeepalive n)\<lparr>keepCancel := True\<rparr> in
      case session n1 of
        None \<Rightarrow> n1
      | Some s \<Rightarrow> n1\<lparr>session := Some (SetOnLost s)\<rparr>)"

definition Close_node :: "node \<Rightarrow> node" where
  "Close_node n =
     (let n1 = stopKeepalive n;
          n2 = n1\<lparr>clientSrv := Stop (clientSrv n1), replServer := map_option GracefulStop (replServer n1)\<rparr>;
          w = ShutdownGlobal (proc n2)
      in n2\<lparr>proc := w\<lparr>p_wal := snd (Close (p_wal w))\<rparr>\<rparr>)"

text \<open>The attempts to listen that begin within the 30 seconds, with the outcome of each.\<close>

fun repl_listen_loop :: "string \<Rightarrow> error option \<Rightarrow> error option list \<Rightarrow> Log \<Rightarrow> error + inboundHandler" where
  "repl_listen_loop port lastErr [] w =
     Inl (case lastErr of
            None \<Rightarrow> Errorf (''start repl server on :'' @ port @ '': %!w(<nil>)'')
          | Some err \<Rightarrow> Wrapf (''start repl server on :'' @ port) err)"
| "repl_listen_loop port lastErr (listen # ls) w =
     (case StartReplServer listen w of
        Inr h \<Rightarrow> Inr h
      | Inl err \<Rightarrow> repl_listen_loop port (Some err) ls w)"

definition startReplServerWithRetry :: "error option list \<Rightarrow> node \<Rightarrow> error option \<times> node" where
  "startReplServerWithRetry listens n =
     (case repl_listen_loop (ReplPort (cfg n)) None listens (p_wal (proc n)) of
        Inl err \<Rightarrow> (Some err, n)
      | Inr h \<Rightarrow> (None, n\<lparr>replServer := Some h\<rparr>))"

definition primaryValue :: "node \<Rightarrow> string" where
  "primaryValue n = ''127.0.0.1:'' @ ClientPort (cfg n)"

subsection \<open>The first leader\<close>

text \<open>The end of \<open>RunAsLeader\<close> is the console, which is modelled with the runtime package.\<close>

definition RunAsLeader ::
  "codec \<Rightarrow> 'e etcd \<Rightarrow> takeover \<Rightarrow> 'e \<Rightarrow> node \<Rightarrow> (run \<times> node \<times> 'e) may_panic" where
  "RunAsLeader C E env e n =
     (let n0 = n\<lparr>proc := (proc n)\<lparr>mem := InitStations (Files (cfg n)) (mem (proc n))\<rparr>\<rparr> in
      case Acquire E (EtcdKey (cfg n0)) (primaryValue n0) (LeaseTTL (cfg n0)) e of
        (Inl err, e1) \<Rightarrow> Some (Returns (Some err), n0, e1)
      | (Inr s, e1) \<Rightarrow> do {
          let n1 = n0\<lparr>session := Some s, role := roleLeader\<rparr>;
          (err, w) \<leftarrow> StartWithWal C (p_wal (proc n1)) (BackupAddr (cfg n1)) (t_rounds env) (proc n1);
          (case err of
             Some e2 \<Rightarrow> Some (Returns (Some e2), n1\<lparr>proc := w\<rparr>, e1)
           | None \<Rightarrow>
               (case Serve (t_resolve env) (t_udp env) (t_tcp env) (Files (cfg n1)) (ReplicateAndWait C) of
                  Inl e2 \<Rightarrow> Some (Returns (Some e2), n1\<lparr>proc := ShutdownGlobal w\<rparr>, e1)
                | Inr srv \<Rightarrow> Some (BlocksForever, startKeepalive (n1\<lparr>proc := w, clientSrv := Some srv\<rparr>), e1)))
        })"

subsection \<open>Taking over\<close>

definition promote_claim :: "Session \<Rightarrow> node \<Rightarrow> node" where
  "promote_claim s n = startKeepalive (n\<lparr>session := Some s, role := roleLeader\<rparr>)"

definition promote_stop :: "node \<Rightarrow> node" where
  "promote_stop n = n\<lparr>replServer := None\<rparr>"

definition promote_serve :: "codec \<Rightarrow> takeover \<Rightarrow> node \<Rightarrow> (run \<times> node) may_panic" where
  "promote_serve C env n =
     (case ReadAll C (p_wal (proc n)) of
        (Inl err, l) \<Rightarrow> Some (Returns (Some err), n\<lparr>proc := (proc n)\<lparr>p_wal := l\<rparr>\<rparr>)
      | (Inr es, l) \<Rightarrow> do {
          let w = (proc n)\<lparr>p_wal := l, mem := InitStations (Files (cfg n)) (mem (proc n))\<rparr>;
          (err, m) \<leftarrow> replay ''apply wal seq '' es (mem w);
          let w1 = w\<lparr>mem := m\<rparr>;
          (case err of
             Some e \<Rightarrow> Some (Returns (Some e), n\<lparr>proc := w1\<rparr>)
           | None \<Rightarrow> do {
               (replTarget, w2) \<leftarrow>
                 (if BackupAddr (cfg n) \<noteq> '''' then do {
                    (err, w') \<leftarrow> StartWithWalTimeout C l (BackupAddr (cfg n)) (t_rounds env) w1;
                    Some (if err = None then BackupAddr (cfg n) else '''', w')
                  } else Some ('''', w1));
               let repl = (if replTarget = '''' then Local_ReplicateAndWait C else ReplicateAndWait C);
               (case Serve (t_resolve env) (t_udp env) (t_tcp env) (Files (cfg n)) repl of
                  Inl e \<Rightarrow> Some (Returns (Some e), n\<lparr>proc := ShutdownGlobal w2\<rparr>)
                | Inr srv \<Rightarrow> Some (BlocksForever, n\<lparr>proc := w2, clientSrv := Some srv\<rparr>))
             })
        })"

definition promoteToLeader :: "codec \<Rightarrow> takeover \<Rightarrow> Session \<Rightarrow> node \<Rightarrow> (run \<times> node) may_panic" where
  "promoteToLeader C env s n =
     (if role n = roleLeader then Some (Returns None, n)
      else promote_serve C env (promote_stop (promote_claim s n)))"

text \<open>
  One round of the standby's loop. \<open>seenPrimary\<close> is the loop's variable; the result says whether
  the loop goes on. Its first part ends with the attempt to acquire the key, and yields the session
  when that succeeds.
\<close>

datatype poll = GoOn | Done | Blocked_in_promotion

definition poll_acquire :: "'e etcd \<Rightarrow> bool \<Rightarrow> node \<Rightarrow> 'e \<Rightarrow> (poll \<times> bool \<times> 'e) + (Session \<times> 'e)" where
  "poll_acquire E seenPrimary n e =
     (if role n = roleLeader then Inl (Done, seenPrimary, e)
      else case GetPrimary E (EtcdKey (cfg n)) e of
        (Inl err, e1) \<Rightarrow> Inl (GoOn, seenPrimary, e1)
      | (Inr (Some _), e1) \<Rightarrow> Inl (GoOn, True, e1)
      | (Inr None, e1) \<Rightarrow>
          if \<not> seenPrimary then Inl (GoOn, seenPrimary, e1)
          else case TryAcquire E (EtcdKey (cfg n)) (primaryValue n) (LeaseTTL (cfg n)) e1 of
            (Inl err, e2) \<Rightarrow> Inl (GoOn, seenPrimary, e2)
          | (Inr None, e2) \<Rightarrow> Inl (GoOn, seenPrimary, e2)
          | (Inr (Some s), e2) \<Rightarrow> Inr (s, e2))"

definition poll_round ::
  "codec \<Rightarrow> 'e etcd \<Rightarrow> takeover \<Rightarrow> bool \<Rightarrow> node \<Rightarrow> 'e \<Rightarrow> (poll \<times> bool \<times> node \<times> 'e) may_panic" where
  "poll_round C E env seenPrimary n e =
     (case poll_acquire E seenPrimary n e of
        Inl (r, seen, e1) \<Rightarrow> Some (r, seen, n, e1)
      | Inr (s, e2) \<Rightarrow> do {
          (r, n1) \<leftarrow> promoteToLeader C env s n;
          (case r of
             Returns (Some err) \<Rightarrow> Some (GoOn, seenPrimary, n1, snd (Revoke E s e2))
           | Returns None \<Rightarrow> Some (Done, seenPrimary, n1, e2)
           | _ \<Rightarrow> Some (Blocked_in_promotion, seenPrimary, n1, e2))
        })"

text \<open>
  The loop of the standby over the ticks of its clock. Between two ticks other things happen to the
  node and to etcd (replication calls arrive, a lease expires): each tick comes with that change and
  with what a takeover at that tick would meet.
\<close>

type_synonym 'e tick = "(node \<times> 'e \<Rightarrow> node \<times> 'e) \<times> takeover"

fun runEtcdPollLoop ::
  "codec \<Rightarrow> 'e etcd \<Rightarrow> 'e tick list \<Rightarrow> bool \<Rightarrow> node \<Rightarrow> 'e \<Rightarrow> (poll \<times> bool \<times> node \<times> 'e) may_panic" where
  "runEtcdPollLoop C E [] seenPrimary n e = Some (GoOn, seenPrimary, n, e)"
| "runEtcdPollLoop C E ((outside, env) # ticks) seenPrimary n e =
     (case outside (n, e) of (n0, e0) \<Rightarrow> do {
        (r, seen, n1, e1) \<leftarrow> poll_round C E env seenPrimary n0 e0;
        if r = GoOn then runEtcdPollLoop C E ticks seen n1 e1 else Some (r, seen, n1, e1)
      })"

definition RunAsStandby :: "error option list \<Rightarrow> node \<Rightarrow> error option \<times> node" where
  "RunAsStandby listens n =
     startReplServerWithRetry listens
       (n\<lparr>proc := (proc n)\<lparr>mem := InitStations (Files (cfg n)) (mem (proc n))\<rparr>\<rparr>)"

subsection \<open>Stepping down\<close>

text \<open>When the replication server cannot be started again the process ends (\<open>log.Fatalf\<close>).\<close>

definition demoteToStandby :: "error option list \<Rightarrow> node \<Rightarrow> run \<times> node" where
  "demoteToStandby listens n =
     (if role n = roleStandby then (Returns None, n)
      else
        (let n1 = stopKeepalive n;
             n2 = n1\<lparr>clientSrv := None\<rparr>;
             n3 = n2\<lparr>proc := ShutdownGlobal (proc n2), session := None, role := roleStandby\<rparr> in
         case startReplServerWithRetry listens n3 of
           (Some err, n4) \<Rightarrow> (Fatal, n4)
         | (None, n4) \<Rightarrow> (Returns None, n4)))"

text \<open>An inbound replication call that reaches a node whose replication server runs.\<close>

definition inbound :: "codec \<Rightarrow> ReplicateRequest \<Rightarrow> node \<Rightarrow> (ReplicateResponse \<times> node) option" where
  "inbound C req n =
     (case replServer n of
        None \<Rightarrow> None
      | Some h \<Rightarrow>
          (case Replicate C req \<lparr>handler = h, b_wal = p_wal (proc n)\<rparr> of
             (r, b) \<Rightarrow> Some (r, n\<lparr>replServer := Some (handler b), proc := (proc n)\<lparr>p_wal := b_wal b\<rparr>\<rparr>)))"

end
