(* ===== verification/Control_Inv.thy ===== *)
theory Control_Inv
  imports Control
begin

section \<open>What the request handlers guarantee\<close>

text \<open>
  The lemmas are proved once, against the Replicator interface. \<open>in_sync\<close> says that the memory is
  what a replay of the log gives: an acknowledged request keeps it, a refused one restores the
  memory but not the log.
\<close>

definition reflects :: "WalEntry list \<Rightarrow> store \<Rightarrow> bool" where
  "reflects es m \<longleftrightarrow>
     store_inv m \<and> length (StationList m) < 2 ^ 31 \<and>
     (\<forall>e\<in>set es. entry_valid (length (StationList m)) e) \<and>
     a_replay es Map.empty = Some (abs_store m)"

lemma a_replay_snoc: "a_replay (es @ [e]) m = Option.bind (a_replay es m) (a_entry e)"
  by (cases "a_replay es m") (auto simp: a_replay_def a_run_append split: option.split)

lemma a_entry_number [simp]: "a_entry (number_entry es e) = a_entry e"
  by (simp add: fun_eq_iff a_entry_def number_entry_def)

lemma entry_valid_number [simp]: "entry_valid n (number_entry es e) = entry_valid n e"
  by (simp add: entry_valid_def number_entry_def)

lemma reflects_snoc:
  assumes "reflects es m" and "store_inv m'" and "station_names m' = station_names m"
    and "entry_valid (length (StationList m)) e" and "a_entry e (abs_store m) = Some (abs_store m')"
  shows "reflects (es @ [number_entry es e]) m'"
  using assms length_StationList [OF assms(3)] by (auto simp: reflects_def a_replay_snoc)

text \<open>
  A callback pair that is right for an entry: the first implements the entry's update, the second
  takes it back.
\<close>

definition implements :: "WalEntry \<Rightarrow> string applier \<Rightarrow> undoer \<Rightarrow> store \<Rightarrow> string \<Rightarrow> bool" where
  "implements e f g m v \<longleftrightarrow>
     (\<exists>m1 m2. f m = Some (Inr v, m1) \<and> store_inv m1 \<and> station_names m1 = station_names m \<and>
        a_entry e (abs_store m) = Some (abs_store m1) \<and>
        g m1 = Some m2 \<and> store_inv m2 \<and> station_names m2 = station_names m \<and> abs_store m2 = abs_store m)"

lemma Handshake_implements:
  assumes "store_inv m" and "CurrentClients m (ClientKey ip port) = None"
  shows "implements \<lparr>Seq = s, Op = Some (WalEntry_Handshake \<lparr>hs_ClientIp = ip, hs_UdpPort = port\<rparr>)\<rparr>
    (handshake_apply ip port) (\<lambda>m. Some (RollbackHandshake ip port m)) m ''''"
proof -
  from ApplyHandshake_ok [OF assms] obtain m1 where
    m1: "ApplyHandshake ip port m = (Inr (ClientKey ip port), m1)" "store_inv m1"
      "abs_store m1 = (abs_store m)(ClientKey ip port \<mapsto> -1)" "station_names m1 = station_names m"
    by blast
  have "abs_store m1 (ClientKey ip port) = Some (-1)" using m1(3) by simp
  note r = RollbackHandshake_ok [OF m1(2) this]
  have "abs_store (RollbackHandshake ip port m1) = abs_store m"
    using r(2) m1(3) assms(2) by (auto simp: fun_eq_iff abs_store_def)
  then show ?thesis
    using m1 r assms(2) by (simp add: implements_def a_entry_def handshake_apply_def Let_def)
qed

lemma sint_word_of_int: "0 \<le> i \<Longrightarrow> i < 2 ^ 31 \<Longrightarrow> sint (word_of_int i :: u32) = i"
  by (simp add: signed_of_int signed_take_bit_int_eq_self)

lemma station_range:
  assumes "store_inv m" and "CurrentClients m k = Some a"
  shows "CurrStation (heap m ! a) = -1 \<or>
    (0 \<le> CurrStation (heap m ! a) \<and> CurrStation (heap m ! a) < int (length (StationList m)))"
  using store_invD(2) [OF assms(1)] registeredI [OF assms(2)] by (auto simp: range_ok_def)

lemma SetStation_implements:
  assumes "store_inv m" and "CurrentClients m (ClientKey ip port) = Some a"
    and "0 \<le> i" and "i < int (length (StationList m))" and "length (StationList m) < 2 ^ 31"
  shows "implements \<lparr>Seq = s, Op = Some (WalEntry_SetStation
       \<lparr>ss_ClientIp = ip, ss_UdpPort = port, ss_StationNumber = word_of_int i, ss_PreviousStation = p\<rparr>)\<rparr>
    (ApplySetStation (ClientKey ip port) i)
    (RollbackSetStation (ClientKey ip port) (CurrStation (heap m ! a))) m (station_names m ! nat i)"
proof -
  let ?k = "ClientKey ip port"
  from ApplySetStation_ok [OF assms(1-4)] obtain m1 where
    m1: "ApplySetStation ?k i m = Some (Inr (station_names m ! nat i), m1)" "store_inv m1"
      "abs_store m1 = (abs_store m)(?k \<mapsto> i)" "station_names m1 = station_names m"
      "CurrentClients m1 = CurrentClients m" by blast
  from RollbackSetStation_ok [OF m1(2), of ?k a "CurrStation (heap m ! a)"] m1(5) assms(2)
    station_range [OF assms(1,2)] length_StationList [OF m1(4)] obtain m2 where
    m2: "RollbackSetStation ?k (CurrStation (heap m ! a)) m1 = Some m2" "store_inv m2"
      "abs_store m2 = (abs_store m1)(?k \<mapsto> CurrStation (heap m ! a))" "station_names m2 = station_names m1"
    by auto
  have "abs_store m2 = abs_store m"
    using m1(3) m2(3) assms(2) by (auto simp: fun_eq_iff abs_store_def)
  moreover have "sint (word_of_int i :: u32) = i" using assms(3-5) by (intro sint_word_of_int) auto
  ultimately show ?thesis
    using m1 m2 assms(2) by (simp add: implements_def a_entry_def Let_def)
qed

lemma Disconnect_implements:
  assumes "store_inv m" and "CurrentClients m (ClientKey ip port) = Some a"
    and "alloc \<lparr>ci_UDPAddr = ci_UDPAddr (heap m ! a), CurrStation = CurrStation (heap m ! a),
                EventChan = make_chan 100\<rparr> m = (b, m0)"
  shows "implements \<lparr>Seq = s, Op = Some (WalEntry_Disconnect \<lparr>dc_ClientIp = ip, dc_UdpPort = port\<rparr>)\<rparr>
    (disconnect_apply (ClientKey ip port)) (\<lambda>m. Some (RollbackDisconnect (ClientKey ip port) b m)) m0 ''''"
proof -
  let ?k = "ClientKey ip port"
  note al = alloc_ok [OF assms(1,3)]
  have a0: "CurrentClients m0 ?k = Some a" using al(4) assms(2) by simp
  from ApplyDisconnect_ok [OF al(1) a0] obtain m1 where
    m1: "ApplyDisconnect ?k m0 = Some (None, m1)" "store_inv m1" "abs_store m1 = (abs_store m0)(?k := None)"
      "station_names m1 = station_names m0" "CurrentClients m1 = (CurrentClients m0)(?k := None)"
      "length (heap m1) = length (heap m0)" "\<And>c. c \<noteq> a \<Longrightarrow> heap m1 ! c = heap m0 ! c" by blast
  have "a < length (heap m)" by (rule clients_okD(1) [OF store_invD(1) [OF assms(1)] assms(2)])
  then have hb: "heap m1 ! b = \<lparr>ci_UDPAddr = ci_UDPAddr (heap m ! a),
      CurrStation = CurrStation (heap m ! a), EventChan = make_chan 100\<rparr>" "b < length (heap m1)"
    using m1(6,7) al(5,6) by simp_all
  have nb: "\<not> registered m1 b" using al(7) m1(5) by (auto simp: registered_def ran_def split: if_splits)
  have ip: "\<exists>ip port. ?k = ClientKey ip port \<and>
      ci_UDPAddr (heap m ! a) = \<lparr>addr_IP = ParseIP ip, addr_Port = uint port\<rparr>"
    using store_invD(1) [OF assms(1)] assms(2) unfolding clients_ok_def by blast
  have rng: "-1 \<le> CurrStation (heap m ! a)" "CurrStation (heap m ! a) < int (length (StationList m1))"
    using station_range [OF assms(1,2)] length_StationList [of m1 m] m1(4) al(3) by auto
  note r = RollbackDisconnect_ok [OF m1(2) _ nb hb(2), of ?k, unfolded hb(1), simplified, OF _ ip [simplified] rng]
  have "abs_store m0 ?k = Some (CurrStation (heap m ! a))"
    unfolding al(2) using assms(2) by (simp add: abs_store_def)
  then have "abs_store (RollbackDisconnect ?k b m1) = abs_store m0"
    using r(2) m1(3,5) by (simp add: fun_upd_idem)
  then show ?thesis
    using m1 r a0 al(3) by (simp add: implements_def a_entry_def disconnect_apply_def Let_def)
qed

subsection \<open>The handlers against the interface\<close>

definition handshake_entry :: "u32 \<Rightarrow> WalEntry" where
  "handshake_entry port =
     \<lparr>Seq = 0, Op = Some (WalEntry_Handshake \<lparr>hs_ClientIp = getClientIP, hs_UdpPort = port\<rparr>)\<rparr>"

definition setstation_entry :: "u32 \<Rightarrow> int \<Rightarrow> int \<Rightarrow> WalEntry" where
  "setstation_entry port i p =
     \<lparr>Seq = 0, Op = Some (WalEntry_SetStation \<lparr>ss_ClientIp = getClientIP, ss_UdpPort = port,
        ss_StationNumber = word_of_int i, ss_PreviousStation = word_of_int p\<rparr>)\<rparr>"

definition disconnect_entry :: "u32 \<Rightarrow> WalEntry" where
  "disconnect_entry port =
     \<lparr>Seq = 0, Op = Some (WalEntry_Disconnect \<lparr>dc_ClientIp = getClientIP, dc_UdpPort = port\<rparr>)\<rparr>"

abbreviation client_key :: "u32 \<Rightarrow> string" where
  "client_key port \<equiv> ClientKey getClientIP port"

context replicating
begin

definition in_sync :: "world \<Rightarrow> bool" where
  "in_sync w \<longleftrightarrow> safe w \<and> ready w \<and> reflects (log w) (mem w)"

text \<open>The two outcomes of a request that the memory accepts.\<close>

definition outcome :: "WalEntry \<Rightarrow> world \<Rightarrow> bool \<Rightarrow> world \<Rightarrow> bool" where
  "outcome e w done w' \<longleftrightarrow>
     safe w' \<and> store_inv (mem w') \<and> station_names (mem w') = station_names (mem w) \<and>
     log w' = log w @ [number_entry (log w) e] \<and>
     (if done then a_entry e (abs_store (mem w)) = Some (abs_store (mem w')) \<and> in_sync w' \<and> survives w' = log w' \<and>
        (steady w \<longrightarrow> steady w')
      else abs_store (mem w') = abs_store (mem w) \<and> \<not> steady w)"

lemma operation:
  assumes "in_sync w" and "fit e w" and "entry_valid (length (StationList (mem w))) e"
    and "implements e f g (mem w) v"
  shows "\<exists>r w'. repl e f g w = Some (r, w') \<and>
    ((r = Inr v \<and> outcome e w True w') \<or> (\<exists>err. r = Inl err \<and> outcome e w False w'))"
proof -
  from assms(4) obtain m1 m2 where
    m1: "f (mem w) = Some (Inr v, m1)" "store_inv m1" "station_names m1 = station_names (mem w)"
      "a_entry e (abs_store (mem w)) = Some (abs_store m1)"
    and m2: "g m1 = Some m2" "store_inv m2" "station_names m2 = station_names (mem w)"
      "abs_store m2 = abs_store (mem w)"
    by (auto simp: implements_def)
  have "reflects (log w @ [number_entry (log w) e]) m1"
    using assms(1,3) by (intro reflects_snoc [OF _ m1(2,3) _ m1(4)]) (auto simp: in_sync_def)
  with applied [where f = f and g = g, OF _ _ assms(2) m1(1) m2(1)] assms(1) m1 m2 show ?thesis
    by (fastforce simp: in_sync_def outcome_def)
qed

lemma handshake:
  assumes "in_sync w" and "fit (handshake_entry (hello_UdpPort req)) w"
    and "CurrentClients (mem w) (client_key (hello_UdpPort req)) = None" and "Repl s = repl"
  shows "\<exists>r w'. Handshake s req w = Some (r, w') \<and>
    ((r = Inr \<lparr>welcome_NumStations = word_of_int (srv_NumStations s)\<rparr> \<and>
      outcome (handshake_entry (hello_UdpPort req)) w True w') \<or>
     (\<exists>err. r = Inl err \<and> outcome (handshake_entry (hello_UdpPort req)) w False w'))"
proof -
  have "store_inv (mem w)" using assms(1) by (simp add: in_sync_def reflects_def)
  note imp = Handshake_implements [OF this assms(3), of 0]
  have "entry_valid (length (StationList (mem w))) (handshake_entry (hello_UdpPort req))"
    by (simp add: entry_valid_def handshake_entry_def)
  from operation [OF assms(1,2) this imp [folded handshake_entry_def]] assms(3,4) show ?thesis
    by (auto simp: Handshake_def GetClient_def Let_def handshake_entry_def)
qed

lemma setstation:
  assumes "in_sync w" and "fit (setstation_entry port i (CurrStation (heap (mem w) ! a))) w"
    and "CurrentClients (mem w) (client_key port) = Some a" and "Repl s = repl"
    and "req = \<lparr>set_StationNumber = n, set_UdpPort = port\<rparr>" and "i = uint n"
    and "i < int (length (StationList (mem w)))"
  shows "\<exists>r st' w'. SetStation s req st w = Some (r, st', w') \<and>
    ((outcome (setstation_entry port i (CurrStation (heap (mem w) ! a))) w True w' \<and>
      (r, st') = (case Send (ServerEvent_Announce \<lparr>SongName = station_names (mem w) ! nat i\<rparr>) st of
         (Some err, st') \<Rightarrow> (Inl err, st') | (None, st') \<Rightarrow> (Inr a, st'))) \<or>
     (\<exists>err. r = Inl err \<and> st' = st \<and>
      outcome (setstation_entry port i (CurrStation (heap (mem w) ! a))) w False w'))"
proof -
  let ?e = "setstation_entry port i (CurrStation (heap (mem w) ! a))"
  have inv: "store_inv (mem w)" "length (StationList (mem w)) < 2 ^ 31"
    using assms(1) by (simp_all add: in_sync_def reflects_def)
  have i: "0 \<le> i" using assms(6) by simp
  have "sint (word_of_int i :: u32) = i" using i assms(7) inv(2) by (intro sint_word_of_int) auto
  then have v: "entry_valid (length (StationList (mem w))) ?e"
    using i assms(7) by (simp add: entry_valid_def setstation_entry_def)
  note imp = SetStation_implements [OF inv(1) assms(3) i assms(7) inv(2),
    of 0 "word_of_int (CurrStation (heap (mem w) ! a))", folded setstation_entry_def]
  obtain r w' where r: "repl ?e (ApplySetStation (client_key port) i)
      (RollbackSetStation (client_key port) (CurrStation (heap (mem w) ! a))) w = Some (r, w')"
    and o: "(r = Inr (station_names (mem w) ! nat i) \<and> outcome ?e w True w') \<or>
      (\<exists>err. r = Inl err \<and> outcome ?e w False w')"
    using operation [OF assms(1,2) v imp] by blast
  have "SetStation s req st w = (case r of
      Inl err \<Rightarrow> Some (Inl err, st, w')
    | Inr songName \<Rightarrow> (case Send (ServerEvent_Announce \<lparr>SongName = songName\<rparr>) st of
         (Some err, st') \<Rightarrow> Some (Inl err, st', w') | (None, st') \<Rightarrow> Some (Inr a, st', w')))"
    using r assms(3-7) i by (simp add: SetStation_def Let_def GetClient_def setstation_entry_def)
  with o show ?thesis by (auto split: prod.split option.split)
qed

lemma disconnect:
  assumes "in_sync w" and "fit (disconnect_entry (disc_UdpPort req)) w"
    and "CurrentClients (mem w) (client_key (disc_UdpPort req)) = Some a" and "Repl s = repl"
  shows "\<exists>r w'. Disconnect s req w = Some (r, w') \<and>
    ((r = (\<lparr>Success = True\<rparr>, None) \<and> outcome (disconnect_entry (disc_UdpPort req)) w True w') \<or>
     (\<exists>err. r = (\<lparr>Success = False\<rparr>, Some err) \<and> outcome (disconnect_entry (disc_UdpPort req)) w False w'))"
proof -
  let ?c = "\<lparr>ci_UDPAddr = ci_UDPAddr (heap (mem w) ! a), CurrStation = CurrStation (heap (mem w) ! a),
      EventChan = make_chan 100\<rparr>"
  obtain b m0 where al: "alloc ?c (mem w) = (b, m0)" by fastforce
  have inv: "store_inv (mem w)" using assms(1) by (simp add: in_sync_def reflects_def)
  note A = alloc_ok [OF inv al]
  let ?w0 = "w\<lparr>mem := m0\<rparr>"
  have s0: "in_sync ?w0"
    using assms(1) A(1-3) length_StationList [OF A(3)] by (simp add: in_sync_def alloc_frame reflects_def)
  have v: "entry_valid (length (StationList (mem ?w0))) (disconnect_entry (disc_UdpPort req))"
    by (simp add: entry_valid_def disconnect_entry_def)
  note imp = Disconnect_implements [OF inv assms(3) al, of 0, folded disconnect_entry_def]
  have m0: "mem ?w0 = m0" by simp
  have "fit (disconnect_entry (disc_UdpPort req)) ?w0" using assms(2) by (simp add: alloc_frame)
  then obtain r w' where
    r: "repl (disconnect_entry (disc_UdpPort req))
      (disconnect_apply (client_key (disc_UdpPort req)))
      (\<lambda>m. Some (RollbackDisconnect (client_key (disc_UdpPort req)) b m)) ?w0 = Some (r, w')"
    and o: "(r = Inr '''' \<and> outcome (disconnect_entry (disc_UdpPort req)) ?w0 True w') \<or>
      (\<exists>err. r = Inl err \<and> outcome (disconnect_entry (disc_UdpPort req)) ?w0 False w')"
    using operation [OF s0 _ v, unfolded m0, OF _ imp] by blast
  have "Disconnect s req w = Some (case r of
      Inl err \<Rightarrow> (\<lparr>Success = False\<rparr>, Some err) | Inr _ \<Rightarrow> (\<lparr>Success = True\<rparr>, None), w')"
    using r assms(3,4) al by (simp add: Disconnect_def Let_def GetClient_def disconnect_entry_def)
  moreover have "outcome e ?w0 = outcome e w" for e
    using A(2,3) by (intro ext) (simp add: outcome_def alloc_frame)
  ultimately show ?thesis using o by auto
qed

end

end
