(* ===== verification/Runtime_Props.thy ===== *)
theory Runtime_Props
  imports Runtime Control_Inv
begin

section \<open>Properties of streaming and of the console\<close>

text \<open>
  The pieces of a station's file, what a tick sends and queues, and what the console prints and
  closes. Streaming never changes which client is on which station.
\<close>

subsection \<open>Pieces of a file\<close>

function chunks :: "'a list \<Rightarrow> 'a list list" where
  "chunks xs = (if xs = [] then [] else take 1500 xs # chunks (drop 1500 xs))"
  by pat_completeness auto
termination by (relation "measure length") auto

declare chunks.simps [simp del]

lemma chunks_Nil [simp]: "chunks [] = []"
  by (simp add: chunks.simps)

lemma chunks_step: "xs \<noteq> [] \<Longrightarrow> chunks xs = take 1500 xs # chunks (drop 1500 xs)"
  by (simp add: chunks.simps [of xs])

lemma concat_chunks [simp]: "concat (chunks xs) = xs"
  by (induction xs rule: chunks.induct) (metis append_take_drop_id chunks_step chunks_Nil concat.simps)

lemma chunks_size: "c \<in> set (chunks xs) \<Longrightarrow> 0 < length c \<and> length c \<le> 1500"
  by (induction xs rule: chunks.induct) (metis chunks_step chunks_Nil empty_iff empty_set length_greater_0_conv
      length_take min.cobounded2 set_ConsD take_eq_Nil zero_neq_numeral)

subsection \<open>Ticks\<close>

abbreviation to_clients :: "store \<Rightarrow> nat \<Rightarrow> byte list \<Rightarrow> datagram list" where
  "to_clients m i d \<equiv> map (\<lambda>c. (d, ci_UDPAddr (heap m ! c))) (st_Clients (StationList m ! i))"

lemma index_nat [simp]: "index xs (int i) = (if i < length xs then Some (xs ! i) else None)"
  by (simp add: index_def)

lemma tick_data:
  assumes "healthy f" and "rest f \<noteq> []" and "i < length (StationList m)"
  shows "streamStation_tick i name f m =
    Some (to_clients m i (take 1500 (rest f)), f\<lparr>offset := offset f + length (take 1500 (rest f))\<rparr>, m)"
  using assms healthy_use_fate [OF assms(1)]
  by (simp add: streamStation_tick_def file_Read_def Let_def) (simp add: healthy_def)

lemma tick_EOF:
  assumes "healthy f" and "rest f = []" and "i < length (StationList m)"
  shows "streamStation_tick i name f m =
    (case announce_all (ServerEvent_Announce \<lparr>SongName = name\<rparr>) (st_Clients (StationList m ! i)) m of
       None \<Rightarrow> None | Some m' \<Rightarrow> Some ([], f\<lparr>offset := 0\<rparr>, m'))"
proof -
  have "file_Read 1500 f = ([], Some EOF, f)"
    using assms(1,2) healthy_use_fate [OF assms(1)] by (simp add: file_Read_def Let_def healthy_def)
  then show ?thesis using assms(3) file_SeekStart_healthy [OF assms(1)]
    by (simp add: streamStation_tick_def Let_def split: option.split)
qed

lemma stream_ticks_data:
  assumes "healthy f" and "i < length (StationList m)" and "n \<le> length (chunks (rest f))"
  shows "\<exists>k. stream_ticks n i name f m =
      Some (concat (map (to_clients m i) (take n (chunks (rest f)))), f\<lparr>offset := k\<rparr>, m) \<and>
    chunks (rest (f\<lparr>offset := k\<rparr>)) = drop n (chunks (rest f))"
  using assms
proof (induction n arbitrary: f)
  case 0
  have "f\<lparr>offset := offset f\<rparr> = f" by simp
  then show ?case by (intro exI [of _ "offset f"]) simp
next
  case (Suc n)
  then have ne: "rest f \<noteq> []" by auto
  let ?f = "f\<lparr>offset := offset f + length (take 1500 (rest f))\<rparr>"
  have r: "rest ?f = drop 1500 (rest f)"
    by (cases "length (rest f) \<le> 1500") (auto simp: rest_def add.commute)
  from Suc.IH [of ?f] Suc.prems chunks_step [OF ne] r obtain k where
    k: "stream_ticks n i name ?f m =
      Some (concat (map (to_clients m i) (take n (chunks (drop 1500 (rest f))))), ?f\<lparr>offset := k\<rparr>, m)"
      "chunks (rest (?f\<lparr>offset := k\<rparr>)) = drop n (chunks (drop 1500 (rest f)))" by auto
  show ?case
    using k tick_data [OF Suc.prems(1) ne Suc.prems(2), of name] chunks_step [OF ne]
    by (intro exI [of _ k]) simp
qed

subsection \<open>Announcements\<close>

definition queue_event :: "ServerEvent \<Rightarrow> ServerEvent chan \<Rightarrow> ServerEvent chan" where
  "queue_event ev ch = (if length (buf ch) < cap ch then ch\<lparr>buf := buf ch @ [ev]\<rparr> else ch)"

lemma announce_all_open:
  assumes "distinct cs" and "\<And>c. c \<in> set cs \<Longrightarrow> c < length (heap m) \<and> \<not> closed (EventChan (heap m ! c))"
  shows "\<exists>m'. announce_all ev cs m = Some m' \<and> CurrentClients m' = CurrentClients m \<and>
    StationList m' = StationList m \<and> length (heap m') = length (heap m) \<and>
    (\<forall>a. heap m' ! a = (if a \<in> set cs
       then (heap m ! a)\<lparr>EventChan := queue_event ev (EventChan (heap m ! a))\<rparr> else heap m ! a))"
  using assms
proof (induction cs arbitrary: m)
  case (Cons c cs)
  let ?m = "upd_client c (\<lambda>x. x\<lparr>EventChan := queue_event ev (EventChan (heap m ! c))\<rparr>) m"
  have c: "c < length (heap m)" "\<not> closed (EventChan (heap m ! c))" using Cons.prems(2) by auto
  have "chan_try_send ev (EventChan (heap m ! c)) = Some (queue_event ev (EventChan (heap m ! c)))"
    using c by (simp add: chan_try_send_def queue_event_def)
  then have step: "announce_all ev (c # cs) m = announce_all ev cs ?m" by simp
  have "\<And>d. d \<in> set cs \<Longrightarrow> d < length (heap ?m) \<and> \<not> closed (EventChan (heap ?m ! d))"
    using Cons.prems c(1) by auto
  from Cons.IH [OF _ this] Cons.prems(1) obtain m' where
    m': "announce_all ev cs ?m = Some m'" "CurrentClients m' = CurrentClients ?m"
      "StationList m' = StationList ?m" "length (heap m') = length (heap ?m)"
      "\<forall>a. heap m' ! a = (if a \<in> set cs
         then (heap ?m ! a)\<lparr>EventChan := queue_event ev (EventChan (heap ?m ! a))\<rparr> else heap ?m ! a)"
    by auto
  then show ?case using step Cons.prems(1) c(1) by auto
qed simp

lemma station_clients:
  assumes "store_inv m" and "i < length (StationList m)"
  shows "distinct (st_Clients (StationList m ! i))"
    and "c \<in> set (st_Clients (StationList m ! i)) \<Longrightarrow>
      c < length (heap m) \<and> \<not> closed (EventChan (heap m ! c)) \<and> CurrStation (heap m ! c) = int i \<and> registered m c"
proof -
  have d: "distinct (st_Clients (StationList m ! i))"
    and s: "set (st_Clients (StationList m ! i)) = {a. registered m a \<and> CurrStation (heap m ! a) = int i}"
    using store_invD(3) [OF assms(1)] assms(2) by (auto simp: stations_ok_def)
  show "distinct (st_Clients (StationList m ! i))" by (rule d)
  assume "c \<in> set (st_Clients (StationList m ! i))"
  with s store_invD(1) [OF assms(1)] show "c < length (heap m) \<and> \<not> closed (EventChan (heap m ! c)) \<and>
      CurrStation (heap m ! c) = int i \<and> registered m c"
    by (auto elim!: registeredE dest: clients_okD)
qed

text \<open>Changing the queues of open channels within their bounds changes nothing that matters.\<close>

lemma store_inv_queues:
  assumes "store_inv m" and "CurrentClients m' = CurrentClients m" and "StationList m' = StationList m"
    and "length (heap m') = length (heap m)"
    and "\<And>a. \<exists>ch. heap m' ! a = (heap m ! a)\<lparr>EventChan := ch\<rparr> \<and> closed ch = closed (EventChan (heap m ! a)) \<and>
      cap ch = cap (EventChan (heap m ! a)) \<and>
      (length (buf (EventChan (heap m ! a))) \<le> cap ch \<longrightarrow> length (buf ch) \<le> cap ch)"
  shows "store_inv m'" and "abs_store m' = abs_store m"
proof -
  have h: "ci_UDPAddr (heap m' ! a) = ci_UDPAddr (heap m ! a)" "CurrStation (heap m' ! a) = CurrStation (heap m ! a)"
    "closed (EventChan (heap m' ! a)) = closed (EventChan (heap m ! a))"
    "cap (EventChan (heap m' ! a)) = cap (EventChan (heap m ! a))"
    "length (buf (EventChan (heap m ! a))) \<le> cap (EventChan (heap m ! a)) \<Longrightarrow>
     length (buf (EventChan (heap m' ! a))) \<le> cap (EventChan (heap m ! a))" for a
    using assms(5) [of a] by auto
  have c: "clients_ok m" by (rule store_invD(1) [OF assms(1)])
  have "length (buf (EventChan (heap m' ! a))) \<le> 100" if "CurrentClients m k = Some a" for k a
  proof -
    have "cap (EventChan (heap m ! a)) = 100" "length (buf (EventChan (heap m ! a))) \<le> 100"
      using c that unfolding clients_ok_def by blast+
    with h(5) [of a] show ?thesis by simp
  qed
  with c have "clients_ok m'" unfolding clients_ok_def assms(2,4) h(1,3,4) by blast
  moreover have "range_ok m'" "stations_ok {} m'"
    using store_invD(2,3) [OF assms(1)] assms(2,3) h by (auto simp: range_ok_def stations_ok_def registered_def)
  ultimately show "store_inv m'" by (simp add: store_inv_def)
  show "abs_store m' = abs_store m" using assms(2) h by (simp add: abs_store_def)
qed

lemma announce_station:
  assumes "store_inv m" and "i < length (StationList m)"
  shows "\<exists>m'. announce_all ev (st_Clients (StationList m ! i)) m = Some m' \<and> store_inv m' \<and>
    abs_store m' = abs_store m \<and> StationList m' = StationList m \<and>
    (\<forall>a. heap m' ! a = (if a \<in> set (st_Clients (StationList m ! i))
       then (heap m ! a)\<lparr>EventChan := queue_event ev (EventChan (heap m ! a))\<rparr> else heap m ! a))"
proof -
  let ?cs = "st_Clients (StationList m ! i)"
  note sc = station_clients [OF assms]
  from announce_all_open [OF sc(1), of m ev] sc(2) obtain m' where
    m': "announce_all ev ?cs m = Some m'" "CurrentClients m' = CurrentClients m"
      "StationList m' = StationList m" "length (heap m') = length (heap m)"
      "\<And>a. heap m' ! a = (if a \<in> set ?cs
         then (heap m ! a)\<lparr>EventChan := queue_event ev (EventChan (heap m ! a))\<rparr> else heap m ! a)" by blast
  have q: "\<exists>ch. heap m' ! a = (heap m ! a)\<lparr>EventChan := ch\<rparr> \<and> closed ch = closed (EventChan (heap m ! a)) \<and>
      cap ch = cap (EventChan (heap m ! a)) \<and>
      (length (buf (EventChan (heap m ! a))) \<le> cap ch \<longrightarrow> length (buf ch) \<le> cap ch)" for a
    using m'(5) [of a] by (intro exI [of _ "EventChan (heap m' ! a)"]) (auto simp: queue_event_def)
  show ?thesis using store_inv_queues [OF assms(1) m'(2-4) q] m' by blast
qed

subsection \<open>What a station plays\<close>

text \<open>
  From the start of its file a station sends the whole file, in order, in datagrams of at most
  1500 bytes, each to every client on the station, one per tick, without changing the memory.
\<close>

theorem station_plays_file:
  assumes "healthy f" and "offset f = 0" and "i < length (StationList m)"
  shows "\<exists>ps f'. stream_ticks (length ps) i name f m = Some (concat (map (to_clients m i) ps), f', m) \<and>
    concat ps = content f \<and> (\<forall>p\<in>set ps. 0 < length p \<and> length p \<le> 1500) \<and>
    healthy f' \<and> content f' = content f \<and> rest f' = []"
proof -
  have r: "rest f = content f" using assms(2) by (simp add: rest_def)
  from stream_ticks_data [OF assms(1,3), of "length (chunks (rest f))" name] obtain k where
    k: "stream_ticks (length (chunks (rest f))) i name f m =
      Some (concat (map (to_clients m i) (chunks (rest f))), f\<lparr>offset := k\<rparr>, m)"
      "chunks (rest (f\<lparr>offset := k\<rparr>)) = []" by auto
  from k(2) have "rest (f\<lparr>offset := k\<rparr>) = []" by (metis concat.simps(1) concat_chunks)
  with k(1) assms(1) r chunks_size show ?thesis
    by (intro exI [of _ "chunks (rest f)"] exI [of _ "f\<lparr>offset := k\<rparr>"]) auto
qed

definition song :: File where
  "song = \<lparr>content = replicate 2000 7, offset = 0, opened = True, faults = sconst IOok\<rparr>"

definition one_listener :: store where
  "one_listener =
     \<lparr>heap = [\<lparr>ci_UDPAddr = \<lparr>addr_IP = ParseIP getClientIP, addr_Port = 5000\<rparr>, CurrStation = 0,
               EventChan = make_chan 100\<rparr>],
      CurrentClients = [client_key 5000 \<mapsto> 0], StationList = [\<lparr>st_Clients = [0], st_Name = ''a.mp3''\<rparr>]\<rparr>"

lemma one_listener_inv: "store_inv one_listener"
proof -
  have "\<exists>ip port. client_key 5000 = ClientKey ip port \<and>
      ci_UDPAddr (heap one_listener ! 0) = \<lparr>addr_IP = ParseIP ip, addr_Port = uint port\<rparr>"
    by (intro exI [of _ getClientIP] exI [of _ 5000]) (simp add: one_listener_def)
  then have "clients_ok one_listener"
    by (auto simp: clients_ok_def one_listener_def make_chan_def split: if_splits)
  moreover have "range_ok one_listener" "stations_ok {} one_listener"
    by (auto simp: range_ok_def stations_ok_def registered_def one_listener_def)
  ultimately show ?thesis by (simp add: store_inv_def)
qed

theorem station_plays_file_witness:
  "\<exists>ps f'. stream_ticks (length ps) 0 ''a.mp3'' song one_listener =
      Some (concat (map (to_clients one_listener 0) ps), f', one_listener) \<and> concat ps = replicate 2000 7"
  using station_plays_file [of song 0 one_listener "''a.mp3''"]
  by (auto simp: song_def healthy_def one_listener_def)

text \<open>
  C30: At the end of its file a station sends nothing, goes back to the beginning, and queues the
  announcement for exactly the clients assigned to it whose queue is not full; it never blocks and
  never panics, and the assignment of clients to stations stays as it is.
\<close>

theorem station_loops_and_announces:
  assumes "store_inv m" and "healthy f" and "rest f = []" and "i < length (StationList m)"
  shows "\<exists>m'. streamStation_tick i name f m = Some ([], f\<lparr>offset := 0\<rparr>, m') \<and>
    store_inv m' \<and> abs_store m' = abs_store m \<and>
    (\<forall>k a. CurrentClients m k = Some a \<longrightarrow>
       buf (EventChan (heap m' ! a)) =
         (if abs_store m k = Some (int i) \<and> length (buf (EventChan (heap m ! a))) < 100
          then buf (EventChan (heap m ! a)) @ [ServerEvent_Announce \<lparr>SongName = name\<rparr>]
          else buf (EventChan (heap m ! a))))"
proof -
  let ?ev = "ServerEvent_Announce \<lparr>SongName = name\<rparr>"
  let ?cs = "st_Clients (StationList m ! i)"
  from announce_station [OF assms(1,4), of ?ev] obtain m' where
    m': "announce_all ?ev ?cs m = Some m'" "store_inv m'" "abs_store m' = abs_store m"
      "\<And>a. heap m' ! a = (if a \<in> set ?cs
         then (heap m ! a)\<lparr>EventChan := queue_event ?ev (EventChan (heap m ! a))\<rparr> else heap m ! a)" by blast
  have t: "streamStation_tick i name f m = Some ([], f\<lparr>offset := 0\<rparr>, m')"
    using tick_EOF [OF assms(2-4), of name] m'(1) by simp
  have on: "a \<in> set ?cs \<longleftrightarrow> abs_store m k = Some (int i)" "cap (EventChan (heap m ! a)) = 100"
    if "CurrentClients m k = Some a" for k a
    using store_invD(1,3) [OF assms(1)] assms(4) that registeredI [OF that]
    unfolding stations_ok_def clients_ok_def by (auto simp: abs_store_def)
  show ?thesis
    using t m'(2-4) on by (auto simp: queue_event_def)
qed

theorem station_loops_and_announces_witness:
  "\<exists>m'. streamStation_tick 0 ''a.mp3'' (song\<lparr>offset := 2000\<rparr>) one_listener =
      Some ([], song\<lparr>offset := 0\<rparr>, m') \<and>
    buf (EventChan (heap m' ! 0)) = [ServerEvent_Announce \<lparr>SongName = ''a.mp3''\<rparr>]"
proof -
  have f: "healthy (song\<lparr>offset := 2000\<rparr>)" "rest (song\<lparr>offset := 2000\<rparr>) = []" "0 < length (StationList one_listener)"
    by (simp_all add: song_def healthy_def one_listener_def rest_def)
  have a: "CurrentClients one_listener (client_key 5000) = Some 0"
    "abs_store one_listener (client_key 5000) = Some (int 0)"
    "buf (EventChan (heap one_listener ! 0)) = []"
    by (simp_all add: one_listener_def abs_store_def make_chan_def)
  from station_loops_and_announces [OF one_listener_inv f, of "''a.mp3''"] obtain m' where
    "streamStation_tick 0 ''a.mp3'' (song\<lparr>offset := 2000\<rparr>) one_listener = Some ([], song\<lparr>offset := 0\<rparr>, m')"
    "buf (EventChan (heap m' ! 0)) = [ServerEvent_Announce \<lparr>SongName = ''a.mp3''\<rparr>]"
    using a by fastforce
  then show ?thesis by blast
qed

subsection \<open>The console\<close>

lemma getClientIP_String: "IP_String (ParseIP getClientIP) = getClientIP"
  by code_simp

text \<open>All clients come from this machine, which is how the request handlers register them.\<close>

definition local_clients :: "store \<Rightarrow> bool" where
  "local_clients m \<longleftrightarrow> (\<forall>k \<in> dom (CurrentClients m). \<exists>port. k = client_key port)"

lemma client_text_key:
  assumes "clients_ok m" and "local_clients m" and "CurrentClients m k = Some a"
  shows "client_text m a = '','' @ k"
proof -
  obtain port where p: "k = client_key port" using assms(2,3) by (auto simp: local_clients_def)
  have "\<exists>ip port. k = ClientKey ip port \<and>
      ci_UDPAddr (heap m ! a) = \<lparr>addr_IP = ParseIP ip, addr_Port = uint port\<rparr>"
    using assms(1,3) unfolding clients_ok_def by blast
  with p have "ci_UDPAddr (heap m ! a) = \<lparr>addr_IP = ParseIP getClientIP, addr_Port = uint port\<rparr>"
    by (auto simp: ClientKey_inject)
  then show ?thesis using p by (simp add: client_text_def ClientKey_def fmt_d_def getClientIP_String)
qed

lemma station_keys:
  assumes "store_inv m" and "local_clients m" and "i < length (StationList m)"
  shows "\<exists>ks. distinct ks \<and> set ks = {k. abs_store m k = Some (int i)} \<and>
    map (client_text m) (st_Clients (StationList m ! i)) = map ((@) '','') ks"
proof -
  let ?cs = "st_Clients (StationList m ! i)"
  note c = store_invD(1) [OF assms(1)]
  define key where "key a = (SOME k. CurrentClients m k = Some a)" for a
  have key: "CurrentClients m (key a) = Some a" if "registered m a" for a
    using that by (auto simp: key_def elim!: registeredE intro: someI)
  have reg: "registered m a" if "a \<in> set ?cs" for a using station_clients(2) [OF assms(1,3) that] by simp
  have "inj_on key (set ?cs)" using key reg by (metis inj_onI option.inject)
  then have "distinct (map key ?cs)" using station_clients(1) [OF assms(1,3)] by (simp add: distinct_map)
  moreover have "set (map key ?cs) = {k. abs_store m k = Some (int i)}"
  proof (intro set_eqI iffI)
    fix k
    assume "k \<in> set (map key ?cs)"
    then show "k \<in> {k. abs_store m k = Some (int i)}"
      using key reg station_clients(2) [OF assms(1,3)] by (auto simp: abs_store_def)
  next
    fix k
    assume "k \<in> {k. abs_store m k = Some (int i)}"
    then obtain a where a: "CurrentClients m k = Some a" "CurrStation (heap m ! a) = int i"
      by (auto simp: abs_store_def)
    then have "a \<in> set ?cs"
      using store_invD(3) [OF assms(1)] assms(3) registeredI [OF a(1)] by (auto simp: stations_ok_def)
    moreover have "key a = k" using clients_okD(3) [OF c] key [OF registeredI [OF a(1)]] a(1) by metis
    ultimately show "k \<in> set (map key ?cs)" by force
  qed
  moreover have "map (client_text m) ?cs = map ((@) '','') (map key ?cs)"
    using client_text_key [OF c assms(2) key] reg by simp
  ultimately show ?thesis by blast
qed

text \<open>
  The console's status text has one line per station, in order: the number and the name of the
  station followed by the keys of exactly the clients assigned to it, each once.
\<close>

theorem status_lists_assignment:
  assumes "store_inv m" and "local_clients m"
  shows "\<exists>ks. (\<forall>i < length (StationList m). distinct (ks i) \<and> set (ks i) = {k. abs_store m k = Some (int i)}) \<and>
    FormatStationString m =
      concat (map (\<lambda>i. dec i @ '','' @ station_names m ! i @ concat (map ((@) '','') (ks i)) @ [CHR 0x0A])
        [0..<length (StationList m)])"
proof -
  have "\<forall>i. \<exists>ks. i < length (StationList m) \<longrightarrow> distinct ks \<and> set ks = {k. abs_store m k = Some (int i)} \<and>
    map (client_text m) (st_Clients (StationList m ! i)) = map ((@) '','') ks"
    using station_keys [OF assms] by blast
  then obtain ks where ks: "\<And>i. i < length (StationList m) \<Longrightarrow>
    distinct (ks i) \<and> set (ks i) = {k. abs_store m k = Some (int i)} \<and>
    map (client_text m) (st_Clients (StationList m ! i)) = map ((@) '','') (ks i)" by metis
  have lines: "map (station_line m) [0..<length (StationList m)] =
    map (\<lambda>i. dec i @ '','' @ station_names m ! i @ concat (map ((@) '','') (ks i)) @ [CHR 0x0A])
      [0..<length (StationList m)]"
    using ks by (simp add: station_line_def station_names_def Let_def)
  show ?thesis unfolding FormatStationString_def lines using ks by blast
qed

theorem status_lists_assignment_witness:
  "local_clients one_listener \<and>
    FormatStationString one_listener = ''0,a.mp3,127.0.0.1:5000'' @ [CHR 0x0A]"
proof -
  have l: "local_clients one_listener" by (auto simp: local_clients_def one_listener_def)
  have len: "length (StationList one_listener) = 1" by (simp add: one_listener_def)
  have ab: "{k. abs_store one_listener k = Some (int 0)} = {client_key 5000}"
    by (auto simp: abs_store_def one_listener_def)
  have nm: "station_names one_listener ! 0 = ''a.mp3''" by (simp add: station_names_def one_listener_def)
  have k: "client_key 5000 = ''127.0.0.1:5000''" and d: "dec 0 = ''0''" by code_simp+
  from status_lists_assignment [OF one_listener_inv l] obtain ks where
    "distinct (ks 0)" "set (ks 0) = {client_key 5000}"
    "FormatStationString one_listener = dec 0 @ '','' @ ''a.mp3'' @ concat (map ((@) '','') (ks 0)) @ [CHR 0x0A]"
    unfolding len nm [symmetric] ab [symmetric] by auto
  moreover then have "ks 0 = [client_key 5000]"
    by (cases "ks 0"; cases "tl (ks 0)") (auto simp: insert_eq_iff)
  ultimately show ?thesis using l k d by simp
qed

lemma close_one:
  assumes "clients_ok m" and "CurrentClients m k = Some a"
    and "m1 = upd_client a (\<lambda>c. c\<lparr>EventChan := (EventChan (heap m ! a))\<lparr>closed := True\<rparr>\<rparr>) m"
    and "m2 = m1\<lparr>CurrentClients := (CurrentClients m1)(k := None)\<rparr>"
  shows "clients_ok m2"
proof -
  have al: "a < length (heap m)" by (rule clients_okD(1) [OF assms(1,2)])
  have ne: "b \<noteq> a" if "CurrentClients m k' = Some b" "k' \<noteq> k" for k' b
    using clients_okD(3) [OF assms(1,2)] that by blast
  have h: "heap m2 ! b = heap m ! b" if "b \<noteq> a" for b using that al assms(3,4) by simp
  have cc: "CurrentClients m2 = (CurrentClients m)(k := None)" "length (heap m2) = length (heap m)"
    using assms(3,4) by simp_all
  show ?thesis
    unfolding clients_ok_def cc using assms(1) ne h
    by (auto simp: clients_ok_def inj_on_def split: if_splits)
qed

lemma close_clients_ok:
  assumes "clients_ok m"
  shows "\<exists>m'. close_clients keys m = Some m' \<and> StationList m' = StationList m \<and>
    length (heap m') = length (heap m) \<and>
    CurrentClients m' = (\<lambda>k. if k \<in> set keys then None else CurrentClients m k) \<and>
    (\<forall>k a. k \<in> set keys \<longrightarrow> CurrentClients m k = Some a \<longrightarrow> closed (EventChan (heap m' ! a))) \<and>
    (\<forall>a. closed (EventChan (heap m ! a)) \<longrightarrow> closed (EventChan (heap m' ! a)))"
  using assms
proof (induction keys arbitrary: m)
  case (Cons k keys)
  show ?case
  proof (cases "CurrentClients m k")
    case None
    with Cons.IH [OF Cons.prems] show ?thesis by (fastforce simp: fun_eq_iff)
  next
    case (Some a)
    define m1 where "m1 = upd_client a (\<lambda>c. c\<lparr>EventChan := (EventChan (heap m ! a))\<lparr>closed := True\<rparr>\<rparr>) m"
    define m2 where "m2 = m1\<lparr>CurrentClients := (CurrentClients m1)(k := None)\<rparr>"
    note c = clients_okD(1,2) [OF Cons.prems Some]
    have step: "close_clients (k # keys) m = close_clients keys m2"
      using Some c by (simp add: chan_close_def m2_def m1_def Let_def)
    have h: "heap m2 ! b = (if b = a then (heap m ! a)\<lparr>EventChan := (EventChan (heap m ! a))\<lparr>closed := True\<rparr>\<rparr> else heap m ! b)"
      for b using c(1) by (simp add: m2_def m1_def)
    have f: "StationList m2 = StationList m" "length (heap m2) = length (heap m)"
      "CurrentClients m2 = (CurrentClients m)(k := None)" by (simp_all add: m2_def m1_def)
    from Cons.IH [OF close_one [OF Cons.prems Some m1_def m2_def]] obtain m' where
      m': "close_clients keys m2 = Some m'" "StationList m' = StationList m2" "length (heap m') = length (heap m2)"
        "CurrentClients m' = (\<lambda>k. if k \<in> set keys then None else CurrentClients m2 k)"
        "\<And>k a. k \<in> set keys \<Longrightarrow> CurrentClients m2 k = Some a \<Longrightarrow> closed (EventChan (heap m' ! a))"
        "\<And>a. closed (EventChan (heap m2 ! a)) \<Longrightarrow> closed (EventChan (heap m' ! a))" by blast
    have ca: "closed (EventChan (heap m' ! a))" by (rule m'(6)) (simp add: h)
    have old: "closed (EventChan (heap m' ! b))" if "closed (EventChan (heap m ! b))" for b
      using that ca by (cases "b = a") (auto intro!: m'(6) simp: h)
    have new: "closed (EventChan (heap m' ! b))" if "k' \<in> set (k # keys)" "CurrentClients m k' = Some b" for k' b
      using that ca Some m'(5) [of k' b] f(3) by (cases "k' = k") auto
    show ?thesis
      using step m'(1-4) f old new by (intro exI [of _ m']) (auto simp: fun_eq_iff)
  qed
qed simp

text \<open>
  The command q, in whatever order it meets the clients, closes the event channel of every
  connected client without a panic, forgets all clients, stops the server and ends the process;
  the following lines of the input are not read.
\<close>

theorem quit_closes_everything:
  assumes "store_inv m" and "set order = dom (CurrentClients m)"
  shows "\<exists>m'. HandleUserInput order (''q'' # ls) (Some s, m) = Some ([Exit], Exited, Stop (Some s), m') \<and>
    CurrentClients m' = Map.empty \<and>
    (\<forall>k a. CurrentClients m k = Some a \<longrightarrow> closed (EventChan (heap m' ! a))) \<and>
    (\<exists>s'. Stop (Some s) = Some s' \<and> stopped s')"
proof -
  have w: "Fields (TrimSpace ''q'') = [''q'']" by code_simp
  from close_clients_ok [OF store_invD(1) [OF assms(1)], of order] obtain m' where
    m': "close_clients order m = Some m'"
      "CurrentClients m' = (\<lambda>k. if k \<in> set order then None else CurrentClients m k)"
      "\<And>k a. k \<in> set order \<Longrightarrow> CurrentClients m k = Some a \<Longrightarrow> closed (EventChan (heap m' ! a))" by blast
  have "CurrentClients m' = Map.empty" using m'(2) assms(2) by (auto simp: fun_eq_iff)
  moreover have "closed (EventChan (heap m' ! a))" if "CurrentClients m k = Some a" for k a
    using m'(3) [OF _ that] assms(2) that by auto
  moreover have "HandleUserInput order (''q'' # ls) (Some s, m) = Some ([Exit], Exited, Stop (Some s), m')"
    using m'(1) w by (simp add: handle_line_def Let_def)
  ultimately show ?thesis by (auto simp: Stop_def)
qed

theorem quit_closes_everything_witness:
  "\<forall>s. \<exists>m'. HandleUserInput [client_key 5000] [''q'', ''p''] (Some s, one_listener) =
      Some ([Exit], Exited, Stop (Some s), m') \<and> closed (EventChan (heap m' ! 0))"
proof
  fix s
  have "set [client_key 5000] = dom (CurrentClients one_listener)" by (auto simp: one_listener_def)
  from quit_closes_everything [OF one_listener_inv this, of "[''p'']" s] obtain m' where
    m': "HandleUserInput [client_key 5000] [''q'', ''p''] (Some s, one_listener) =
        Some ([Exit], Exited, Stop (Some s), m')"
      "\<And>k a. CurrentClients one_listener k = Some a \<Longrightarrow> closed (EventChan (heap m' ! a))" by blast
  have "closed (EventChan (heap m' ! 0))" by (rule m'(2) [of "client_key 5000"]) (simp add: one_listener_def)
  with m'(1) show "\<exists>m'. HandleUserInput [client_key 5000] [''q'', ''p''] (Some s, one_listener) =
      Some ([Exit], Exited, Stop (Some s), m') \<and> closed (EventChan (heap m' ! 0))" by blast
qed

text \<open>
  The command q leaves the stations' own lists as they are, so a station that reaches the end
  of its file after q, while the server still waits for its streams to end, sends on a closed
  channel: its goroutine panics.
\<close>

theorem announce_after_quit_panics:
  assumes "store_inv m" and "set order = dom (CurrentClients m)"
    and "i < length (StationList m)" and "st_Clients (StationList m ! i) \<noteq> []"
    and "healthy f" and "rest f = []"
  shows "\<exists>m'. close_clients order m = Some m' \<and> streamStation_tick i name f m' = None"
proof -
  obtain c cs where cs: "st_Clients (StationList m ! i) = c # cs" using assms(4) by (cases "st_Clients (StationList m ! i)") auto
  then have "registered m c" using station_clients(2) [OF assms(1,3)] by simp
  then obtain k where k: "CurrentClients m k = Some c" by (rule registeredE)
  from close_clients_ok [OF store_invD(1) [OF assms(1)], of order] obtain m' where
    m': "close_clients order m = Some m'" "StationList m' = StationList m"
      "\<And>k a. k \<in> set order \<Longrightarrow> CurrentClients m k = Some a \<Longrightarrow> closed (EventChan (heap m' ! a))" by blast
  have "closed (EventChan (heap m' ! c))" using m'(3) [OF _ k] assms(2) k by auto
  then have "announce_all ev (c # cs) m' = None" for ev by (simp add: chan_try_send_def)
  with m'(1,2) cs assms(3) tick_EOF [OF assms(5,6), of i m' name] show ?thesis by auto
qed

theorem announce_after_quit_panics_witness:
  "\<exists>m'. close_clients [client_key 5000] one_listener = Some m' \<and>
    streamStation_tick 0 ''a.mp3'' (song\<lparr>offset := 2000\<rparr>) m' = None"
proof -
  have "set [client_key 5000] = dom (CurrentClients one_listener)" "0 < length (StationList one_listener)"
    "st_Clients (StationList one_listener ! 0) \<noteq> []" "healthy (song\<lparr>offset := 2000\<rparr>)"
    "rest (song\<lparr>offset := 2000\<rparr>) = []"
    by (auto simp: one_listener_def song_def healthy_def rest_def)
  from announce_after_quit_panics [OF one_listener_inv this] show ?thesis .
qed

end
