(* ===== verification/Node_Props.thy ===== *)
theory Node_Props
  imports Node Runtime_Props
begin

section \<open>Properties of the roles\<close>

text \<open>
  The roles as a step relation, the invariant that a node accepts replication and clients at the
  same time only when its lease is lost during a promotion, and what a takeover restores. The last
  part follows the takeover with a peer, whose second replay of the log always fails when a client
  is connected.
\<close>

subsection \<open>One role at a time\<close>

text \<open>
  The steps of a running node: its own functions, inbound calls, and what the outside does to etcd
  and to the other node between them. A promotion is three steps, between which inbound calls and
  the outside run, and the goroutine that keeps the lease already runs after the first; whether the
  loss of the lease may fall into a promotion is the parameter \<open>overlap\<close>. A demotion is one step.
\<close>

datatype promotion = Idle | Claimed Session | Stopped Session

type_synonym 'e running = "node \<times> bool \<times> 'e \<times> promotion"

inductive node_step :: "codec \<Rightarrow> 'e etcd \<Rightarrow> bool \<Rightarrow> 'e running \<Rightarrow> 'e running \<Rightarrow> bool" for C E overlap where
  standby: "RunAsStandby listens n = (None, n') \<Longrightarrow> role n = roleStandby \<Longrightarrow> clientSrv n = None \<Longrightarrow>
     node_step C E overlap (n, seen, e, Idle) (n', False, e, Idle)"
| lead: "RunAsLeader C E env e n = Some (r, n', e') \<Longrightarrow> role n = roleStandby \<Longrightarrow> replServer n = None \<Longrightarrow>
     node_step C E overlap (n, seen, e, Idle) (n', seen, e', Idle)"
| poll: "poll_acquire E seen n e = Inl (p, seen', e') \<Longrightarrow>
     node_step C E overlap (n, seen, e, Idle) (n, seen', e', Idle)"
| claim: "poll_acquire E seen n e = Inr (s, e') \<Longrightarrow>
     node_step C E overlap (n, seen, e, Idle) (promote_claim s n, seen, e', Claimed s)"
| stop: "node_step C E overlap (n, seen, e, Claimed s) (promote_stop n, seen, e, Stopped s)"
| serve: "promote_serve C env n = Some (r, n') \<Longrightarrow> e' = (case r of Returns (Some _) \<Rightarrow> snd (Revoke E s e) | _ \<Rightarrow> e) \<Longrightarrow>
     node_step C E overlap (n, seen, e, Stopped s) (n', seen, e', Idle)"
| lose: "demoteToStandby listens n = (Returns None, n') \<Longrightarrow> overlap \<or> st = Idle \<Longrightarrow>
     node_step C E overlap (n, seen, e, st) (n', False, e, st)"
| receive: "inbound C req n = Some (r, n') \<Longrightarrow> node_step C E overlap (n, seen, e, st) (n', seen, e, st)"
| outside: "node_step C E overlap (n, seen, e, st) (n\<lparr>proc := (proc n)\<lparr>peer := b\<rparr>\<rparr>, seen, e', st)"

inductive node_reach :: "codec \<Rightarrow> 'e etcd \<Rightarrow> bool \<Rightarrow> 'e running \<Rightarrow> 'e running \<Rightarrow> bool" for C E overlap where
  start: "node_reach C E overlap s s"
| step: "node_reach C E overlap s s' \<Longrightarrow> node_step C E overlap s' s'' \<Longrightarrow> node_reach C E overlap s s''"

definition one_role :: "node \<Rightarrow> bool" where
  "one_role n \<longleftrightarrow>
     (role n = roleStandby \<longrightarrow> clientSrv n = None) \<and> (role n = roleLeader \<longrightarrow> replServer n = None)"

lemma startKeepalive_simps [simp]:
  "role (startKeepalive n) = role n" "clientSrv (startKeepalive n) = clientSrv n"
  "replServer (startKeepalive n) = replServer n" "proc (startKeepalive n) = proc n" "cfg (startKeepalive n) = cfg n"
  by (auto simp: startKeepalive_def stopKeepalive_def Let_def split: option.split)

lemma startRepl_simps:
  assumes "startReplServerWithRetry listens n = (r, n')"
  shows "role n' = role n \<and> clientSrv n' = clientSrv n \<and> proc n' = proc n"
  using assms by (auto simp: startReplServerWithRetry_def split: sum.splits)

lemmas promote_defs = promoteToLeader_def promote_claim_def promote_stop_def promote_serve_def

text \<open>Up to the start of the client server the promotion leaves the servers alone.\<close>

lemma serve_role:
  assumes "promote_serve C env n = Some (r, n')"
  shows "role n' = role n" "replServer n' = replServer n" "r \<noteq> BlocksForever \<Longrightarrow> clientSrv n' = clientSrv n"
  using assms by (auto simp: promote_serve_def Let_def split: prod.splits sum.splits option.splits Option.bind_splits)

lemma promote_error:
  assumes "promoteToLeader C env s n = Some (Returns (Some err), n')" and "role n = roleStandby" and "clientSrv n = None"
  shows "role n' = roleLeader \<and> replServer n' = None \<and> clientSrv n' = None"
  using assms serve_role [of C env "promote_stop (promote_claim s n)" "Returns (Some err)" n']
  by (simp add: promoteToLeader_def promote_claim_def promote_stop_def)

lemma lead_role:
  assumes "RunAsLeader C E env e n = Some (r, n', e')" and "role n = roleStandby" and "replServer n = None"
    and "one_role n"
  shows "one_role n'"
  using assms by (auto simp: RunAsLeader_def Let_def one_role_def
      split: prod.splits sum.splits option.splits Option.bind_splits)

lemma demote_role:
  assumes "demoteToStandby listens n = (r, n')" and "one_role n"
  shows "one_role n'" and "role n' = roleStandby"
  using assms by (auto simp: demoteToStandby_def Let_def stopKeepalive_def one_role_def
      split: if_splits prod.splits option.splits dest!: startRepl_simps)

text \<open>Where the servers stand, during a promotion and between promotions.\<close>

fun roles_ok :: "'e running \<Rightarrow> bool" where
  "roles_ok (n, seen, e, Idle) \<longleftrightarrow> one_role n"
| "roles_ok (n, seen, e, Claimed s) \<longleftrightarrow> role n = roleLeader \<and> clientSrv n = None"
| "roles_ok (n, seen, e, Stopped s) \<longleftrightarrow> role n = roleLeader \<and> clientSrv n = None \<and> replServer n = None"

lemma acquire_role: "poll_acquire E seen n e = Inr (s, e') \<Longrightarrow> role n = roleStandby"
  by (cases "role n") (simp_all add: poll_acquire_def)

lemma step_role: "node_step C E overlap x x' \<Longrightarrow> \<not> overlap \<Longrightarrow> roles_ok x \<Longrightarrow> roles_ok x'"
proof (induction rule: node_step.induct)
  case (standby listens n n' seen e)
  then show ?case by (auto simp: RunAsStandby_def one_role_def dest: startRepl_simps)
next
  case (claim seen n e s e')
  then show ?case using acquire_role [OF claim.hyps] by (simp add: one_role_def promote_claim_def)
next
  case (serve env n r n' e' s e seen)
  then show ?case using serve_role [OF serve.hyps(1)] by (simp add: one_role_def)
next
  case (receive req n r n' seen e st)
  then show ?case by (cases st) (auto simp: inbound_def one_role_def split: option.splits prod.splits)
next
  case (outside n seen e st b e')
  then show ?case by (cases st) (simp_all add: one_role_def)
qed (auto simp: promote_stop_def intro: lead_role demote_role(1))

text \<open>
  C6: In every run of a node from its creation, through taking over and stepping down any number of
  times, in which promotions and demotions do not overlap (the lease is not lost while a promotion
  is under way, and no promotion begins before a demotion has its replication server), the node never
  runs the replication server and the client server at the same time: only one of the two writes its
  log. Inbound calls, etcd and the other node run between the steps of a promotion too.
\<close>

theorem never_both_roles:
  assumes "New C c disk fs dial other = Inr n" and "node_reach C E False (n, False, e, Idle) (n', seen, e', st)"
  shows "replServer n' = None \<or> clientSrv n' = None"
proof -
  have "roles_ok (n, False, e, Idle)" using assms(1) by (auto simp: New_def Let_def one_role_def split: sum.splits option.splits)
  moreover have "roles_ok x \<Longrightarrow> roles_ok x'" if "node_reach C E False x x'" for x x'
    using that by (induction rule: node_reach.induct) (auto dest: step_role)
  ultimately have "roles_ok (n', seen, e', st)" using assms(2) by blast
  then show ?thesis by (cases st; cases "role n'") (auto simp: one_role_def)
qed

theorem never_both_roles_witness:
  "\<exists>n n' e'. New wire_codec
      \<lparr>EtcdEndpoints = ''127.0.0.1:2379'', EtcdKey = '''', LeaseTTL = 0, LeasePoll = 0, ClientPort = ''16900'', ReplPort = ''16801'',
       BackupAddr = '''', WalPath = ''w'', Files = [''a.mp3'']\<rparr>
      Map.empty (sconst IOok) None fresh_backup = Inr n \<and>
    node_reach wire_codec mem_etcd False (n, False, (0, []), Idle) (n', False, e', Idle) \<and> replServer n' \<noteq> None \<and>
    (replServer n' = None \<or> clientSrv n' = None)"
proof -
  let ?c = "\<lparr>EtcdEndpoints = ''127.0.0.1:2379'', EtcdKey = '''', LeaseTTL = 0, LeasePoll = 0, ClientPort = ''16900'', ReplPort = ''16801'',
       BackupAddr = '''', WalPath = ''w'', Files = [''a.mp3'']\<rparr>"
  obtain l where "Open wire_codec ''w'' Map.empty (sconst IOok) = Inr l"
    using Open_decode [OF wire_codec_ok, of "[]" "[]" Map.empty "''w''"] by auto
  then obtain n where n: "New wire_codec ?c Map.empty (sconst IOok) None fresh_backup = Inr n"
    "role n = roleStandby" "clientSrv n = None"
    by (auto simp: New_def Let_def)
  obtain n' where n': "RunAsStandby [None] n = (None, n')" "replServer n' \<noteq> None"
    by (simp add: RunAsStandby_def startReplServerWithRetry_def StartReplServer_def)
  from node_step.standby [OF n'(1) n(2,3)] have
    r: "node_reach wire_codec mem_etcd False (n, False, (0, []), Idle) (n', False, (0, []), Idle)"
    by (rule node_reach.step [OF node_reach.start])
  from never_both_roles [OF n(1) r] n(1) r n'(2) show ?thesis by blast
qed

subsection \<open>Taking over restores the assignment\<close>

lemma take_over_replay:
  assumes "CurrentClients m0 = Map.empty" and "\<And>e. e \<in> set es \<Longrightarrow> entry_valid (length files) e"
    and "a_replay es Map.empty = Some m"
  shows "\<exists>m1. replay pre es (InitStations files m0) = Some (None, m1) \<and> store_inv m1 \<and> abs_store m1 = m \<and>
    station_names m1 = files"
proof -
  note i = InitStations_inv [OF assms(1), of files]
  have n: "station_names (InitStations files m0) = files" by (simp add: station_names_def InitStations_def comp_def)
  from replay_applies [of "InitStations files m0" es m pre] i n assms(2,3) show ?thesis by auto
qed

lemma Serve_ok:
  "Serve None None None files repl =
     Inr \<lparr>rt_control = \<lparr>srv_NumStations = int (length files), Repl = repl\<rparr>,
          grpc_stopped = False, udp_open = True, stopped = False\<rparr>"
  by (simp add: Serve_def)

text \<open>No peer answers at the address a node would replicate to, or it has none.\<close>

definition no_peer :: "takeover \<Rightarrow> node \<Rightarrow> bool" where
  "no_peer env n \<longleftrightarrow>
     BackupAddr (cfg n) = '''' \<or> (\<exists>err. dialBackup (BackupAddr (cfg n)) (t_rounds env) (peer (proc n)) = Inl err)"

lemma serve_alone:
  assumes "wal_ok C (p_wal (proc n))" and "CurrentClients (mem (proc n)) = Map.empty"
    and "\<forall>e \<in> set (entries C (p_wal (proc n))). entry_valid (length (Files (cfg n))) e"
    and "a_replay (entries C (p_wal (proc n))) Map.empty = Some m" and "no_peer env n"
    and "t_resolve env = None" and "t_udp env = None" and "t_tcp env = None"
  shows "\<exists>n' srv. promote_serve C env n = Some (BlocksForever, n') \<and> role n' = role n \<and>
    replServer n' = replServer n \<and> clientSrv n' = Some srv \<and> Repl (rt_control srv) = Local_ReplicateAndWait C \<and>
    store_inv (mem (proc n')) \<and> abs_store (mem (proc n')) = m \<and>
    station_names (mem (proc n')) = Files (cfg n) \<and> p_wal (proc n') = p_wal (proc n)"
proof -
  from take_over_replay [of "mem (proc n)" "entries C (p_wal (proc n))" "Files (cfg n)" m "''apply wal seq ''"] assms(2-4)
  obtain m1 where m1: "replay ''apply wal seq '' (entries C (p_wal (proc n)))
      (InitStations (Files (cfg n)) (mem (proc n))) = Some (None, m1)"
    "store_inv m1" "abs_store m1 = m" "station_names m1 = Files (cfg n)" by auto
  then show ?thesis
    using assms(5-8) ReadAll_ok [OF assms(1)]
    by (auto simp: promote_serve_def Let_def Serve_ok no_peer_def StartWithWalTimeout_def startWithWal_def)
qed

lemma promote_alone:
  assumes "role n = roleStandby" and "wal_ok C (p_wal (proc n))" and "CurrentClients (mem (proc n)) = Map.empty"
    and "\<forall>e \<in> set (entries C (p_wal (proc n))). entry_valid (length (Files (cfg n))) e"
    and "a_replay (entries C (p_wal (proc n))) Map.empty = Some m" and "no_peer env n"
    and "t_resolve env = None" and "t_udp env = None" and "t_tcp env = None"
  shows "\<exists>n' srv. promoteToLeader C env s n = Some (BlocksForever, n') \<and> role n' = roleLeader \<and>
    replServer n' = None \<and> clientSrv n' = Some srv \<and> Repl (rt_control srv) = Local_ReplicateAndWait C \<and>
    store_inv (mem (proc n')) \<and> abs_store (mem (proc n')) = m \<and>
    station_names (mem (proc n')) = Files (cfg n) \<and> p_wal (proc n') = p_wal (proc n)"
  using serve_alone [of C "promote_stop (promote_claim s n)" m env] assms
  by (simp add: promoteToLeader_def promote_claim_def promote_stop_def no_peer_def)

text \<open>
  A standby that takes over and finds no peer rebuilds from its log exactly the assignment that
  the log's entries describe, stops accepting replication, and serves with the local coordinator.
\<close>

theorem take_over_restores:
  assumes "role n = roleStandby" and "wal_ok C (p_wal (proc n))" and "CurrentClients (mem (proc n)) = Map.empty"
    and "\<forall>e \<in> set (entries C (p_wal (proc n))). entry_valid (length (Files (cfg n))) e"
    and "a_replay (entries C (p_wal (proc n))) Map.empty = Some m" and "no_peer env n"
    and "t_resolve env = None" and "t_udp env = None" and "t_tcp env = None"
  shows "\<exists>n' srv. promoteToLeader C env s n = Some (BlocksForever, n') \<and> role n' = roleLeader \<and>
    replServer n' = None \<and> clientSrv n' = Some srv \<and> Repl (rt_control srv) = Local_ReplicateAndWait C \<and>
    store_inv (mem (proc n')) \<and> abs_store (mem (proc n')) = m \<and>
    station_names (mem (proc n')) = Files (cfg n) \<and> p_wal (proc n') = p_wal (proc n)"
  using promote_alone [OF assms] .

definition standby_node :: "string \<Rightarrow> node" where
  "standby_node addr =
     \<lparr>cfg = \<lparr>EtcdEndpoints = ''127.0.0.1:2379'', EtcdKey = DefaultKey, LeaseTTL = 5, LeasePoll = 1, ClientPort = ''16900'', ReplPort = ''16801'',
             BackupAddr = addr, WalPath = ''b'', Files = [''a.mp3'']\<rparr>,
      role = roleStandby, replServer = None, clientSrv = None, session = None, keepCancel = False,
      proc = \<lparr>coord = \<lparr>conn = None, lastWalSeq = 0\<rparr>, p_wal = new_log ''b'', mem = initial_store, peer = fresh_backup\<rparr>\<rparr>"

definition calm :: takeover where
  "calm = \<lparr>t_rounds = [Dialled (sconst Delivered)], t_resolve = None, t_udp = None, t_tcp = None\<rparr>"

definition some_session :: Session where
  "some_session = \<lparr>leaseID = 7, sess_key = DefaultKey, sess_value = ''127.0.0.1:16900'', onLost = False\<rparr>"

theorem take_over_restores_witness:
  "\<exists>n' srv. promoteToLeader wire_codec calm some_session (standby_node '''') = Some (BlocksForever, n') \<and>
    clientSrv n' = Some srv \<and> abs_store (mem (proc n')) = Map.empty"
  using take_over_restores [of "standby_node ''''" wire_codec Map.empty calm some_session]
  by (auto simp: standby_node_def calm_def wire_codec_ok initial_store_def a_replay_def no_peer_def)

subsection \<open>Replaying a log twice\<close>

fun op_key :: "WalOp \<Rightarrow> string" where
  "op_key (WalEntry_Handshake op) = ClientKey (hs_ClientIp op) (hs_UdpPort op)"
| "op_key (WalEntry_SetStation op) = ClientKey (ss_ClientIp op) (ss_UdpPort op)"
| "op_key (WalEntry_Disconnect op) = ClientKey (dc_ClientIp op) (dc_UdpPort op)"

lemma a_apply_other_key: "a_apply p m = Some m' \<Longrightarrow> k \<noteq> op_key p \<Longrightarrow> m' k = m k"
  by (cases p) (auto simp: Let_def split: if_splits)

lemma a_apply_same_key: "a_apply p m1 = Some m1' \<Longrightarrow> a_apply p m2 = Some m2' \<Longrightarrow>
    (m1 (op_key p) = None) = (m2 (op_key p) = None)"
  by (cases p) (auto simp: Let_def split: if_splits)

lemma replay_from_both:
  assumes "a_run a_entry es m1 = Some m1'" and "a_run a_entry es m2 = Some m2'" and "m1 k = None" and "m2 k \<noteq> None"
  shows "m1' k = None"
  using assms
proof (induction es arbitrary: m1 m2)
  case (Cons e es)
  then obtain n1 n2 where e: "a_entry e m1 = Some n1" "a_entry e m2 = Some n2"
    and r: "a_run a_entry es n1 = Some m1'" "a_run a_entry es n2 = Some m2'"
    by (auto split: option.splits)
  from e obtain p where n: "a_apply p m1 = Some n1" "a_apply p m2 = Some n2"
    by (auto simp: a_entry_def split: option.splits)
  have "k \<noteq> op_key p" using a_apply_same_key [OF n] Cons.prems(3,4) by auto
  with Cons.IH [OF r] a_apply_other_key [OF n(1)] a_apply_other_key [OF n(2)] Cons.prems(3,4) show ?case by simp
qed simp

lemma second_replay_fails:
  assumes "a_replay es Map.empty = Some m" and "m \<noteq> Map.empty"
  shows "a_replay es m = None"
proof (rule ccontr)
  assume "a_replay es m \<noteq> None"
  then obtain m' where m': "a_replay es m = Some m'" by blast
  from assms(2) obtain k where k: "m k \<noteq> None" by (auto simp: fun_eq_iff)
  from replay_from_both [OF assms(1) [unfolded a_replay_def] m' [unfolded a_replay_def] _ k] k show False by simp
qed

lemma start_on_live_memory_fails:
  assumes "wal_ok C (p_wal w)" and "store_inv (mem w)" and "abs_store (mem w) = m" and "m \<noteq> Map.empty"
    and "\<forall>e \<in> set (entries C (p_wal w)). entry_valid (length (StationList (mem w))) e"
    and "a_replay (entries C (p_wal w)) Map.empty = Some m"
  shows "\<exists>err w'. startWithWal C addr rounds w = Some (Some err, w') \<and> store_inv (mem w') \<and>
    station_names (mem w') = station_names (mem w) \<and> p_wal w' = p_wal w"
proof (cases "dialBackup addr rounds (peer w)")
  case (Inl err)
  with assms(2) show ?thesis by (simp add: startWithWal_def)
next
  case (Inr fates)
  let ?w0 = "w\<lparr>coord := \<lparr>conn = Some fates, lastWalSeq = 0\<rparr>\<rparr>"
  have "a_replay (entries C (p_wal w)) (abs_store (mem w)) = None"
    using second_replay_fails [OF assms(6,4)] assms(3) by simp
  from replay_refuses [OF assms(2) _ this, of "''recover seq ''"] assms(5) obtain err m' where
    r: "replay ''recover seq '' (entries C (p_wal w)) (mem w) = Some (Some err, m')" "store_inv m'"
      "station_names m' = station_names (mem w)" by (auto simp: station_names_def)
  have "recoverPrimary C ?w0 = Some (Some err, ?w0\<lparr>mem := m'\<rparr>)"
    using recoverPrimary_ok [of C ?w0 "Some err" m'] assms(1) r(1) by simp
  with Inr r(2,3) show ?thesis by (simp add: startWithWal_def Let_def)
qed

text \<open>
  C38: A standby that takes over while at least one client is connected never replicates to its
  peer, however well the peer can be reached: after the takeover has replayed the log, starting
  the coordinator replays it a second time onto the rebuilt memory, which always fails, and the
  node falls back to the local coordinator.
\<close>

theorem take_over_never_replicates:
  assumes "role n = roleStandby" and "wal_ok C (p_wal (proc n))" and "CurrentClients (mem (proc n)) = Map.empty"
    and "\<forall>e \<in> set (entries C (p_wal (proc n))). entry_valid (length (Files (cfg n))) e"
    and "a_replay (entries C (p_wal (proc n))) Map.empty = Some m" and "m \<noteq> Map.empty"
    and "t_resolve env = None" and "t_udp env = None" and "t_tcp env = None"
  shows "\<exists>n' srv. promoteToLeader C env s n = Some (BlocksForever, n') \<and> clientSrv n' = Some srv \<and>
    Repl (rt_control srv) = Local_ReplicateAndWait C"
proof (cases "BackupAddr (cfg n) = ''''")
  case True
  then have "no_peer env n" by (simp add: no_peer_def)
  from promote_alone [OF assms(1-5) this assms(7-9)] show ?thesis by blast
next
  case False
  from take_over_replay [of "mem (proc n)" "entries C (p_wal (proc n))" "Files (cfg n)" m "''apply wal seq ''"] assms(3-5)
  obtain m1 where m1: "replay ''apply wal seq '' (entries C (p_wal (proc n)))
      (InitStations (Files (cfg n)) (mem (proc n))) = Some (None, m1)"
    "store_inv m1" "abs_store m1 = m" "station_names m1 = Files (cfg n)" by auto
  let ?w = "(proc n)\<lparr>mem := m1\<rparr>"
  have len: "length (StationList m1) = length (Files (cfg n))" using m1(4) by (metis length_map station_names_def)
  obtain err w' where "startWithWal C (BackupAddr (cfg n)) (t_rounds env) ?w = Some (Some err, w')"
    using start_on_live_memory_fails [of C ?w m "BackupAddr (cfg n)" "t_rounds env"] assms(2,4-6) m1 len by auto
  then show ?thesis
    using assms(1,7-9) ReadAll_ok [OF assms(2)] m1(1) False
    by (simp add: promote_defs Let_def Serve_ok StartWithWalTimeout_def)
qed

text \<open>A node that stands by for a pair whose log holds one connected client.\<close>

lemma client_node:
  obtains n :: node where "role n = roleStandby" "wal_ok wire_codec (p_wal (proc n))"
    "CurrentClients (mem (proc n)) = Map.empty" "Files (cfg n) = [''a.mp3'']"
    "BackupAddr (cfg n) = ''127.0.0.1:16802''" "replServer n = None" "clientSrv n = None"
    "entries wire_codec (p_wal (proc n)) = [handshake_entry 5000\<lparr>Seq := 1\<rparr>]"
proof -
  let ?e = "handshake_entry 5000\<lparr>Seq := 1\<rparr>"
  have "storable wire_codec ?e" by (simp add: handshake_entry_def getClientIP_def)
  from walstore.append_replicated [OF new_log_ok [OF wire_codec_ok] _ this, of "''b''"] obtain l where
    l: "wal_ok wire_codec l" "entries wire_codec l = [?e]" by auto
  let ?n = "(standby_node ''127.0.0.1:16802'')\<lparr>proc := (proc (standby_node ''''))\<lparr>p_wal := l\<rparr>\<rparr>"
  show thesis by (rule that [of ?n]) (use l in \<open>simp_all add: standby_node_def initial_store_def\<close>)
qed

theorem take_over_never_replicates_witness:
  "\<exists>n n' srv. BackupAddr (cfg n) = ''127.0.0.1:16802'' \<and>
    promoteToLeader wire_codec calm some_session n = Some (BlocksForever, n') \<and>
    clientSrv n' = Some srv \<and> Repl (rt_control srv) = Local_ReplicateAndWait wire_codec"
proof -
  obtain n :: node where n: "role n = roleStandby" "wal_ok wire_codec (p_wal (proc n))"
    "CurrentClients (mem (proc n)) = Map.empty" "Files (cfg n) = [''a.mp3'']"
    "BackupAddr (cfg n) = ''127.0.0.1:16802''"
    "entries wire_codec (p_wal (proc n)) = [handshake_entry 5000\<lparr>Seq := 1\<rparr>]" by (rule client_node)
  have v: "\<forall>e \<in> set (entries wire_codec (p_wal (proc n))). entry_valid (length (Files (cfg n))) e"
    using n(6) by (simp add: entry_valid_def handshake_entry_def)
  have a: "a_replay (entries wire_codec (p_wal (proc n))) Map.empty = Some [client_key 5000 \<mapsto> -1]"
    using n(6) by (simp add: a_replay_def a_entry_def handshake_entry_def Let_def)
  have "[client_key 5000 \<mapsto> - 1 :: int] \<noteq> Map.empty" by simp
  from take_over_never_replicates [OF n(1-3) v a this, of calm some_session] n(5) show ?thesis
    by (auto simp: calm_def)
qed

text \<open>
  The second replay is not harmless when it fails: after the entries (connect a, connect b,
  disconnect a) the memory has only b, and the second replay registers a again before it fails, a
  client that no longer exists and that no entry of the log accounts for.
\<close>

theorem second_replay_leaves_ghost:
  "\<exists>m1 m2 err.
    replay ''apply wal seq '' [handshake_entry 5000\<lparr>Seq := 1\<rparr>, handshake_entry 5001\<lparr>Seq := 2\<rparr>, disconnect_entry 5000\<lparr>Seq := 3\<rparr>]
      (InitStations [''a.mp3''] initial_store) = Some (None, m1) \<and>
    abs_store m1 = [client_key 5001 \<mapsto> -1] \<and>
    replay ''recover seq '' [handshake_entry 5000\<lparr>Seq := 1\<rparr>, handshake_entry 5001\<lparr>Seq := 2\<rparr>, disconnect_entry 5000\<lparr>Seq := 3\<rparr>]
      m1 = Some (Some err, m2) \<and>
    abs_store m2 = [client_key 5001 \<mapsto> -1, client_key 5000 \<mapsto> -1]"
proof -
  let ?es = "[handshake_entry 5000\<lparr>Seq := 1\<rparr>, handshake_entry 5001\<lparr>Seq := 2\<rparr>, disconnect_entry 5000\<lparr>Seq := 3\<rparr>]"
  have ne: "client_key 5000 \<noteq> client_key 5001" by (simp add: ClientKey_inject)
  have v: "\<And>e. e \<in> set ?es \<Longrightarrow> entry_valid (length [''a.mp3'']) e"
    by (auto simp: entry_valid_def handshake_entry_def disconnect_entry_def)
  have a: "a_replay ?es Map.empty = Some [client_key 5001 \<mapsto> -1]"
    using ne by (auto simp: a_replay_def a_entry_def handshake_entry_def disconnect_entry_def Let_def)
  obtain m1 where m1: "replay ''apply wal seq '' ?es (InitStations [''a.mp3''] initial_store) = Some (None, m1)"
    "store_inv m1" "abs_store m1 = [client_key 5001 \<mapsto> -1]" "station_names m1 = [''a.mp3'']"
    using take_over_replay [OF _ v a, of initial_store "''apply wal seq ''"] by (auto simp: initial_store_def)
  have "CurrentClients m1 (client_key 5000) = None"
    using m1(3) ne by (metis abs_store_None fun_upd_apply)
  from ApplyHandshake_ok [OF m1(2) this] obtain m2 where
    m2: "ApplyHandshake getClientIP 5000 m1 = (Inr (client_key 5000), m2)"
      "abs_store m2 = [client_key 5001 \<mapsto> -1, client_key 5000 \<mapsto> -1]" using m1(3) by auto
  have "CurrentClients m2 (client_key 5001) \<noteq> None"
    using m2(2) ne by (metis abs_store_None fun_upd_apply option.distinct(1))
  then obtain a where "CurrentClients m2 (client_key 5001) = Some a" by auto
  then have "\<exists>err. replay ''recover seq '' ?es m1 = Some (Some err, m2)"
    using m2(1) by (simp add: ApplyWalEntry_def handshake_entry_def ApplyHandshake_def [of getClientIP 5001])
  with m1 m2 show ?thesis by blast
qed

subsection \<open>The standby's loop\<close>

text \<open>
  A standby that has not yet seen a primary never tries to become one: its round changes
  nothing on the node, and asks etcd only for the current primary.
\<close>

theorem standby_waits_for_primary:
  assumes "role n = roleStandby"
  shows "\<exists>seen. poll_round C E env False n e = Some (GoOn, seen, n, snd (GetPrimary E (EtcdKey (cfg n)) e)) \<and>
    (seen \<longleftrightarrow> (\<exists>v. fst (GetPrimary E (EtcdKey (cfg n)) e) = Inr (Some v)))"
  using assms by (auto simp: poll_round_def poll_acquire_def split: prod.split sum.split option.split)

theorem standby_waits_for_primary_witness:
  "\<exists>seen. poll_round wire_codec mem_etcd calm False (standby_node '''') (0, []) =
      Some (GoOn, seen, standby_node '''', (0, [])) \<and> \<not> seen"
proof -
  have "GetPrimary mem_etcd DefaultKey (0, []) = (Inr None, (0, []))" by (simp add: GetPrimary_def mem_etcd_def)
  with standby_waits_for_primary [of "standby_node ''''" wire_codec mem_etcd calm "(0, [])"] show ?thesis
    by (simp add: standby_node_def)
qed

text \<open>
  A takeover that fails leaves the node marked as leader with neither server running, and the
  next round of its loop ends the loop: the node is lost for the pair although its process runs.
\<close>

theorem failed_take_over_strands:
  assumes "role n = roleStandby" and "clientSrv n = None"
    and "promoteToLeader C env s n = Some (Returns (Some err), n')"
  shows "replServer n' = None \<and> clientSrv n' = None \<and>
    poll_round C E env' seen n' e = Some (Done, seen, n', e)"
  using promote_error [OF assms(3,1,2)] by (simp add: poll_round_def poll_acquire_def)

theorem failed_take_over_strands_witness:
  "\<exists>err n'. promoteToLeader wire_codec (calm\<lparr>t_tcp := Some (SysErr ''address in use'')\<rparr>) some_session (standby_node '''') =
      Some (Returns (Some err), n') \<and>
    poll_round wire_codec mem_etcd calm True n' (0, []) = Some (Done, True, n', (0, []))"
proof -
  let ?env = "calm\<lparr>t_tcp := Some (SysErr ''address in use'')\<rparr>"
  have "ReadAll wire_codec (new_log ''b'') = (Inr [], new_log ''b'')"
    using ReadAll_ok [OF new_log_ok [OF wire_codec_ok]] by simp
  then obtain err n' where p: "promoteToLeader wire_codec ?env some_session (standby_node '''') =
      Some (Returns (Some err), n')"
    by (auto simp: promote_defs standby_node_def calm_def Serve_def Let_def)
  have "role (standby_node '''') = roleStandby" "clientSrv (standby_node '''') = None"
    by (simp_all add: standby_node_def)
  from failed_take_over_strands [OF this p, of mem_etcd calm True "(0, [])"] p show ?thesis by auto
qed

subsection \<open>The lease is lost during a promotion\<close>

text \<open>
  C21: The loss of the lease during a promotion leaves the node with both servers. The promotion has
  started the goroutine that keeps the lease before it starts the client server; when that goroutine
  reports the loss after the replication server was stopped, it makes the node a standby and starts
  the replication server again, and the promotion goes on and starts the client server. The node
  then accepts replicated entries and requests of clients on the same log, without the key.
\<close>

theorem lost_lease_in_promotion_runs_both:
  assumes "poll_acquire E True n e = Inr (s, e')" and "wal_ok C (p_wal (proc n))" and "CurrentClients (mem (proc n)) = Map.empty"
    and "\<forall>x \<in> set (entries C (p_wal (proc n))). entry_valid (length (Files (cfg n))) x"
    and "a_replay (entries C (p_wal (proc n))) Map.empty = Some m" and "no_peer env n"
    and "t_resolve env = None" and "t_udp env = None" and "t_tcp env = None"
  shows "\<exists>n'. node_reach C E True (n, True, e, Idle) (n', False, e', Idle) \<and>
    role n' = roleStandby \<and> session n' = None \<and> replServer n' \<noteq> None \<and> clientSrv n' \<noteq> None \<and>
    (\<forall>req. inbound C req n' \<noteq> None)"
proof -
  let ?n2 = "promote_stop (promote_claim s n)"
  obtain n3 where n3: "demoteToStandby [None] ?n2 = (Returns None, n3)" "role n3 = roleStandby" "session n3 = None"
    "replServer n3 \<noteq> None" "proc n3 = ShutdownGlobal (proc n)" "cfg n3 = cfg n"
    by (simp add: demoteToStandby_def promote_stop_def promote_claim_def stopKeepalive_def startReplServerWithRetry_def
        StartReplServer_def Let_def)
  have p: "p_wal (proc n3) = p_wal (proc n)" "mem (proc n3) = mem (proc n)" "peer (proc n3) = peer (proc n)"
    using n3(5) by (simp_all add: ShutdownGlobal_def split: option.split)
  from serve_alone [of C n3 m env] assms(2-9) n3(6) p obtain n4 srv where
    n4: "promote_serve C env n3 = Some (BlocksForever, n4)" "role n4 = role n3" "replServer n4 = replServer n3" "clientSrv n4 = Some srv"
    by (auto simp: no_peer_def)
  have ses: "session n4 = session n3" using n4(1)
    by (auto simp: promote_serve_def Let_def split: prod.splits sum.splits option.splits Option.bind_splits)
  have "node_reach C E True (n, True, e, Idle) (promote_claim s n, True, e', Claimed s)"
    by (rule node_reach.step [OF node_reach.start node_step.claim [OF assms(1)]])
  from node_reach.step [OF this node_step.stop] have "node_reach C E True (n, True, e, Idle) (?n2, True, e', Stopped s)" .
  from node_reach.step [OF this node_step.lose [OF n3(1)]] have
    "node_reach C E True (n, True, e, Idle) (n3, False, e', Stopped s)" by simp
  from node_reach.step [OF this node_step.serve [OF n4(1) refl]] have
    "node_reach C E True (n, True, e, Idle) (n4, False, e', Idle)" by simp
  with n3 n4 ses show ?thesis by (auto simp: inbound_def split: option.split prod.split)
qed

theorem lost_lease_in_promotion_runs_both_witness:
  "\<exists>n' e'. node_reach wire_codec mem_etcd True (standby_node '''', True, (0, []), Idle) (n', False, e', Idle) \<and>
    replServer n' \<noteq> None \<and> clientSrv n' \<noteq> None"
proof -
  obtain s e' where a: "poll_acquire mem_etcd True (standby_node '''') (0, []) = Inr (s, e')"
    by (simp add: poll_acquire_def standby_node_def GetPrimary_def TryAcquire_def mem_etcd_def mem_view_def create_revision_def Let_def)
  have "wal_ok wire_codec (p_wal (proc (standby_node '''')))" "CurrentClients (mem (proc (standby_node ''''))) = Map.empty"
    "\<forall>x \<in> set (entries wire_codec (p_wal (proc (standby_node '''')))). entry_valid (length (Files (cfg (standby_node '''')))) x"
    "a_replay (entries wire_codec (p_wal (proc (standby_node '''')))) Map.empty = Some Map.empty" "no_peer calm (standby_node '''')"
    "t_resolve calm = None" "t_udp calm = None" "t_tcp calm = None"
    by (simp_all add: standby_node_def calm_def wire_codec_ok initial_store_def a_replay_def no_peer_def)
  from lost_lease_in_promotion_runs_both [OF a this] show ?thesis by blast
qed

end
