(* ===== verification/Control_Props.thy ===== *)
theory Control_Props
  imports Control_Inv
begin

section \<open>Properties of the request handlers\<close>

text \<open>
  The handlers on a primary with a backup (\<open>ReplicateAndWait\<close>) and on a node without a peer
  (\<open>Local_ReplicateAndWait\<close>), from the lemmas proved against the interface, and the event loop of
  \<open>SetStation\<close>.
\<close>

subsection \<open>The abstract effect of the handlers' entries\<close>

lemma a_entry_handshake:
  "m (client_key port) = None \<Longrightarrow> a_entry (handshake_entry port) m = Some (m(client_key port \<mapsto> -1))"
  by (simp add: a_entry_def handshake_entry_def Let_def)

lemma a_entry_setstation:
  assumes "m (client_key port) \<noteq> None" and "0 \<le> i" and "i < 2 ^ 31"
  shows "a_entry (setstation_entry port i p) m = Some (m(client_key port \<mapsto> i))"
  using assms sint_word_of_int [of i] by (simp add: a_entry_def setstation_entry_def Let_def)

lemma a_entry_disconnect:
  "m (client_key port) \<noteq> None \<Longrightarrow> a_entry (disconnect_entry port) m = Some (m(client_key port := None))"
  by (simp add: a_entry_def disconnect_entry_def Let_def)

text \<open>A primary in service: the logs are in order and its memory is what its log replays to.\<close>

definition serving :: "codec \<Rightarrow> Server \<Rightarrow> world \<Rightarrow> bool" where
  "serving C s w \<longleftrightarrow>
     Repl s = ReplicateAndWait C \<and> repl_inv C w \<and> seeded C w \<and> reflects (entries C (p_wal w)) (mem w)"

lemma servingD: "serving C s w \<Longrightarrow> remote.in_sync C w" "serving C s w \<Longrightarrow> Repl s = ReplicateAndWait C"
  "serving C s w \<Longrightarrow> store_inv (mem w)" "serving C s w \<Longrightarrow> length (StationList (mem w)) < 2 ^ 31"
  by (simp_all add: serving_def remote.in_sync_def reflects_def)

lemma remote_done:
  "remote.outcome C e w True w' \<Longrightarrow> serving C s w \<Longrightarrow>
   store_inv (mem w') \<and> station_names (mem w') = station_names (mem w) \<and> serving C s w' \<and>
   entries C (p_wal w') = entries C (p_wal w) @ [number_entry (entries C (p_wal w)) e] \<and>
   a_entry e (abs_store (mem w)) = Some (abs_store (mem w')) \<and> b_entries C (peer w') = entries C (p_wal w')"
  unfolding remote.outcome_def remote.in_sync_def serving_def if_True by blast

lemma remote_undone:
  "remote.outcome C e w False w' \<Longrightarrow>
   store_inv (mem w') \<and> station_names (mem w') = station_names (mem w) \<and> repl_inv C w' \<and>
   entries C (p_wal w') = entries C (p_wal w) @ [number_entry (entries C (p_wal w)) e] \<and>
   abs_store (mem w') = abs_store (mem w)"
  by (simp add: remote.outcome_def)

definition fresh_server :: Server where
  "fresh_server = \<lparr>srv_NumStations = 2, Repl = ReplicateAndWait wire_codec\<rparr>"

lemma fresh_server_stations [simp]: "srv_NumStations fresh_server = 2"
  by (simp add: fresh_server_def)

lemma fresh_reflects [simp]: "reflects [] (InitStations files initial_store) \<longleftrightarrow> length files < 2 ^ 31"
  using InitStations_inv [of initial_store files]
  by (auto simp: reflects_def a_replay_def initial_store_def) (auto simp: InitStations_def)

lemma fresh_serving [simp]: "serving wire_codec fresh_server (fresh_world fates)"
  by (simp add: serving_def fresh_server_def wire_codec_ok)

lemma fresh_clients [simp]: "CurrentClients (InitStations files initial_store) = Map.empty"
  by (simp add: InitStations_def initial_store_def)

lemma handshake_entry_fits [simp]: "fits wire_codec (handshake_entry port) (fresh_world fates)"
  by (simp add: handshake_entry_def getClientIP_def)

subsection \<open>Handshake\<close>

text \<open>
  C12: A handshake of a client that is not connected either returns the number of stations, with
  the client registered on no station and both logs equal and reflecting the memory, or returns
  an error with the assignment of clients to stations unchanged; it never panics.
\<close>

theorem handshake_connects:
  assumes "serving C s w" and "fits C (handshake_entry port) w"
    and "CurrentClients (mem w) (client_key port) = None"
  shows "\<exists>r w'. Handshake s \<lparr>hello_UdpPort = port\<rparr> w = Some (r, w') \<and> store_inv (mem w') \<and>
    (case r of
       Inr m \<Rightarrow> welcome_NumStations m = word_of_int (srv_NumStations s) \<and>
         abs_store (mem w') = (abs_store (mem w))(client_key port \<mapsto> -1) \<and>
         serving C s w' \<and> b_entries C (peer w') = entries C (p_wal w')
     | Inl err \<Rightarrow> abs_store (mem w') = abs_store (mem w))"
proof -
  have a: "a_entry (handshake_entry port) (abs_store (mem w)) =
      Some ((abs_store (mem w))(client_key port \<mapsto> -1))"
    using assms(3) by (intro a_entry_handshake) simp
  from remote.handshake [where s = s and req = "\<lparr>hello_UdpPort = port\<rparr>", OF servingD(1) [OF assms(1)]]
    assms(2,3) servingD(2) [OF assms(1)]
  obtain r w' where r: "Handshake s \<lparr>hello_UdpPort = port\<rparr> w = Some (r, w')"
    "(r = Inr \<lparr>welcome_NumStations = word_of_int (srv_NumStations s)\<rparr> \<and>
      remote.outcome C (handshake_entry port) w True w') \<or>
     (\<exists>err. r = Inl err \<and> remote.outcome C (handshake_entry port) w False w')" by auto
  with a show ?thesis by (auto dest!: remote_done [OF _ assms(1)] remote_undone)
qed

theorem handshake_connects_witness:
  "\<exists>r w'. Handshake fresh_server \<lparr>hello_UdpPort = 5000\<rparr> (fresh_world (sconst Delivered)) = Some (r, w') \<and>
    store_inv (mem w') \<and>
    (case r of
       Inr m \<Rightarrow> welcome_NumStations m = 2 \<and>
         abs_store (mem w') = [client_key 5000 \<mapsto> -1]
     | Inl err \<Rightarrow> abs_store (mem w') = Map.empty)"
proof -
  have e: "abs_store (mem (fresh_world (sconst Delivered))) = Map.empty"
    by (rule ext) (simp add: abs_store_def)
  from handshake_connects [OF fresh_serving, of 5000 "sconst Delivered"] obtain r w' where
    r: "Handshake fresh_server \<lparr>hello_UdpPort = 5000\<rparr> (fresh_world (sconst Delivered)) = Some (r, w')"
      "store_inv (mem w')" and
    c: "case r of
       Inr m \<Rightarrow> welcome_NumStations m = word_of_int (srv_NumStations fresh_server) \<and> abs_store (mem w') = [client_key 5000 \<mapsto> -1] \<and>
         serving wire_codec fresh_server w' \<and> b_entries wire_codec (peer w') = entries wire_codec (p_wal w')
     | Inl err \<Rightarrow> abs_store (mem w') = Map.empty"
    unfolding e by auto
  show ?thesis by (rule exI [of _ r], rule exI [of _ w']) (use r c in \<open>cases r; simp\<close>)
qed

subsection \<open>SetStation\<close>

text \<open>
  C13: Setting an existing station for a connected client either moves the client there on both
  sides and announces that station's name first on the stream, after which the handler serves the
  client's events (or returns the error of the failed send), or it returns an error with the
  assignment unchanged and nothing sent; it never panics.
\<close>

theorem setstation_moves_and_announces:
  assumes "serving C s w" and "CurrentClients (mem w) (client_key port) = Some a"
    and "fits C (setstation_entry port (uint n) (CurrStation (heap (mem w) ! a))) w"
    and "uint n < int (length (StationList (mem w)))"
  shows "\<exists>r st' w'. SetStation s \<lparr>set_StationNumber = n, set_UdpPort = port\<rparr> st w = Some (r, st', w') \<and>
    store_inv (mem w') \<and>
    ((abs_store (mem w') = (abs_store (mem w))(client_key port \<mapsto> uint n) \<and>
      serving C s w' \<and> b_entries C (peer w') = entries C (p_wal w') \<and>
      (if shd (send_fates st) = None
       then r = Inr a \<and> sent st' = sent st @ [ServerEvent_Announce \<lparr>SongName = station_names (mem w) ! unat n\<rparr>]
       else r = Inl (the (shd (send_fates st))) \<and> sent st' = sent st)) \<or>
     (abs_store (mem w') = abs_store (mem w) \<and> (\<exists>err. r = Inl err) \<and> sent st' = sent st))"
proof -
  let ?e = "setstation_entry port (uint n) (CurrStation (heap (mem w) ! a))"
  have "abs_store (mem w) (client_key port) \<noteq> None" using assms(2) by simp
  moreover have "uint n < 2 ^ 31" using assms(4) servingD(4) [OF assms(1)] by simp
  ultimately have a: "a_entry ?e (abs_store (mem w)) = Some ((abs_store (mem w))(client_key port \<mapsto> uint n))"
    by (intro a_entry_setstation) auto
  from remote.setstation [OF servingD(1) [OF assms(1)] assms(3,2) servingD(2) [OF assms(1)] refl refl assms(4), of st]
  obtain r st' w' where
    r: "SetStation s \<lparr>set_StationNumber = n, set_UdpPort = port\<rparr> st w = Some (r, st', w')" and
    o: "(remote.outcome C ?e w True w' \<and>
      (r, st') = (case Send (ServerEvent_Announce \<lparr>SongName = station_names (mem w) ! nat (uint n)\<rparr>) st of
         (Some err, st') \<Rightarrow> (Inl err, st') | (None, st') \<Rightarrow> (Inr a, st'))) \<or>
     (\<exists>err. r = Inl err \<and> st' = st \<and> remote.outcome C ?e w False w')" by blast
  from o show ?thesis
  proof
    assume "remote.outcome C ?e w True w' \<and>
      (r, st') = (case Send (ServerEvent_Announce \<lparr>SongName = station_names (mem w) ! nat (uint n)\<rparr>) st of
         (Some err, st') \<Rightarrow> (Inl err, st') | (None, st') \<Rightarrow> (Inr a, st'))"
    with r a show ?thesis
      by (auto simp: Send_def dest!: remote_done [OF _ assms(1)] split: option.splits)
  next
    assume "\<exists>err. r = Inl err \<and> st' = st \<and> remote.outcome C ?e w False w'"
    with r show ?thesis by (auto dest!: remote_undone)
  qed
qed

text \<open>A pair of processes with one connected client.\<close>

lemma connected_world:
  obtains w where
    "Handshake fresh_server \<lparr>hello_UdpPort = 5000\<rparr> (fresh_world (sconst Delivered)) =
       Some (Inr \<lparr>welcome_NumStations = 2\<rparr>, w)"
    "serving wire_codec fresh_server w" "CurrentClients (mem w) (client_key 5000) = Some 0"
    "CurrStation (heap (mem w) ! 0) = -1" "station_names (mem w) = [''mp3/a.mp3'', ''mp3/b.mp3'']"
    "length (entries wire_codec (p_wal w)) = 1" "online w" "CurrentClients (mem w) = [client_key 5000 \<mapsto> 0]"
proof -
  let ?w = "fresh_world (Delivered ## sconst Delivered)"
  let ?g = "\<lambda>m. Some (RollbackHandshake getClientIP 5000 m)"
  obtain m1 where m1: "handshake_apply getClientIP 5000 (mem ?w) = Some (Inr '''', m1)"
    "CurrentClients m1 = [client_key 5000 \<mapsto> 0]" "CurrStation (heap m1 ! 0) = -1"
    by (simp add: handshake_apply_def ApplyHandshake_def alloc_def Let_def)
       (simp add: InitStations_def initial_store_def)
  obtain w where w: "ReplicateAndWait wire_codec (handshake_entry 5000) (handshake_apply getClientIP 5000) ?g ?w =
      Some (Inr '''', w)" "mem w = m1" "online w"
    using ReplicateAndWait_one_fault [where f = "handshake_apply getClientIP 5000" and g = ?g and
        w = ?w and C = wire_codec and e = "handshake_entry 5000" and fate = Delivered, OF _ _ _ _ _ m1(1)]
    by (auto simp: wire_codec_ok)
  have h: "Handshake fresh_server \<lparr>hello_UdpPort = 5000\<rparr> ?w = Some (Inr \<lparr>welcome_NumStations = 2\<rparr>, w)"
    using w by (simp add: Handshake_def GetClient_def Let_def fresh_server_def handshake_entry_def)
  have "CurrentClients (mem ?w) (client_key 5000) = None" by simp
  with remote.handshake [OF servingD(1) [OF fresh_serving], of "\<lparr>hello_UdpPort = 5000\<rparr>"
      "Delivered ## sconst Delivered" fresh_server] h
  have "remote.outcome wire_codec (handshake_entry 5000) ?w True w"
    by (auto simp: servingD(2) [OF fresh_serving])
  note d = remote_done [OF this fresh_serving]
  have s: "Delivered ## sconst Delivered = sconst Delivered"
    by (metis siterate.code id_apply)
  show thesis
    by (rule that [OF h [unfolded s]]) (use d w m1 in \<open>simp_all add: station_names_def\<close>,
      simp add: InitStations_def)
qed

lemma small_log_fits:
  "length (entries wire_codec (p_wal w)) = 1 \<Longrightarrow>
   (case Op e of None \<Rightarrow> True | Some p \<Rightarrow> length (op_ip p) < 2 ^ 29) \<Longrightarrow> fits wire_codec e w"
  by (simp add: fits_def next_entry_def seq_limit_def)

text \<open>Its client chooses the second station.\<close>

lemma tuned_world:
  assumes "serving wire_codec fresh_server w" and "online w" and "CurrentClients (mem w) (client_key 5000) = Some 0"
    and "station_names (mem w) = [''mp3/a.mp3'', ''mp3/b.mp3'']" and "length (entries wire_codec (p_wal w)) = 1"
  obtains st' w' where
    "SetStation fresh_server \<lparr>set_StationNumber = 1, set_UdpPort = 5000\<rparr> \<lparr>sent = [], send_fates = sconst None\<rparr> w = Some (Inr 0, st', w')"
    "length (entries wire_codec (p_wal w')) = 2" "uint (1 :: u32) < int (length (StationList (mem w)))"
    "fits wire_codec (setstation_entry 5000 (uint (1 :: u32)) (CurrStation (heap (mem w) ! 0))) w"
proof -
  let ?e = "setstation_entry 5000 (uint (1 :: u32)) (CurrStation (heap (mem w) ! 0))"
  have f: "fits wire_codec ?e w"
    by (rule small_log_fits [OF assms(5)]) (simp add: setstation_entry_def getClientIP_def)
  have n: "uint (1 :: u32) < int (length (StationList (mem w)))"
    using arg_cong [OF assms(4), of length] by (simp add: station_names_def)
  from remote.setstation [where s = fresh_server, OF servingD(1) [OF assms(1)] f assms(3) _ refl refl n,
      of "\<lparr>sent = [], send_fates = sconst None\<rparr>"] servingD(2) [OF assms(1)] assms(2) obtain st' w' where
    h: "SetStation fresh_server \<lparr>set_StationNumber = 1, set_UdpPort = 5000\<rparr> \<lparr>sent = [], send_fates = sconst None\<rparr> w = Some (Inr 0, st', w')"
      "remote.outcome wire_codec ?e w True w'"
    by (auto simp: Send_def remote.outcome_def)
  show thesis by (rule that [OF h(1) _ n f]) (use remote_done [OF h(2) assms(1)] assms(5) in simp)
qed

theorem setstation_moves_and_announces_witness:
  "\<exists>w st' w'. CurrentClients (mem w) (client_key 5000) = Some 0 \<and>
    SetStation fresh_server \<lparr>set_StationNumber = 1, set_UdpPort = 5000\<rparr>
      \<lparr>sent = [], send_fates = sconst None\<rparr> w = Some (Inr 0, st', w') \<and>
    abs_store (mem w') (client_key 5000) = Some 1 \<and> sent st' = [ServerEvent_Announce \<lparr>SongName = ''mp3/b.mp3''\<rparr>]"
proof -
  obtain w where w: "serving wire_codec fresh_server w" "online w" "CurrentClients (mem w) (client_key 5000) = Some 0"
    "station_names (mem w) = [''mp3/a.mp3'', ''mp3/b.mp3'']" "length (entries wire_codec (p_wal w)) = 1"
    using connected_world by metis
  from tuned_world [OF w] obtain st' w' where
    t: "SetStation fresh_server \<lparr>set_StationNumber = 1, set_UdpPort = 5000\<rparr> \<lparr>sent = [], send_fates = sconst None\<rparr> w = Some (Inr 0, st', w')"
      "uint (1 :: u32) < int (length (StationList (mem w)))"
      "fits wire_codec (setstation_entry 5000 (uint (1 :: u32)) (CurrStation (heap (mem w) ! 0))) w" by metis
  from setstation_moves_and_announces [OF w(1,3) t(3,2), of "\<lparr>sent = [], send_fates = sconst None\<rparr>"] t(1) w(3,4)
  show ?thesis by fastforce
qed

text \<open>
  A station number that does not exist is answered with an Invalid event and an error; nothing
  else happens, whichever replicator serves.
\<close>

theorem setstation_out_of_range:
  assumes "int (length (StationList (mem w))) \<le> uint n"
  shows "\<exists>st'. SetStation s \<lparr>set_StationNumber = n, set_UdpPort = port\<rparr> st w =
      Some (Inl (Errorf (''invalid station number: '' @ dec (unat n))), st', w) \<and>
    (shd (send_fates st) = None \<longrightarrow>
      sent st' = sent st @ [ServerEvent_Invalid \<lparr>ReplyString = ''Invalid Station Number''\<rparr>])"
  using assms by (auto simp: SetStation_def Send_def fmt_d_def)

theorem setstation_out_of_range_witness:
  "\<exists>st'. SetStation fresh_server \<lparr>set_StationNumber = 7, set_UdpPort = 5000\<rparr>
      \<lparr>sent = [], send_fates = sconst None\<rparr> (fresh_world (sconst Delivered)) =
      Some (Inl (Errorf ''invalid station number: 7''), st', fresh_world (sconst Delivered)) \<and>
    sent st' = [ServerEvent_Invalid \<lparr>ReplyString = ''Invalid Station Number''\<rparr>]"
proof -
  have "int (length (StationList (mem (fresh_world (sconst Delivered))))) \<le> uint (7 :: u32)"
    by (simp add: InitStations_def)
  moreover have "dec (unat (7 :: u32)) = ''7''" by code_simp
  ultimately show ?thesis
    using setstation_out_of_range [of "fresh_world (sconst Delivered)" 7 fresh_server 5000
        "\<lparr>sent = [], send_fates = sconst None\<rparr>"] by simp
qed

subsection \<open>Disconnect\<close>

text \<open>
  C14: Disconnecting a client that is not connected reports no success and changes nothing; for a
  connected client either the client is gone on both sides and success is reported, or the error
  is reported and the rolled back memory has the client on its old station again.
\<close>

theorem disconnect_removes:
  assumes "serving C s w" and "fits C (disconnect_entry port) w"
  shows "\<exists>r w'. Disconnect s \<lparr>disc_UdpPort = port\<rparr> w = Some (r, w') \<and> store_inv (mem w') \<and>
    (case r of
       (resp, None) \<Rightarrow>
         if Success resp
         then abs_store (mem w') = (abs_store (mem w))(client_key port := None) \<and>
           abs_store (mem w) (client_key port) \<noteq> None \<and>
           serving C s w' \<and> b_entries C (peer w') = entries C (p_wal w')
         else w' = w \<and> abs_store (mem w) (client_key port) = None
     | (resp, Some err) \<Rightarrow> \<not> Success resp \<and> abs_store (mem w') = abs_store (mem w))"
proof (cases "CurrentClients (mem w) (client_key port)")
  case None
  with servingD(3) [OF assms(1)] show ?thesis
    by (simp add: Disconnect_def GetClient_def Let_def)
next
  case (Some a)
  then have k: "abs_store (mem w) (client_key port) \<noteq> None" by simp
  note ae = a_entry_disconnect [of "abs_store (mem w)" port, OF this]
  from remote.disconnect [where s = s and req = "\<lparr>disc_UdpPort = port\<rparr>", OF servingD(1) [OF assms(1)]]
    assms(2) Some servingD(2) [OF assms(1)]
  obtain r w' where r: "Disconnect s \<lparr>disc_UdpPort = port\<rparr> w = Some (r, w')"
    "(r = (\<lparr>Success = True\<rparr>, None) \<and> remote.outcome C (disconnect_entry port) w True w') \<or>
     (\<exists>err. r = (\<lparr>Success = False\<rparr>, Some err) \<and> remote.outcome C (disconnect_entry port) w False w')" by auto
  with ae k show ?thesis by (auto dest!: remote_done [OF _ assms(1)] remote_undone)
qed

theorem disconnect_removes_witness:
  "\<exists>w w'. serving wire_codec fresh_server w \<and> CurrentClients (mem w) (client_key 5000) = Some 0 \<and>
    Disconnect fresh_server \<lparr>disc_UdpPort = 5000\<rparr> w = Some ((\<lparr>Success = True\<rparr>, None), w') \<and>
    abs_store (mem w') (client_key 5000) = None"
proof -
  obtain w where w: "serving wire_codec fresh_server w" "CurrentClients (mem w) (client_key 5000) = Some 0"
    "length (entries wire_codec (p_wal w)) = 1" "online w"
    using connected_world by metis
  have f: "fits wire_codec (disconnect_entry 5000) w"
    by (rule small_log_fits [OF w(3)]) (simp add: disconnect_entry_def getClientIP_def)
  from remote.disconnect [where s = fresh_server and req = "\<lparr>disc_UdpPort = 5000\<rparr>", OF servingD(1) [OF w(1)] _ _ servingD(2) [OF w(1)]] f w(2,4)
  obtain w' where d: "Disconnect fresh_server \<lparr>disc_UdpPort = 5000\<rparr> w = Some ((\<lparr>Success = True\<rparr>, None), w')"
    by (auto simp: remote.outcome_def)
  from disconnect_removes [OF w(1) f] d have "abs_store (mem w') = (abs_store (mem w))(client_key 5000 := None)" by auto
  then have "abs_store (mem w') (client_key 5000) = None" by (simp only: fun_upd_same)
  with w(1,2) d show ?thesis by blast
qed

subsection \<open>The event loop\<close>

lemma upd_client_twice [simp]: "upd_client a f (upd_client a g m) = upd_client a (f \<circ> g) m"
  by (cases "a < length (heap m)") (simp_all add: upd_client_def list_update_beyond)

text \<open>
  What the loop leaves of a queue \<open>q\<close> after \<open>k\<close> events were sent, for each way it can stand or end.
\<close>

definition loop_outcome ::
  "select_case list \<Rightarrow> error option stream \<Rightarrow> bool \<Rightarrow> ServerEvent list \<Rightarrow> nat \<Rightarrow> loop_state \<Rightarrow> ServerEvent list \<Rightarrow> bool" where
  "loop_outcome cs fates cl q k l q' \<longleftrightarrow> k \<le> length q \<and>
     (case l of
        Looping \<Rightarrow> list_all (\<lambda>c. c = PickEvent) cs \<and> k = min (length cs) (length q) \<and> q' = drop k q \<and> (cl \<longrightarrow> length cs \<le> length q)
      | Returned None \<Rightarrow> cl \<and> k = length q \<and> q' = []
      | Returned (Some err) \<Rightarrow>
          PickDone err \<in> set cs \<and> q' = drop k q \<or> fates !! k = Some err \<and> k < length q \<and> q' = drop (Suc k) q)"

lemma event_loop_outcome:
  "a < length (heap m) \<Longrightarrow> event_loop cs a m st = (l, m', st') \<Longrightarrow>
   \<exists>k. sent st' = sent st @ take k (buf (EventChan (heap m ! a))) \<and>
     loop_outcome cs (send_fates st) (closed (EventChan (heap m ! a))) (buf (EventChan (heap m ! a))) k l (buf (EventChan (heap m' ! a)))"
proof (induction cs arbitrary: m st)
  case Nil
  then show ?case by (intro exI [of _ 0]) (simp add: loop_outcome_def)
next
  case (Cons c cs)
  let ?ch = "EventChan (heap m ! a)"
  show ?case
  proof (cases c)
    case (PickDone err)
    with Cons.prems show ?thesis by (intro exI [of _ 0]) (auto simp: event_step_def loop_outcome_def)
  next
    case PickEvent
    show ?thesis
    proof (cases "buf ?ch")
      case Nil
      show ?thesis
      proof (cases "closed ?ch")
        case True
        with Nil PickEvent Cons.prems show ?thesis
          by (intro exI [of _ 0]) (auto simp: event_step_def chan_recv_def loop_outcome_def)
      next
        case False
        with Nil PickEvent Cons.prems have "event_loop cs a m st = (l, m', st')" by (simp add: event_step_def chan_recv_def)
        from Cons.IH [OF Cons.prems(1) this] Nil False PickEvent show ?thesis
          by (auto simp: loop_outcome_def split: loop_state.splits option.splits)
      qed
    next
      case q: (Cons ev evs)
      let ?m = "upd_client a (\<lambda>c. c\<lparr>EventChan := ?ch\<lparr>buf := evs\<rparr>\<rparr>) m"
      have ch: "a < length (heap ?m)" "EventChan (heap ?m ! a) = ?ch\<lparr>buf := evs\<rparr>" using Cons.prems(1) by simp_all
      show ?thesis
      proof (cases "shd (send_fates st)")
        case (Some err)
        with q PickEvent Cons.prems ch show ?thesis
          by (intro exI [of _ 0]) (auto simp: event_step_def chan_recv_def Send_def Let_def loop_outcome_def)
      next
        case None
        let ?st = "st\<lparr>sent := sent st @ [ev], send_fates := stl (send_fates st)\<rparr>"
        from None q PickEvent Cons.prems(2) have "event_loop cs a ?m ?st = (l, m', st')"
          by (simp add: event_step_def chan_recv_def Send_def Let_def)
        from Cons.IH [OF ch(1) this] ch(2) obtain k where
          "sent st' = sent st @ ev # take k evs" "loop_outcome cs (stl (send_fates st)) (closed ?ch) evs k l (buf (EventChan (heap m' ! a)))"
          by auto
        with q PickEvent show ?thesis
          by (intro exI [of _ "Suc k"]) (auto simp: loop_outcome_def split: loop_state.splits option.splits)
      qed
    qed
  qed
qed

text \<open>
  C29: Whatever the select of the event loop of \<open>SetStation\<close> picks and whatever sends fail, the loop
  delivers the events of the client's channel in the order they were queued: what it has sent is a
  prefix of the queue. While it runs it has sent one for every event picked, and the rest is still
  queued. It returns without an error only when the channel is closed and everything queued has been
  delivered, and does not run on after that. It returns an error when a send fails, which loses that
  one event, or when the stream's context is done, which leaves the rest of the queue undelivered.
\<close>

theorem events_delivered_in_order:
  assumes "a < length (heap m)" and "event_loop cs a m st = (l, m', st')"
  shows "\<exists>k. sent st' = sent st @ take k (buf (EventChan (heap m ! a))) \<and> k \<le> length (buf (EventChan (heap m ! a))) \<and>
    (case l of
       Looping \<Rightarrow> list_all (\<lambda>c. c = PickEvent) cs \<and> k = min (length cs) (length (buf (EventChan (heap m ! a)))) \<and>
         buf (EventChan (heap m' ! a)) = drop k (buf (EventChan (heap m ! a))) \<and>
         (closed (EventChan (heap m ! a)) \<longrightarrow> length cs \<le> length (buf (EventChan (heap m ! a))))
     | Returned None \<Rightarrow> closed (EventChan (heap m ! a)) \<and> k = length (buf (EventChan (heap m ! a))) \<and> buf (EventChan (heap m' ! a)) = []
     | Returned (Some err) \<Rightarrow>
         PickDone err \<in> set cs \<and> buf (EventChan (heap m' ! a)) = drop k (buf (EventChan (heap m ! a))) \<or>
         send_fates st !! k = Some err \<and> k < length (buf (EventChan (heap m ! a))) \<and>
         buf (EventChan (heap m' ! a)) = drop (Suc k) (buf (EventChan (heap m ! a))))"
  using event_loop_outcome [OF assms] unfolding loop_outcome_def .

definition song :: "string \<Rightarrow> ServerEvent" where
  "song name = ServerEvent_Announce \<lparr>SongName = name\<rparr>"

definition queued_store :: store where
  "queued_store = upd_client 0 (\<lambda>c. c\<lparr>EventChan := (make_chan 100)\<lparr>buf := [song ''a'', song ''b'', song ''c'']\<rparr>\<rparr>)
     (snd (ApplyHandshake getClientIP 5000 (InitStations [''mp3/a.mp3'', ''mp3/b.mp3''] initial_store)))"

theorem events_delivered_in_order_witness:
  "\<exists>m' st'. event_loop [PickEvent, PickEvent, PickDone (SysErr ''canceled'')] 0 queued_store \<lparr>sent = [], send_fates = sconst None\<rparr> =
      (Returned (Some (SysErr ''canceled'')), m', st') \<and>
    sent st' = [song ''a'', song ''b''] \<and> buf (EventChan (heap m' ! 0)) = [song ''c'']"
proof -
  have h: "0 < length (heap queued_store)" "buf (EventChan (heap queued_store ! 0)) = [song ''a'', song ''b'', song ''c'']"
    by (simp_all add: queued_store_def ApplyHandshake_def alloc_def Let_def InitStations_def initial_store_def)
  obtain m' st' where e: "event_loop [PickEvent, PickEvent, PickDone (SysErr ''canceled'')] 0 queued_store \<lparr>sent = [], send_fates = sconst None\<rparr> =
      (Returned (Some (SysErr ''canceled'')), m', st')" "sent st' = [song ''a'', song ''b'']"
    using h by (simp add: event_step_def chan_recv_def Send_def Let_def)
  from events_delivered_in_order [OF h(1) e(1)] obtain k where
    k: "sent st' = take k [song ''a'', song ''b'', song ''c'']" "k \<le> 3" "buf (EventChan (heap m' ! 0)) = drop k [song ''a'', song ''b'', song ''c'']"
    using h(2) by (auto simp: snth_siterate)
  have "length (sent st') = 2" using e(2) by simp
  then have "k = 2" using k(1,2) by simp
  with e k(3) show ?thesis by simp
qed

end
