(* ===== verification/State_Props.thy ===== *)
theory State_Props
  imports Station_Inv
begin

section \<open>Properties of the in-memory state\<close>

text \<open>
  The state package against its abstract specification, the map from a client's key to its
  station: applying and replaying log entries, taking an operation back, and the panic that
  \<open>ApplySetStation\<close> leaves to its caller to avoid. \<open>two_stations\<close> is the store of the witnesses.
\<close>

definition two_stations :: store where
  "two_stations = InitStations [''mp3/a.mp3'', ''mp3/b.mp3''] initial_store"

lemma two_stations_inv [simp]:
  "store_inv two_stations" "abs_store two_stations = Map.empty" "length (StationList two_stations) = 2"
  "station_names two_stations = [''mp3/a.mp3'', ''mp3/b.mp3'']" "CurrentClients two_stations = Map.empty"
  using InitStations_inv [of initial_store "[''mp3/a.mp3'', ''mp3/b.mp3'']"]
  by (simp_all add: two_stations_def initial_store_def) (simp_all add: InitStations_def station_names_def)

text \<open>The same store with one client.\<close>

lemma one_client:
  obtains s where "store_inv s" "abs_store s = [ClientKey ''127.0.0.1'' 5000 \<mapsto> -1]"
    "length (StationList s) = 2" "CurrentClients s (ClientKey ''127.0.0.1'' 5000) = Some (length (heap two_stations))"
proof -
  obtain s where s: "store_inv s" "abs_store s = [ClientKey ''127.0.0.1'' 5000 \<mapsto> -1]"
    "station_names s = station_names two_stations"
    "CurrentClients s = [ClientKey ''127.0.0.1'' 5000 \<mapsto> length (heap two_stations)]"
    using ApplyHandshake_ok [of two_stations "''127.0.0.1''" 5000] by auto
  show thesis by (rule that [OF s(1,2)]) (use s(3,4) length_StationList [OF s(3)] in simp_all)
qed

text \<open>
  C9: Applying a log entry whose station exists implements one step of the abstract map: it
  succeeds with the updated assignment and the invariant kept, or, exactly when the map refuses
  the entry (a second handshake, an unknown client, no operation), returns an error with nothing
  changed; it never panics.
\<close>

theorem apply_entry_refines:
  assumes "store_inv s" and "entry_valid (length (StationList s)) e"
  shows "case a_entry e (abs_store s) of
      Some m \<Rightarrow> \<exists>s'. ApplyWalEntry e s = Some (None, s') \<and> store_inv s' \<and> abs_store s' = m \<and>
        station_names s' = station_names s
    | None \<Rightarrow> \<exists>err. ApplyWalEntry e s = Some (Some err, s)"
  using ApplyWalEntry_applies [OF assms] ApplyWalEntry_refuses [of e s] by (auto split: option.split)

theorem apply_entry_refines_witness:
  "\<exists>s'. ApplyWalEntry \<lparr>Seq = 1, Op = Some (WalEntry_Handshake \<lparr>hs_ClientIp = ''127.0.0.1'', hs_UdpPort = 5000\<rparr>)\<rparr>
      two_stations = Some (None, s') \<and> abs_store s' = [ClientKey ''127.0.0.1'' 5000 \<mapsto> -1]"
  using apply_entry_refines [of two_stations
      "\<lparr>Seq = 1, Op = Some (WalEntry_Handshake \<lparr>hs_ClientIp = ''127.0.0.1'', hs_UdpPort = 5000\<rparr>)\<rparr>"]
  by (auto simp: entry_valid_def a_entry_def Let_def)

text \<open>
  A station change of a connected client panics when its station does not exist, and with it the
  entry: the check \<open>ApplySetStation\<close> leaves to its caller is not made on replay.
\<close>

lemma ApplySetStation_panics:
  assumes "store_inv s" and "CurrentClients s k = Some a" and "\<not> (0 \<le> i \<and> i < int (length (StationList s)))"
  shows "ApplySetStation k i s = None"
proof -
  from detach [OF store_invD(3) [OF assms(1)] store_invD(2) [OF assms(1)], of a] registeredI [OF assms(2)] obtain s1 where
    "removeFromCurrentStation a s = Some s1" "station_names s1 = station_names s" by auto
  with assms(2,3) length_StationList [of s1 s] show ?thesis by (auto simp: ApplySetStation_def index_def Let_def)
qed

lemma ApplyWalEntry_panics:
  assumes "store_inv s" and "a_entry e (abs_store s) = Some m" and "\<not> entry_valid (length (StationList s)) e"
  shows "ApplyWalEntry e s = None"
proof -
  obtain op where op: "Op e = Some (WalEntry_SetStation op)"
      "\<not> (0 \<le> sint (ss_StationNumber op) \<and> sint (ss_StationNumber op) < int (length (StationList s)))"
    using assms(2,3) by (auto simp: a_entry_def entry_valid_def split: option.splits elim!: op_valid.elims)
  then have "abs_store s (ClientKey (ss_ClientIp op) (ss_UdpPort op)) \<noteq> None"
    using assms(2) by (auto simp: a_entry_def Let_def split: if_splits)
  then obtain a where "CurrentClients s (ClientKey (ss_ClientIp op) (ss_UdpPort op)) = Some a" by auto
  from ApplySetStation_panics [OF assms(1) this op(2)] op(1) show ?thesis by (simp add: ApplyWalEntry_def)
qed

text \<open>
  What a log describes for a server with \<open>n\<close> stations: the assignment its entries lead to, the
  assignment before the first entry that cannot follow, or a panic at the first station change to a
  station the server does not have.
\<close>

datatype described = Assigned assignment | Stuck assignment | Panics

fun describes :: "nat \<Rightarrow> WalEntry list \<Rightarrow> assignment \<Rightarrow> described" where
  "describes n [] m = Assigned m"
| "describes n (e # es) m =
     (case a_entry e m of
        None \<Rightarrow> Stuck m
      | Some m' \<Rightarrow> if entry_valid n e then describes n es m' else Panics)"

lemma describes_valid:
  "(\<And>e. e \<in> set es \<Longrightarrow> entry_valid n e) \<Longrightarrow> describes n es m = Assigned m' \<longleftrightarrow> a_replay es m = Some m'"
  by (induction es arbitrary: m) (auto simp: a_replay_def split: option.split)

text \<open>
  C8: Replaying any log does what its entries describe. It rebuilds exactly the assignment they lead
  to; at the first entry that cannot follow the ones before it, it stops with an error and the
  assignment reached so far; and at the first entry that moves a connected client to a station the
  server does not have, as after a restart with fewer files, it panics.
\<close>

theorem replay_refines:
  assumes "store_inv s"
  shows "case describes (length (StationList s)) es (abs_store s) of
      Assigned m \<Rightarrow> \<exists>s'. replay pre es s = Some (None, s') \<and> store_inv s' \<and> abs_store s' = m
    | Stuck m \<Rightarrow> \<exists>err s'. replay pre es s = Some (Some err, s') \<and> store_inv s' \<and> abs_store s' = m
    | Panics \<Rightarrow> replay pre es s = None"
  using assms
proof (induction es arbitrary: s)
  case (Cons e es)
  show ?case
  proof (cases "a_entry e (abs_store s)")
    case None
    from ApplyWalEntry_refuses [OF None] Cons.prems None show ?thesis by auto
  next
    case (Some m)
    show ?thesis
    proof (cases "entry_valid (length (StationList s)) e")
      case True
      from ApplyWalEntry_applies [OF Cons.prems True Some] obtain s' where
        s': "ApplyWalEntry e s = Some (None, s')" "store_inv s'" "abs_store s' = m" "station_names s' = station_names s" by blast
      with Cons.IH [OF s'(2)] Some True length_StationList [OF s'(4)] show ?thesis by (simp split: described.splits)
    qed (use ApplyWalEntry_panics [OF Cons.prems Some] Some in simp)
  qed
qed simp

theorem replay_refines_witness:
  "\<exists>err s'. replay ''recover seq ''
      [\<lparr>Seq = 1, Op = Some (WalEntry_Handshake \<lparr>hs_ClientIp = ''127.0.0.1'', hs_UdpPort = 5000\<rparr>)\<rparr>,
       \<lparr>Seq = 2, Op = Some (WalEntry_SetStation \<lparr>ss_ClientIp = ''127.0.0.1'', ss_UdpPort = 5000,
          ss_StationNumber = 1, ss_PreviousStation = -1\<rparr>)\<rparr>,
       \<lparr>Seq = 3, Op = Some (WalEntry_Handshake \<lparr>hs_ClientIp = ''127.0.0.1'', hs_UdpPort = 5000\<rparr>)\<rparr>]
      two_stations = Some (Some err, s') \<and> store_inv s' \<and> abs_store s' = [ClientKey ''127.0.0.1'' 5000 \<mapsto> 1]"
  using replay_refines [of two_stations "''recover seq ''"
      "[\<lparr>Seq = 1, Op = Some (WalEntry_Handshake \<lparr>hs_ClientIp = ''127.0.0.1'', hs_UdpPort = 5000\<rparr>)\<rparr>,
        \<lparr>Seq = 2, Op = Some (WalEntry_SetStation \<lparr>ss_ClientIp = ''127.0.0.1'', ss_UdpPort = 5000,
           ss_StationNumber = 1, ss_PreviousStation = -1\<rparr>)\<rparr>,
        \<lparr>Seq = 3, Op = Some (WalEntry_Handshake \<lparr>hs_ClientIp = ''127.0.0.1'', hs_UdpPort = 5000\<rparr>)\<rparr>]"]
  by (simp add: entry_valid_def a_entry_def Let_def)

text \<open>
  \<open>ApplySetStation\<close> moves a connected client to an existing station, returns that station's
  name and leaves every other client where it is; for a station that does not exist it panics, so
  the check its comment demands of the caller is needed.
\<close>

theorem set_station_moves_or_panics:
  assumes "store_inv s" and "CurrentClients s k = Some a"
  shows "if 0 \<le> i \<and> i < NumStations s
    then \<exists>s'. ApplySetStation k i s = Some (Inr (st_Name (StationList s ! nat i)), s') \<and>
      store_inv s' \<and> abs_store s' = (abs_store s)(k \<mapsto> i)
    else ApplySetStation k i s = None"
proof (cases "0 \<le> i \<and> i < NumStations s")
  case True
  then have "station_names s ! nat i = st_Name (StationList s ! nat i)"
    by (simp add: station_names_def NumStations_def nat_less_iff)
  with True ApplySetStation_ok [OF assms, of i] show ?thesis by (auto simp: NumStations_def)
next
  case False
  with ApplySetStation_panics [OF assms, of i] show ?thesis by (auto simp: NumStations_def)
qed

theorem set_station_moves_or_panics_witness:
  "\<exists>s. (\<exists>s'. ApplySetStation (ClientKey ''127.0.0.1'' 5000) 1 s = Some (Inr (st_Name (StationList s ! 1)), s') \<and>
      abs_store s' = [ClientKey ''127.0.0.1'' 5000 \<mapsto> 1]) \<and>
    ApplySetStation (ClientKey ''127.0.0.1'' 5000) 2 s = None"
proof -
  obtain s where s: "store_inv s" "abs_store s = [ClientKey ''127.0.0.1'' 5000 \<mapsto> -1]"
    "length (StationList s) = 2" "CurrentClients s (ClientKey ''127.0.0.1'' 5000) = Some (length (heap two_stations))"
    by (rule one_client)
  from set_station_moves_or_panics [OF s(1,4), of 1] set_station_moves_or_panics [OF s(1,4), of 2] s(2,3)
  show ?thesis by (auto simp: NumStations_def)
qed

text \<open>
  C31: Taking a station change back restores the assignment: after \<open>ApplySetStation\<close> and
  \<open>RollbackSetStation\<close> with the station the client had, every client is where it was.
\<close>

theorem set_station_rollback:
  assumes "store_inv s" and "CurrentClients s k = Some a" and "0 \<le> i" and "i < NumStations s"
  shows "\<exists>name s1 s2. ApplySetStation k i s = Some (Inr name, s1) \<and>
    RollbackSetStation k (CurrStation (heap s ! a)) s1 = Some s2 \<and> store_inv s2 \<and> abs_store s2 = abs_store s"
proof -
  from ApplySetStation_ok [OF assms(1-3)] assms(4) obtain s1 where
    s1: "ApplySetStation k i s = Some (Inr (station_names s ! nat i), s1)" "store_inv s1"
      "abs_store s1 = (abs_store s)(k \<mapsto> i)" "station_names s1 = station_names s"
      "CurrentClients s1 = CurrentClients s" by (auto simp: NumStations_def)
  have "CurrStation (heap s ! a) = -1 \<or>
    (0 \<le> CurrStation (heap s ! a) \<and> CurrStation (heap s ! a) < int (length (StationList s1)))"
    using store_invD(2) [OF assms(1)] registeredI [OF assms(2)] length_StationList [OF s1(4)]
    by (auto simp: range_ok_def)
  from RollbackSetStation_ok [OF s1(2) _ this, of k] s1(5) assms(2) obtain s2 where
    "RollbackSetStation k (CurrStation (heap s ! a)) s1 = Some s2" "store_inv s2"
    "abs_store s2 = (abs_store s1)(k \<mapsto> CurrStation (heap s ! a))" by auto
  moreover have "abs_store s k = Some (CurrStation (heap s ! a))" using assms(2) by (simp add: abs_store_def)
  ultimately show ?thesis using s1(1,3) by (auto simp: fun_upd_idem)
qed

theorem set_station_rollback_witness:
  "\<exists>s name s1 s2. ApplySetStation (ClientKey ''127.0.0.1'' 5000) 1 s = Some (Inr name, s1) \<and>
    RollbackSetStation (ClientKey ''127.0.0.1'' 5000)
      (CurrStation (heap s ! length (heap two_stations))) s1 = Some s2 \<and>
    abs_store s2 = [ClientKey ''127.0.0.1'' 5000 \<mapsto> -1]"
proof -
  obtain s where s: "store_inv s" "abs_store s = [ClientKey ''127.0.0.1'' 5000 \<mapsto> -1]"
    "length (StationList s) = 2" "CurrentClients s (ClientKey ''127.0.0.1'' 5000) = Some (length (heap two_stations))"
    by (rule one_client)
  from set_station_rollback [OF s(1,4), of 1] s(2,3) show ?thesis by (auto simp: NumStations_def)
qed

text \<open>
  The constant-time removal of \<open>removeFromCurrentStation\<close>, which overwrites the found place
  with the last element, removes exactly that client: the station's members are those of the
  textbook removal, with the same multiplicity, and no other station changes.
\<close>

theorem remove_is_remove1:
  assumes "CurrStation (heap s ! a) = int i" and "i < length (StationList s)"
  shows "\<exists>s'. removeFromCurrentStation a s = Some s' \<and> heap s' = heap s \<and> CurrentClients s' = CurrentClients s \<and>
    mset (st_Clients (StationList s' ! i)) = mset (remove1 a (st_Clients (StationList s ! i))) \<and>
    (\<forall>j < length (StationList s). j \<noteq> i \<longrightarrow> st_Clients (StationList s' ! j) = st_Clients (StationList s ! j))"
proof -
  have "removeFromCurrentStation a s = Some (upd_clients_of (int i) (swap_remove a) s)"
    using assms by (simp add: removeFromCurrentStation_def index_def Let_def)
  then show ?thesis
    using assms by (auto simp: upd_clients_of_nth mset_swap_remove)
qed

theorem remove_is_remove1_witness:
  "\<exists>s'. removeFromCurrentStation 0
      \<lparr>heap = [\<lparr>ci_UDPAddr = \<lparr>addr_IP = IPnil, addr_Port = 1\<rparr>, CurrStation = 0, EventChan = make_chan 100\<rparr>],
       CurrentClients = Map.empty, StationList = [\<lparr>st_Clients = [0, 1, 2], st_Name = ''a''\<rparr>]\<rparr> = Some s' \<and>
    mset (st_Clients (StationList s' ! 0)) = {#1, 2#}"
  using remove_is_remove1 [of
      "\<lparr>heap = [\<lparr>ci_UDPAddr = \<lparr>addr_IP = IPnil, addr_Port = 1\<rparr>, CurrStation = 0, EventChan = make_chan 100\<rparr>],
       CurrentClients = Map.empty, StationList = [\<lparr>st_Clients = [0, 1, 2], st_Name = ''a''\<rparr>]\<rparr>" 0 0]
  by auto

end
