(* ===== verification/Failover.thy ===== *)
theory Failover
  imports Node_Props Control_Props State_Props
begin

section \<open>Failover of a pair\<close>

text \<open>
  The composition of the parts: a primary that serves requests through the coordinator, its
  backup's log, and the takeover of the backup. The steps of a primary are the acknowledged
  requests, the rounds of the event loops and the ticks of the stations, in any order and with any
  fates of the network.
\<close>

definition room :: "codec \<Rightarrow> world \<Rightarrow> bool" where
  "room C w \<longleftrightarrow> (\<forall>port i p. fits C (handshake_entry port) w \<and> fits C (setstation_entry port i p) w \<and>
     fits C (disconnect_entry port) w)"

inductive acked_step :: "codec \<Rightarrow> Server \<Rightarrow> world \<Rightarrow> world \<Rightarrow> bool" for C s where
  hello: "room C w \<Longrightarrow> Handshake s \<lparr>hello_UdpPort = port\<rparr> w = Some (Inr r, w') \<Longrightarrow> acked_step C s w w'"
| tune: "room C w \<Longrightarrow> SetStation s \<lparr>set_StationNumber = n, set_UdpPort = port\<rparr> st w = Some (Inr a, st', w') \<Longrightarrow>
     acked_step C s w w'"
| bye: "room C w \<Longrightarrow> Disconnect s \<lparr>disc_UdpPort = port\<rparr> w = Some ((resp, None), w') \<Longrightarrow> acked_step C s w w'"
| event: "event_step c a (mem w) st = (l, m, st') \<Longrightarrow> acked_step C s w (w\<lparr>mem := m\<rparr>)"
| tick: "streamStation_tick i name f (mem w) = Some (out, f', m) \<Longrightarrow> acked_step C s w (w\<lparr>mem := m\<rparr>)"

definition synced :: "codec \<Rightarrow> Server \<Rightarrow> world \<Rightarrow> bool" where
  "synced C s w \<longleftrightarrow> serving C s w \<and> b_entries C (peer w) = entries C (p_wal w)"

subsection \<open>Each step keeps the pair synchronised\<close>

lemma synced_mem:
  assumes "synced C s w" and "store_inv m" and "abs_store m = abs_store (mem w)"
    and "StationList m = StationList (mem w)"
  shows "synced C s (w\<lparr>mem := m\<rparr>) \<and> station_names m = station_names (mem w)"
proof -
  have "reflects (entries C (p_wal w)) m"
    using assms(1) unfolding synced_def serving_def reflects_def assms(3,4) using assms(2) by blast
  with assms(1,4) show ?thesis
    by (simp add: synced_def serving_def remote.alloc_frame station_names_def)
qed

lemma event_step_mem:
  assumes "store_inv m" and "event_step c a m st = (l, m', st')"
  shows "store_inv m' \<and> abs_store m' = abs_store m \<and> StationList m' = StationList m"
proof (cases "m' = m")
  case True
  with assms(1) show ?thesis by simp
next
  case False
  then obtain ev evs where b: "buf (EventChan (heap m ! a)) = ev # evs"
    and m': "m' = upd_client a (\<lambda>c. c\<lparr>EventChan := (EventChan (heap m ! a))\<lparr>buf := evs\<rparr>\<rparr>) m"
    using assms(2) by (auto simp: event_step_def chan_recv_def Let_def
        split: select_case.splits list.splits if_splits prod.splits option.splits)
  have a: "a < length (heap m)"
    using False m' by (cases "a < length (heap m)") (simp_all add: upd_client_def list_update_beyond)
  have q: "\<exists>ch. heap m' ! x = (heap m ! x)\<lparr>EventChan := ch\<rparr> \<and> closed ch = closed (EventChan (heap m ! x)) \<and>
      cap ch = cap (EventChan (heap m ! x)) \<and>
      (length (buf (EventChan (heap m ! x))) \<le> cap ch \<longrightarrow> length (buf ch) \<le> cap ch)" for x
    using m' a b by (intro exI [of _ "EventChan (heap m' ! x)"]) auto
  show ?thesis using store_inv_queues [OF assms(1) _ _ _ q] m' by simp
qed

lemma tick_mem:
  assumes "store_inv m" and "streamStation_tick i name f m = Some (out, f', m')"
  shows "store_inv m' \<and> abs_store m' = abs_store m \<and> StationList m' = StationList m"
proof (cases "m' = m")
  case True
  with assms(1) show ?thesis by simp
next
  case False
  then have i: "i < length (StationList m)"
    and an: "announce_all (ServerEvent_Announce \<lparr>SongName = name\<rparr>) (st_Clients (StationList m ! i)) m = Some m'"
    using assms(2) by (auto simp: streamStation_tick_def Let_def
        split: prod.splits if_splits option.splits Option.bind_splits)
  from announce_station [OF assms(1) i, of "ServerEvent_Announce \<lparr>SongName = name\<rparr>"] an show ?thesis by auto
qed

lemma hello_step:
  assumes "serving C s w" and "room C w" and "Handshake s \<lparr>hello_UdpPort = port\<rparr> w = Some (Inr r, w')"
  shows "remote.outcome C (handshake_entry port) w True w'"
proof -
  have k: "CurrentClients (mem w) (client_key port) = None"
    using assms(3) by (auto simp: Handshake_def GetClient_def Let_def split: option.splits)
  have "fits C (handshake_entry port) w" using assms(2) by (simp add: room_def)
  with remote.handshake [where s = s and req = "\<lparr>hello_UdpPort = port\<rparr>", OF servingD(1) [OF assms(1)]]
    k servingD(2) [OF assms(1)] assms(3) show ?thesis by auto
qed

lemma tune_step:
  assumes "serving C s w" and "room C w"
    and "SetStation s \<lparr>set_StationNumber = n, set_UdpPort = port\<rparr> st w = Some (Inr a, st', w')"
  shows "remote.outcome C (setstation_entry port (uint n) (CurrStation (heap (mem w) ! a))) w True w'"
proof -
  have r: "uint n < int (length (StationList (mem w)))"
    using assms(3) by (auto simp: SetStation_def Let_def split: if_splits)
  obtain b where b: "CurrentClients (mem w) (client_key port) = Some b"
    using assms(3) r by (auto simp: SetStation_def GetClient_def Let_def split: option.splits)
  have "fits C (setstation_entry port (uint n) (CurrStation (heap (mem w) ! b))) w"
    using assms(2) by (simp add: room_def)
  from remote.setstation [OF servingD(1) [OF assms(1)] this b servingD(2) [OF assms(1)] refl refl r, of st] assms(3)
  show ?thesis by (auto split: prod.splits option.splits)
qed

lemma bye_step:
  assumes "serving C s w" and "room C w" and "Disconnect s \<lparr>disc_UdpPort = port\<rparr> w = Some ((resp, None), w')"
  shows "w' = w \<or> remote.outcome C (disconnect_entry port) w True w'"
proof (cases "CurrentClients (mem w) (client_key port)")
  case None
  with assms(3) show ?thesis by (simp add: Disconnect_def GetClient_def Let_def)
next
  case (Some a)
  have "fits C (disconnect_entry port) w" using assms(2) by (simp add: room_def)
  with remote.disconnect [where s = s and req = "\<lparr>disc_UdpPort = port\<rparr>", OF servingD(1) [OF assms(1)]]
    Some servingD(2) [OF assms(1)] assms(3) show ?thesis by auto
qed

lemma outcome_synced:
  "remote.outcome C e w True w' \<Longrightarrow> synced C s w \<Longrightarrow>
   synced C s w' \<and> station_names (mem w') = station_names (mem w)"
  using remote_done [of C e w w' s] by (simp add: synced_def)

lemma acked_step_synced:
  assumes "acked_step C s w w'" and "synced C s w"
  shows "synced C s w' \<and> station_names (mem w') = station_names (mem w)"
proof -
  have sv: "serving C s w" using assms(2) by (simp add: synced_def)
  note si = servingD(3) [OF sv]
  from assms(1) show ?thesis
  proof cases
    case (hello port r)
    from hello_step [OF sv hello] show ?thesis by (rule outcome_synced [OF _ assms(2)])
  next
    case (tune n port st a st')
    from tune_step [OF sv tune] show ?thesis by (rule outcome_synced [OF _ assms(2)])
  next
    case (bye port resp)
    from bye_step [OF sv bye] assms(2) outcome_synced show ?thesis by blast
  next
    case (event c a st l m st')
    with event_step_mem [OF si event(2)] synced_mem [OF assms(2)] show ?thesis by simp
  next
    case (tick i name f out f' m)
    with tick_mem [OF si tick(2)] synced_mem [OF assms(2)] show ?thesis by simp
  qed
qed

lemma acked_steps_synced:
  assumes "(acked_step C s)\<^sup>*\<^sup>* w w'" and "synced C s w"
  shows "synced C s w' \<and> station_names (mem w') = station_names (mem w)"
  using assms by (induction rule: rtranclp_induct) (auto dest: acked_step_synced)

lemma fresh_synced: "synced wire_codec fresh_server (fresh_world fates)"
  by (simp add: synced_def)

lemma fresh_room: "room wire_codec (fresh_world fates)"
  by (simp add: room_def setstation_entry_def disconnect_entry_def getClientIP_def)

end
