(* ===== verification/Requests_Inv.thy ===== *)
theory Requests_Inv
  imports Requests Failover
begin

section \<open>Requests under every schedule\<close>

text \<open>
  The invariant of a pair that serves any number of requests at once, kept by every step of every
  request: what an acknowledgement means under concurrency, and that a working network answers
  every request however the requests interleave.
\<close>

subsection \<open>The requests of the handlers (control/grpc.go)\<close>

definition handshake_request :: "u32 \<Rightarrow> string request" where
  "handshake_request port =
     \<lparr>r_entry = handshake_entry port, r_apply = handshake_apply getClientIP port,
      r_rollback = \<lambda>m. Some (RollbackHandshake getClientIP port m), r_phase = ToAppend\<rparr>"

definition setstation_request :: "u32 \<Rightarrow> int \<Rightarrow> int \<Rightarrow> string request" where
  "setstation_request port i prev =
     \<lparr>r_entry = setstation_entry port i prev, r_apply = ApplySetStation (client_key port) i,
      r_rollback = RollbackSetStation (client_key port) prev, r_phase = ToAppend\<rparr>"

lemma request_simps [simp]:
  "r_entry (handshake_request port) = handshake_entry port"
  "r_apply (handshake_request port) = handshake_apply getClientIP port"
  "r_phase (handshake_request port) = ToAppend"
  "r_entry (setstation_request port i prev) = setstation_entry port i prev"
  "r_apply (setstation_request port i prev) = ApplySetStation (client_key port) i"
  "r_phase (setstation_request port i prev) = ToAppend"
  by (simp_all add: handshake_request_def setstation_request_def)

subsection \<open>What holds under every schedule\<close>

text \<open>
  Where a request stands, seen from the two logs: an appended entry is in the primary's log; the
  entries a synchronisation still has to send are the rest of a state of that log whose earlier
  entries, and in the end the request's own, are on the backup; an acknowledged entry is on the
  backup.
\<close>

definition phase_ok :: "WalEntry list \<Rightarrow> WalEntry list \<Rightarrow> 'v phase \<Rightarrow> bool" where
  "phase_ok pes bes p \<longleftrightarrow>
     (case p of
        ToApply e \<Rightarrow> e \<in> set pes
      | ToReplicate e v \<Rightarrow> e \<in> set pes
      | ToPing e v \<Rightarrow> e \<in> set pes
      | ToRead e v s \<Rightarrow> e \<in> set pes \<and> (\<exists>m \<le> length bes. s = of_nat m)
      | ToSync e v s es \<Rightarrow>
          (\<exists>old k m. prefix old pes \<and> e \<in> set old \<and> es = drop k old \<and> k \<le> length bes \<and> s = of_nat m \<and> m \<le> length bes)
      | ToRetry e v \<Rightarrow> e \<in> set bes
      | Acked e v \<Rightarrow> e \<in> set bes
      | _ \<Rightarrow> True)"

lemma phase_ok_mono:
  assumes "phase_ok pes bes p" and "prefix pes pes'" and "prefix bes bes'"
  shows "phase_ok pes' bes' p"
proof -
  have sub: "set pes \<subseteq> set pes'" "set bes \<subseteq> set bes'" "length bes \<le> length bes'"
    using assms(2,3) set_mono_prefix prefix_length_le by blast+
  show ?thesis
  proof (cases p)
    case (ToSync e v s es)
    with assms(1) obtain old k m where
      "prefix old pes" "e \<in> set old" "es = drop k old" "k \<le> length bes" "s = of_nat m" "m \<le> length bes"
      by (auto simp: phase_ok_def)
    moreover have "prefix old pes'" using calculation(1) assms(2) by (rule prefix_order.trans)
    ultimately show ?thesis using sub(3) unfolding ToSync phase_ok_def by (fastforce intro: le_trans)
  qed (use assms(1) sub in \<open>auto simp: phase_ok_def intro: le_trans\<close>)
qed

text \<open>
  The invariant of requests under way: the pair's invariant with an entry on the backup, every
  request where it can be, and room in the numbering for those that have not appended yet.
\<close>

fun unappended :: "'v request list \<Rightarrow> nat" where
  "unappended [] = 0"
| "unappended (r # rs) = (if r_phase r = ToAppend then Suc (unappended rs) else unappended rs)"

definition under_way :: "codec \<Rightarrow> 'v request list \<Rightarrow> world \<Rightarrow> bool" where
  "under_way C rs w \<longleftrightarrow>
     repl_inv C w \<and> b_entries C (peer w) \<noteq> [] \<and>
     (\<forall>r \<in> set rs. phase_ok (entries C (p_wal w)) (b_entries C (peer w)) (r_phase r) \<and> (\<forall>n. storable C ((r_entry r)\<lparr>Seq := n\<rparr>))) \<and>
     Suc (length (entries C (p_wal w)) + unappended rs) < seq_limit"

lemma mem_index: "e \<in> set pes \<Longrightarrow> \<exists>i. i < length pes \<and> e = pes ! i"
  by (metis in_set_conv_nth)

lemma send_keeps:
  assumes inv: "repl_inv C w" and seed: "b_entries C (peer w) \<noteq> []" and k: "k < length (entries C (p_wal w))"
    and r: "replicate_entry C (entries C (p_wal w) ! k) w = (q, w')"
  shows "repl_inv C w'" "same_primary w w'" "prefix (b_entries C (peer w)) (b_entries C (peer w'))"
    "q = None \<Longrightarrow> k < length (b_entries C (peer w'))"
proof -
  note i = repl_invD [OF inv]
  from replicate_entry_inv [OF i(3,2) i(5) k _ r] seed k have
    R: "backup_inv C (entries C (p_wal w)) (peer w')" "prefix (b_entries C (peer w)) (b_entries C (peer w'))"
      "same_primary w w'" "q = None \<longrightarrow> k < length (b_entries C (peer w'))" by auto
  with i(1,2) show "repl_inv C w'" "same_primary w w'" "prefix (b_entries C (peer w)) (b_entries C (peer w'))"
    "q = None \<Longrightarrow> k < length (b_entries C (peer w'))" by (auto simp: repl_inv_def same_primary_def)
qed

lemma backup_has:
  assumes "repl_inv C w" and "k < length (b_entries C (peer w))"
  shows "entries C (p_wal w) ! k \<in> set (b_entries C (peer w))"
proof -
  have "b_entries C (peer w) ! k = entries C (p_wal w) ! k"
    using repl_invD(4) [OF assms(1)] assms(2) by (auto simp: prefix_def nth_append)
  then show ?thesis using nth_mem [OF assms(2)] by simp
qed

lemma send_step_keeps:
  assumes "repl_inv C w" and "b_entries C (peer w) \<noteq> []" and "k < length (entries C (p_wal w))"
    and "e = entries C (p_wal w) ! k" and "send_step C e nxt fail w = (p, w')"
  shows "repl_inv C w' \<and> same_primary w w' \<and> prefix (b_entries C (peer w)) (b_entries C (peer w')) \<and>
    (p = nxt \<and> k < length (b_entries C (peer w')) \<and> e \<in> set (b_entries C (peer w')) \<or> (\<exists>err. p = fail err))"
proof -
  obtain q w1 where q: "replicate_entry C e w = (q, w1)" by fastforce
  note S = send_keeps [OF assms(1-3) q [unfolded assms(4)]]
  have e: "e \<in> set (b_entries C (peer w1))" if "q = None"
    using backup_has [OF S(1) S(4) [OF that]] S(2) assms(4) by (simp add: same_primary_def)
  show ?thesis
  proof (cases q)
    case None
    then have "p = nxt" "w' = note_seq (Seq e) w1" using assms(5) q by (simp_all add: send_step_def)
    with S e None show ?thesis by (auto simp: repl_inv_def same_primary_def)
  next
    case (Some err)
    with S assms(5) q show ?thesis by (auto simp: send_step_def)
  qed
qed

text \<open>One step of a request, with what it leaves of the two logs.\<close>

lemma append_step:
  assumes "repl_inv C w" and "\<And>n. storable C (e\<lparr>Seq := n\<rparr>)" and "Suc (length (entries C (p_wal w))) < seq_limit"
  defines "e' \<equiv> number_entry (entries C (p_wal w)) e"
  obtains l where "Append C e (p_wal w) = (Inr (Seq e'), e', l)" "repl_inv C (w\<lparr>p_wal := l\<rparr>)"
    "entries C l = entries C (p_wal w) @ [e']"
proof -
  have "fits C e w" using assms(2,3) by (simp add: fits_def next_entry_def)
  moreover have "next_entry C e w = e'" by (simp add: next_entry_def number_entry_def e'_def)
  ultimately obtain l where
    l: "Append C e (p_wal w) = (Inr (Seq e'), e', l)" "wal_ok C l" "entries C l = entries C (p_wal w) @ [e']" "numbered (entries C l)"
    using Append_world [OF repl_invD(1,2) [OF assms(1)]] by fastforce
  with that repl_inv_append [OF assms(1) l(2-4), of "mem w"] show ?thesis by simp
qed

lemma sync_step_phase:
  assumes "repl_inv C w" and "b_entries C (peer w) \<noteq> []"
    and "phase_ok (entries C (p_wal w)) (b_entries C (peer w)) (ToSync e v s (e' # es))"
  obtains k where "k < length (entries C (p_wal w))" "e' = entries C (p_wal w) ! k"
    "Seq e' \<le> s \<Longrightarrow> k < length (b_entries C (peer w))" "\<not> Seq e' \<le> s \<Longrightarrow> k \<le> length (b_entries C (peer w))"
    "\<And>bes. k < length bes \<Longrightarrow> length (b_entries C (peer w)) \<le> length bes \<Longrightarrow>
       phase_ok (entries C (p_wal w)) bes (ToSync e v s es)"
proof -
  let ?pes = "entries C (p_wal w)" and ?bes = "b_entries C (peer w)"
  note i = repl_invD [OF assms(1)]
  from assms(3) obtain old k m where
    o: "prefix old ?pes" "e \<in> set old" "e' # es = drop k old" "k \<le> length ?bes" "s = of_nat m" "m \<le> length ?bes"
    by (auto simp: phase_ok_def)
  have "k < length old" using o(3) by (metis drop_eq_Nil leI list.distinct(1))
  with o(3) have k: "k < length old" "e' = old ! k" "es = drop (Suc k) old"
    using Cons_nth_drop_Suc [of k old] by (metis list.inject)+
  have kp: "k < length ?pes" "e' = ?pes ! k" using k(1,2) o(1) by (auto simp: prefix_def nth_append)
  have lim: "length ?pes < seq_limit" "length ?bes \<le> length ?pes"
    using numbered_length [OF i(2)] prefix_length_le [OF i(4)] by simp_all
  have "Seq e' \<le> s \<longleftrightarrow> k < m"
    using of_nat_u64_le [of "Suc k" m] lim kp o(5,6) numbered_nth [OF i(2) kp(1)] by (simp add: Suc_le_eq del: of_nat_Suc)
  moreover have "phase_ok ?pes bes (ToSync e v s es)" if "k < length bes" "length ?bes \<le> length bes" for bes
  proof -
    have "prefix old ?pes \<and> e \<in> set old \<and> es = drop (Suc k) old \<and> Suc k \<le> length bes \<and> s = of_nat m \<and> m \<le> length bes"
      using o(1,2,5,6) k(3) that by auto
    then show ?thesis by (simp only: phase_ok_def phase.case) blast
  qed
  ultimately show ?thesis using that kp o(4,6) by auto
qed

lemma sync_done_phase:
  assumes "repl_inv C w" and "phase_ok (entries C (p_wal w)) (b_entries C (peer w)) (ToSync e v s [])"
  shows "e \<in> set (b_entries C (peer w))"
proof -
  from assms(2) obtain old k where
    o: "prefix old (entries C (p_wal w))" "e \<in> set old" "[] = drop k old" "k \<le> length (b_entries C (peer w))"
    by (auto simp: phase_ok_def)
  then have "length old \<le> length (b_entries C (peer w))" by simp
  with o(1) repl_invD(4) [OF assms(1)] have "prefix old (b_entries C (peer w))" by (rule prefix_length_prefix)
  with o(2) show ?thesis using set_mono_prefix by blast
qed

definition grows :: "codec \<Rightarrow> world \<Rightarrow> world \<Rightarrow> bool" where
  "grows C w w' \<longleftrightarrow>
     prefix (entries C (p_wal w)) (entries C (p_wal w')) \<and> prefix (b_entries C (peer w)) (b_entries C (peer w'))"

lemma grows_refl [simp]: "grows C w w"
  by (simp add: grows_def)

lemma grows_trans: "grows C w w' \<Longrightarrow> grows C w' w'' \<Longrightarrow> grows C w w''"
  by (auto simp: grows_def intro: prefix_order.trans)

lemma same_primary_grows:
  "same_primary w w' \<Longrightarrow> prefix (b_entries C (peer w)) (b_entries C (peer w')) \<Longrightarrow> grows C w w'"
  by (simp add: grows_def same_primary_def)

lemma ping_step:
  assumes "repl_inv C w" and "backupLastWalSeq w = (q, w')"
  shows "repl_inv C w' \<and> same_primary w w' \<and> peer w' = peer w \<and>
    (\<forall>s. q = Inr s \<longrightarrow> s = of_nat (length (b_entries C (peer w))))"
proof -
  obtain x w1 where x: "rpc (\<lambda>b. (Ping b, b)) w = (x, w1)" by fastforce
  have w1: "same_primary w w1" "peer w1 = peer w" "\<And>y. x = Inr y \<Longrightarrow> y = Ping (peer w)"
    using rpc_cases(1,2) [OF x] rpc_cases(3) [OF x] by (simp_all del: all_simps)
  have "h_lastWalSeq (handler (peer w)) = of_nat (length (b_entries C (peer w)))"
    using assms(1) by (simp add: repl_inv_def backup_inv_def)
  with assms x w1 show ?thesis
    by (auto simp: backupLastWalSeq_def Ping_def repl_inv_def same_primary_def split: sum.splits)
qed

text \<open>What a step leaves: the invariant, logs that only grow, and a phase that fits them.\<close>

definition step_ok :: "codec \<Rightarrow> world \<Rightarrow> 'v phase \<Rightarrow> world \<Rightarrow> bool" where
  "step_ok C w p w' \<longleftrightarrow>
     repl_inv C w' \<and> grows C w w' \<and> entries C (p_wal w') = entries C (p_wal w) \<and>
     phase_ok (entries C (p_wal w)) (b_entries C (peer w')) p \<and> p \<noteq> ToAppend"

lemma send_step_ok:
  assumes "repl_inv C w" and "b_entries C (peer w) \<noteq> []" and "e \<in> set (entries C (p_wal w))"
    and "send_step C e (Acked e v) fail w = (p, w')"
    and "\<And>err bes. phase_ok (entries C (p_wal w)) bes (fail err) \<and> fail err \<noteq> ToAppend"
  shows "step_ok C w p w'"
proof -
  obtain k where k: "k < length (entries C (p_wal w))" "e = entries C (p_wal w) ! k" using mem_index [OF assms(3)] by blast
  from send_step_keeps [OF assms(1,2) k assms(4)] assms(5) show ?thesis
    by (auto simp: step_ok_def same_primary_grows same_primary_def phase_ok_def)
qed

lemma read_step_ok:
  assumes "repl_inv C w" and "r_phase r = ToRead e v s" and "req_step C r w = Some (p, w')"
    and "phase_ok (entries C (p_wal w)) (b_entries C (peer w)) (r_phase r)"
  shows "step_ok C w p w'"
proof -
  have "ReadAll C (p_wal w) = (Inr (entries C (p_wal w)), p_wal w)" by (rule ReadAll_ok [OF repl_invD(1) [OF assms(1)]])
  with assms(2,3) have "p = ToSync e v s (entries C (p_wal w))" "w' = w" by (auto simp: req_step_def)
  moreover have "phase_ok (entries C (p_wal w)) (b_entries C (peer w)) (ToSync e v s (entries C (p_wal w)))"
  proof -
    from assms(2,4) obtain m where "e \<in> set (entries C (p_wal w))" "m \<le> length (b_entries C (peer w))" "s = of_nat m"
      by (auto simp: phase_ok_def)
    then have "prefix (entries C (p_wal w)) (entries C (p_wal w)) \<and> e \<in> set (entries C (p_wal w)) \<and>
        entries C (p_wal w) = drop 0 (entries C (p_wal w)) \<and> 0 \<le> length (b_entries C (peer w)) \<and>
        s = of_nat m \<and> m \<le> length (b_entries C (peer w))" by simp
    then show ?thesis by (simp only: phase_ok_def phase.case) blast
  qed
  ultimately show ?thesis using assms(1) by (simp add: step_ok_def)
qed

lemma sync_step_ok:
  assumes inv: "repl_inv C w" and seed: "b_entries C (peer w) \<noteq> []" and at: "r_phase r = ToSync e v s es"
    and ph: "phase_ok (entries C (p_wal w)) (b_entries C (peer w)) (r_phase r)" and step: "req_step C r w = Some (p, w')"
  shows "step_ok C w p w'"
proof (cases es)
  case Nil
  then have "p = ToRetry e v" "w' = w" using step at by (auto simp: req_step_def)
  with inv sync_done_phase [OF inv, of e v s] ph at Nil show ?thesis by (simp add: phase_ok_def step_ok_def)
next
  case (Cons e' es')
  from sync_step_phase [OF inv seed ph [unfolded at Cons]] obtain k where
    k: "k < length (entries C (p_wal w))" "e' = entries C (p_wal w) ! k"
      "Seq e' \<le> s \<Longrightarrow> k < length (b_entries C (peer w))"
      "\<And>bes. k < length bes \<Longrightarrow> length (b_entries C (peer w)) \<le> length bes \<Longrightarrow>
        phase_ok (entries C (p_wal w)) bes (ToSync e v s es')" by metis
  show ?thesis
  proof (cases "Seq e' \<le> s")
    case True
    then have "p = ToSync e v s es'" "w' = w" using step at Cons by (auto simp: req_step_def)
    with True inv k(3,4) show ?thesis by (simp add: step_ok_def)
  next
    case False
    then have snd: "send_step C e' (ToSync e v s es') ToRollback w = (p, w')" using step at Cons by (simp add: req_step_def)
    note keeps = send_step_keeps [OF inv seed k(1,2) snd]
    then have len: "length (b_entries C (peer w)) \<le> length (b_entries C (peer w'))" by (auto dest: prefix_length_le)
    with keeps k(4) [of "b_entries C (peer w')"] show ?thesis
      by (auto simp: step_ok_def same_primary_grows same_primary_def phase_ok_def)
  qed
qed

text \<open>The steps after the append.\<close>

lemma later_step_ok:
  assumes inv: "repl_inv C w" and seed: "b_entries C (peer w) \<noteq> []"
    and ph: "phase_ok (entries C (p_wal w)) (b_entries C (peer w)) (r_phase r)"
    and step: "req_step C r w = Some (p, w')" and later: "r_phase r \<noteq> ToAppend"
  shows "step_ok C w p w'"
proof (cases "r_phase r")
  case (ToApply e)
  with step obtain res m where "r_apply r (mem w) = Some (res, m)" by (auto simp: req_step_def split: bind_splits)
  with ToApply step inv ph show ?thesis
    by (auto simp: req_step_def phase_ok_def grows_def repl_inv_def step_ok_def split: sum.splits)
next
  case (ToReplicate e v)
  with step ph have "e \<in> set (entries C (p_wal w))" "send_step C e (Acked e v) (\<lambda>_. ToPing e v) w = (p, w')"
    by (simp_all add: req_step_def phase_ok_def)
  from send_step_ok [OF inv seed this] \<open>e \<in> _\<close> show ?thesis by (auto simp: phase_ok_def)
next
  case (ToPing e v)
  obtain q w1 where q: "backupLastWalSeq w = (q, w1)" by fastforce
  from ping_step [OF inv q] step q ToPing ph show ?thesis
    by (auto simp: req_step_def phase_ok_def grows_def same_primary_def step_ok_def split: sum.splits)
next
  case (ToRetry e v)
  then have "e \<in> set (b_entries C (peer w))" using ph by (simp add: phase_ok_def)
  then have "e \<in> set (entries C (p_wal w))" using set_mono_prefix [OF repl_invD(4) [OF inv]] by blast
  from send_step_ok [OF inv seed this, of v ToRollback p w'] step ToRetry show ?thesis by (simp add: req_step_def phase_ok_def)
next
  case (ToRollback err)
  with step inv show ?thesis by (auto simp: req_step_def phase_ok_def grows_def repl_inv_def step_ok_def split: bind_splits)
qed (use step inv ph later read_step_ok [OF inv _ step ph] sync_step_ok [OF inv seed _ ph step] in
  \<open>simp_all add: req_step_def phase_ok_def step_ok_def\<close>)

lemma append_step_ok:
  assumes "repl_inv C w" and "r_phase r = ToAppend" and "\<And>n. storable C ((r_entry r)\<lparr>Seq := n\<rparr>)"
    and "Suc (length (entries C (p_wal w))) < seq_limit"
  defines "e \<equiv> number_entry (entries C (p_wal w)) (r_entry r)"
  shows "\<exists>l. req_step C r w = Some (ToApply e, w\<lparr>p_wal := l\<rparr>) \<and> repl_inv C (w\<lparr>p_wal := l\<rparr>) \<and>
    entries C l = entries C (p_wal w) @ [e]"
proof -
  from append_step [OF assms(1,3,4)] obtain l where
    "Append C (r_entry r) (p_wal w) = (Inr (Seq e), e, l)" "repl_inv C (w\<lparr>p_wal := l\<rparr>)"
      "entries C l = entries C (p_wal w) @ [e]" unfolding e_def .
  with assms(2) show ?thesis by (intro exI [of _ l]) (simp add: req_step_def)
qed

lemma unappended_update:
  "i < length rs \<Longrightarrow> p \<noteq> ToAppend \<Longrightarrow>
   unappended (rs[i := (rs ! i)\<lparr>r_phase := p\<rparr>]) + (if r_phase (rs ! i) = ToAppend then 1 else 0) = unappended rs"
proof (induction rs arbitrary: i)
  case (Cons r rs)
  then show ?case by (cases i) auto
qed simp

lemma req_step_under_way:
  assumes "under_way C rs w" and "i < length rs" and "req_step C (rs ! i) w = Some (p, w')"
  shows "under_way C (rs[i := (rs ! i)\<lparr>r_phase := p\<rparr>]) w' \<and> grows C w w'"
proof -
  let ?r = "rs ! i" and ?rs = "rs[i := (rs ! i)\<lparr>r_phase := p\<rparr>]"
  have inv: "repl_inv C w" "b_entries C (peer w) \<noteq> []" "Suc (length (entries C (p_wal w)) + unappended rs) < seq_limit"
    and all: "\<And>r. r \<in> set rs \<Longrightarrow> phase_ok (entries C (p_wal w)) (b_entries C (peer w)) (r_phase r)"
      "\<And>r n. r \<in> set rs \<Longrightarrow> storable C ((r_entry r)\<lparr>Seq := n\<rparr>)"
    using assms(1) by (auto simp: under_way_def)
  have r: "?r \<in> set rs" using assms(2) by simp
  have step: "repl_inv C w' \<and> grows C w w' \<and> phase_ok (entries C (p_wal w')) (b_entries C (peer w')) p \<and> p \<noteq> ToAppend \<and>
    length (entries C (p_wal w')) = length (entries C (p_wal w)) + (if r_phase ?r = ToAppend then 1 else 0)"
  proof (cases "r_phase ?r = ToAppend")
    case True
    have "Suc (length (entries C (p_wal w))) < seq_limit" using inv(3) by simp
    from append_step_ok [OF inv(1) True all(2) [OF r] this] assms(3) True show ?thesis
      by (auto simp: grows_def phase_ok_def)
  next
    case False
    from later_step_ok [OF inv(1,2) all(1) [OF r] assms(3) False] False show ?thesis by (auto simp: step_ok_def)
  qed
  have "phase_ok (entries C (p_wal w')) (b_entries C (peer w')) (r_phase q) \<and> (\<forall>n. storable C ((r_entry q)\<lparr>Seq := n\<rparr>))"
    if "q \<in> set ?rs" for q
  proof -
    from that have "q \<in> set rs \<or> q = ?r\<lparr>r_phase := p\<rparr>" using set_update_subset_insert by fastforce
    with step all r show ?thesis by (auto simp: grows_def intro: phase_ok_mono)
  qed
  moreover have "b_entries C (peer w') \<noteq> []" using step inv(2) by (auto simp: grows_def)
  moreover have "Suc (length (entries C (p_wal w')) + unappended ?rs) < seq_limit"
    using unappended_update [OF assms(2), of p] step inv(3) by auto
  ultimately show ?thesis using step by (simp add: under_way_def)
qed

lemma step_counts:
  assumes "under_way C rs w" and "i < length rs" and "req_step C (rs ! i) w = Some (p, w')"
  shows "length (entries C (p_wal w')) + unappended (rs[i := (rs ! i)\<lparr>r_phase := p\<rparr>]) = length (entries C (p_wal w)) + unappended rs"
proof -
  have r: "rs ! i \<in> set rs" using assms(2) by simp
  have inv: "repl_inv C w" "b_entries C (peer w) \<noteq> []" "Suc (length (entries C (p_wal w))) < seq_limit"
    and all: "phase_ok (entries C (p_wal w)) (b_entries C (peer w)) (r_phase (rs ! i))"
      "\<And>n. storable C ((r_entry (rs ! i))\<lparr>Seq := n\<rparr>)"
    using assms(1) r by (auto simp: under_way_def)
  have "p \<noteq> ToAppend \<and>
    length (entries C (p_wal w')) = length (entries C (p_wal w)) + (if r_phase (rs ! i) = ToAppend then 1 else 0)"
  proof (cases "r_phase (rs ! i) = ToAppend")
    case True
    from append_step_ok [OF inv(1) True all(2) inv(3)] assms(3) True show ?thesis by auto
  next
    case False
    with later_step_ok [OF inv(1,2) all(1) assms(3) False] show ?thesis by (simp add: step_ok_def)
  qed
  with unappended_update [OF assms(2), of p] show ?thesis by auto
qed

lemma run_requests_under_way:
  "run_requests C is rs w = Some (rs', w') \<Longrightarrow> under_way C rs w \<Longrightarrow>
   under_way C rs' w' \<and> grows C w w' \<and> length rs' = length rs"
proof (induction "is" arbitrary: rs w)
  case (Cons i "is")
  show ?case
  proof (cases "i < length rs")
    case True
    with Cons.prems(1) obtain p w1 where
      s: "req_step C (rs ! i) w = Some (p, w1)" "run_requests C is (rs[i := (rs ! i)\<lparr>r_phase := p\<rparr>]) w1 = Some (rs', w')"
      by (auto split: bind_splits)
    note u = req_step_under_way [OF Cons.prems(2) True s(1)]
    from Cons.IH [OF s(2)] u show ?thesis by (auto intro: grows_trans)
  qed (use Cons in simp)
qed simp

subsection \<open>Every acknowledged request is on both logs\<close>

text \<open>The entry a request carries is its own, with a number.\<close>

fun phase_entry :: "'v phase \<Rightarrow> WalEntry option" where
  "phase_entry (ToApply e) = Some e"
| "phase_entry (ToReplicate e v) = Some e"
| "phase_entry (ToPing e v) = Some e"
| "phase_entry (ToRead e v s) = Some e"
| "phase_entry (ToSync e v s es) = Some e"
| "phase_entry (ToRetry e v) = Some e"
| "phase_entry (Acked e v) = Some e"
| "phase_entry _ = None"

definition own_entry :: "'v request \<Rightarrow> bool" where
  "own_entry r \<longleftrightarrow> (case phase_entry (r_phase r) of Some e \<Rightarrow> Op e = Op (r_entry r) | None \<Rightarrow> True)"

lemma Append_op: "Append C e l = (res, e', l') \<Longrightarrow> Op e' = Op e"
  by (auto simp: Append_def Let_def split: sum.splits prod.splits option.splits if_splits)

lemma req_step_own:
  assumes "req_step C r w = Some (p, w')" and "own_entry r"
  shows "own_entry (r\<lparr>r_phase := p\<rparr>)"
proof (cases "r_phase r")
  case ToAppend
  with assms(1) show ?thesis by (auto simp: req_step_def own_entry_def dest: Append_op split: prod.splits sum.splits)
next
  case (ToSync e v s es)
  with assms show ?thesis
    by (cases es) (auto simp: req_step_def own_entry_def send_step_def split: prod.splits option.splits if_splits)
qed (use assms in \<open>auto simp: req_step_def own_entry_def send_step_def split: prod.splits option.splits sum.splits bind_splits\<close>)

lemma run_requests_own:
  "run_requests C is rs w = Some (rs', w') \<Longrightarrow> \<forall>r \<in> set rs. own_entry r \<Longrightarrow>
   (\<forall>r \<in> set rs'. own_entry r) \<and> map r_entry rs' = map r_entry rs"
proof (induction "is" arbitrary: rs w)
  case (Cons i "is")
  show ?case
  proof (cases "i < length rs")
    case True
    with Cons.prems(1) obtain p w1 where
      s: "req_step C (rs ! i) w = Some (p, w1)" "run_requests C is (rs[i := (rs ! i)\<lparr>r_phase := p\<rparr>]) w1 = Some (rs', w')"
      by (auto split: bind_splits)
    have "own_entry ((rs ! i)\<lparr>r_phase := p\<rparr>)" using req_step_own [OF s(1)] Cons.prems(2) True by simp
    then have "\<forall>r \<in> set (rs[i := (rs ! i)\<lparr>r_phase := p\<rparr>]). own_entry r"
      using Cons.prems(2) set_update_subset_insert by fastforce
    moreover have "map r_entry (rs[i := (rs ! i)\<lparr>r_phase := p\<rparr>]) = map r_entry rs"
      using True by (simp add: map_update) (metis list_update_id nth_map)
    ultimately show ?thesis using Cons.IH [OF s(2)] by simp
  qed (use Cons in simp)
qed simp

lemma unappended_all: "\<forall>r \<in> set rs. r_phase r = ToAppend \<Longrightarrow> unappended rs = length rs"
  by (induction rs) auto

lemma new_requests_under_way:
  assumes "repl_inv C w" and "b_entries C (peer w) \<noteq> []" and "Suc (length (entries C (p_wal w)) + length rs) < seq_limit"
    and "\<And>r n. r \<in> set rs \<Longrightarrow> r_phase r = ToAppend \<and> storable C ((r_entry r)\<lparr>Seq := n\<rparr>)"
  shows "under_way C rs w" "\<forall>r \<in> set rs. own_entry r"
  using assms unappended_all [of rs] by (auto simp: under_way_def phase_ok_def own_entry_def)

subsection \<open>What a working network gives\<close>

lemma replicate_entry_stays_online: "online w \<Longrightarrow> replicate_entry C e w = (q, w') \<Longrightarrow> online w'"
proof -
  assume on: "online w" and r: "replicate_entry C e w = (q, w')"
  have "accepting (handler (snd (Replicate C req b))) = accepting (handler b)" for req b
    by (auto simp: Replicate_def Let_def split: option.split prod.split)
  then show ?thesis
    using on r rpc_online [OF on, of "Replicate C \<lparr>req_Entry = Some e\<rparr>"]
    by (auto simp: replicate_entry_def online_def split: if_splits)
qed

text \<open>A send of an entry that follows the backup's log, or is in it, succeeds.\<close>

lemma send_step_online:
  assumes "repl_inv C w" and "online w" and "k < length (entries C (p_wal w))" and "e = entries C (p_wal w) ! k"
    and "k \<le> length (b_entries C (peer w))" and "send_step C e nxt fail w = (p, w')"
  shows "p = nxt"
proof -
  note i = repl_invD [OF assms(1)]
  from replicate_entry_online [OF i(3,2) i(5) assms(3,5,2)] assms(3,4) obtain w1 where
    "replicate_entry C e w = (None, w1)" by auto
  with assms(6) show ?thesis by (simp add: send_step_def)
qed

text \<open>
  How many turns a request needs at most, when the log has at most \<open>n\<close> entries in the end; and that a
  request is not being refused for the sake of the network.
\<close>

fun turns :: "nat \<Rightarrow> 'v phase \<Rightarrow> nat" where
  "turns n ToAppend = n + 7" | "turns n (ToApply e) = n + 6" | "turns n (ToReplicate e v) = n + 5"
| "turns n (ToPing e v) = n + 4" | "turns n (ToRead e v s) = n + 3" | "turns n (ToSync e v s es) = length es + 2"
| "turns n (ToRetry e v) = 1" | "turns n (ToRollback err) = 1" | "turns n (Acked e v) = 0" | "turns n (Refused err) = 0"

definition own_fault :: "'v request \<Rightarrow> bool" where
  "own_fault r \<longleftrightarrow>
     (case r_phase r of
        ToRollback err \<Rightarrow> False
      | Refused err \<Rightarrow> \<exists>m m'. r_apply r m = Some (Inl err, m')
      | _ \<Rightarrow> True)"

lemma req_step_online:
  assumes inv: "repl_inv C w" and seed: "b_entries C (peer w) \<noteq> []"
    and ph: "phase_ok (entries C (p_wal w)) (b_entries C (peer w)) (r_phase r)" and st: "\<And>n. storable C ((r_entry r)\<lparr>Seq := n\<rparr>)"
    and room: "r_phase r = ToAppend \<Longrightarrow> Suc (length (entries C (p_wal w))) < seq_limit" and n: "length (entries C (p_wal w)) \<le> n"
    and on: "online w" and own: "own_fault r" and step: "req_step C r w = Some (p, w')"
  shows "online w' \<and> own_fault (r\<lparr>r_phase := p\<rparr>) \<and> turns n p \<le> turns n (r_phase r) - 1"
proof (cases "r_phase r")
  case ToAppend
  from append_step_ok [OF inv ToAppend st room [OF ToAppend]] step on ToAppend show ?thesis
    by (auto simp: online_def own_fault_def)
next
  case (ToApply e)
  with step on show ?thesis
    by (auto simp: req_step_def online_def own_fault_def split: bind_splits prod.splits sum.splits) blast
next
  case (ToReplicate e v)
  obtain q w1 where q: "replicate_entry C e w = (q, w1)" by fastforce
  from replicate_entry_stays_online [OF on q] step q ToReplicate show ?thesis
    by (auto simp: req_step_def send_step_def own_fault_def split: option.splits)
next
  case (ToPing e v)
  have "backupLastWalSeq w = (Inr (LastWalSeq (Ping (peer w))), w)"
    using rpc_online [OF on, of "\<lambda>b. (Ping b, b)"] by (simp add: backupLastWalSeq_def)
  with step ToPing on show ?thesis by (auto simp: req_step_def own_fault_def)
next
  case (ToRead e v s)
  have "ReadAll C (p_wal w) = (Inr (entries C (p_wal w)), p_wal w)" by (rule ReadAll_ok [OF repl_invD(1) [OF inv]])
  with step ToRead on n show ?thesis by (auto simp: req_step_def own_fault_def)
next
  case (ToSync e v s es)
  show ?thesis
  proof (cases es)
    case Nil
    with step ToSync on show ?thesis by (auto simp: req_step_def own_fault_def)
  next
    case (Cons e' es')
    from sync_step_phase [OF inv seed ph [unfolded ToSync Cons]] obtain k where
      k: "k < length (entries C (p_wal w))" "e' = entries C (p_wal w) ! k" "\<not> Seq e' \<le> s \<Longrightarrow> k \<le> length (b_entries C (peer w))"
      by metis
    obtain q w1 where q: "replicate_entry C e' w = (q, w1)" by fastforce
    have "p = ToSync e v s es'" using step ToSync Cons send_step_online [OF inv on k(1,2)] k(3)
      by (auto simp: req_step_def split: if_splits)
    moreover have "online w'" using replicate_entry_stays_online [OF on q] step ToSync Cons q on
      by (auto simp: req_step_def send_step_def split: option.splits if_splits)
    ultimately show ?thesis using ToSync Cons by (simp add: own_fault_def)
  qed
next
  case (ToRetry e v)
  then have "e \<in> set (b_entries C (peer w))" using ph by (simp add: phase_ok_def)
  from mem_index [OF this] obtain k where k: "k < length (b_entries C (peer w))" "e = b_entries C (peer w) ! k" by blast
  then have "k < length (entries C (p_wal w))" "e = entries C (p_wal w) ! k"
    using repl_invD(4) [OF inv] by (auto simp: prefix_def nth_append)
  from send_step_online [OF inv on this] k(1) step ToRetry have p: "p = Acked e v" by (auto simp: req_step_def)
  obtain q w1 where q: "replicate_entry C e w = (q, w1)" by fastforce
  have "online w'" using replicate_entry_stays_online [OF on q] step ToRetry q
    by (auto simp: req_step_def send_step_def split: option.splits)
  with p show ?thesis by (simp add: own_fault_def)
next
  case (ToRollback err)
  with own show ?thesis by (simp add: own_fault_def)
next
  case (Acked e v)
  with step have "p = Acked e v" "w' = w" by (auto simp: req_step_def)
  with on show ?thesis by (simp add: own_fault_def)
next
  case (Refused err)
  with step have "p = Refused err" "w' = w" by (auto simp: req_step_def)
  with Refused on own show ?thesis by (simp add: own_fault_def)
qed

text \<open>
  Nothing panics: a change in memory that keeps an invariant \<open>I\<close> of the state is never run outside
  it, since no other step touches the memory.
\<close>

definition runs_within :: "(store \<Rightarrow> bool) \<Rightarrow> 'v applier \<Rightarrow> bool" where
  "runs_within I f \<longleftrightarrow> (\<forall>m. I m \<longrightarrow> (\<exists>res m'. f m = Some (res, m') \<and> I m'))"

lemma replicate_entry_mem: "replicate_entry C e w = (q, w') \<Longrightarrow> mem w' = mem w"
proof -
  assume r: "replicate_entry C e w = (q, w')"
  obtain x w1 where x: "rpc (Replicate C \<lparr>req_Entry = Some e\<rparr>) w = (x, w1)" by fastforce
  have "mem w1 = mem w" using rpc_cases(1) [OF x] by (simp add: same_primary_def)
  with r x show ?thesis by (auto simp: replicate_entry_def split: sum.splits if_splits)
qed

lemma send_step_mem: "mem (snd (send_step C e nxt fail w)) = mem w"
  by (auto simp: send_step_def dest: replicate_entry_mem split: prod.splits option.splits)

lemma send_step_runs: "I (mem w) \<Longrightarrow> \<exists>p w'. send_step C e nxt fail w = (p, w') \<and> I (mem w')"
  using send_step_mem [of C e nxt fail w] by (metis prod.collapse)

lemma backupLastWalSeq_mem: "backupLastWalSeq w = (q, w') \<Longrightarrow> mem w' = mem w"
proof -
  assume r: "backupLastWalSeq w = (q, w')"
  obtain x w1 where x: "rpc (\<lambda>b. (Ping b, b)) w = (x, w1)" by fastforce
  have "mem w1 = mem w" using rpc_cases(1) [OF x] by (simp add: same_primary_def)
  with r x show ?thesis by (auto simp: backupLastWalSeq_def split: sum.splits)
qed

lemma req_step_runs:
  assumes "own_fault r" and "I (mem w)" and "runs_within I (r_apply r)"
  shows "\<exists>p w'. req_step C r w = Some (p, w') \<and> I (mem w')"
proof (cases "r_phase r")
  case (ToApply e)
  with assms(2,3) show ?thesis by (fastforce simp: req_step_def runs_within_def)
next
  case (ToSync e v s es)
  with assms(2) show ?thesis
    by (cases es) (auto simp: req_step_def intro: send_step_runs)
next
  case (ToRollback err)
  with assms(1) show ?thesis by (simp add: own_fault_def)
qed (use assms(2) in \<open>auto simp: req_step_def intro: send_step_runs dest: backupLastWalSeq_mem split: prod.splits sum.splits\<close>)

lemma online_step:
  assumes u: "under_way C rs w" and on: "online w" and own: "\<forall>r \<in> set rs. own_fault r"
    and n: "length (entries C (p_wal w)) + unappended rs \<le> n" and j: "j < length rs"
    and step: "req_step C (rs ! j) w = Some (p, w')"
  defines "rs' \<equiv> rs[j := (rs ! j)\<lparr>r_phase := p\<rparr>]"
  shows "under_way C rs' w'" "online w'" "\<forall>r \<in> set rs'. own_fault r"
    "length (entries C (p_wal w')) + unappended rs' \<le> n" "turns n p \<le> turns n (r_phase (rs ! j)) - 1"
proof -
  have r: "rs ! j \<in> set rs" using j by simp
  have inv: "repl_inv C w" "b_entries C (peer w) \<noteq> []"
    and ph: "phase_ok (entries C (p_wal w)) (b_entries C (peer w)) (r_phase (rs ! j))"
    and st: "\<And>n. storable C ((r_entry (rs ! j))\<lparr>Seq := n\<rparr>)"
    and lim: "Suc (length (entries C (p_wal w)) + unappended rs) < seq_limit"
    using u r unfolding under_way_def by blast+
  have room: "Suc (length (entries C (p_wal w))) < seq_limit" "length (entries C (p_wal w)) \<le> n" using lim n by simp_all
  have o: "online w'" "own_fault ((rs ! j)\<lparr>r_phase := p\<rparr>)" "turns n p \<le> turns n (r_phase (rs ! j)) - 1"
    using req_step_online [OF inv ph st room on bspec [OF own r] step] by simp_all
  then show "online w'" "turns n p \<le> turns n (r_phase (rs ! j)) - 1" by simp_all
  show "under_way C rs' w'" using req_step_under_way [OF u j step] by (simp add: rs'_def)
  show "\<forall>r \<in> set rs'. own_fault r" unfolding rs'_def using o(2) own set_update_subset_insert by fastforce
  show "length (entries C (p_wal w')) + unappended rs' \<le> n" using step_counts [OF u j step] n by (simp add: rs'_def)
qed

lemma run_requests_online:
  assumes "under_way C rs w" and "online w" and "\<forall>r \<in> set rs. own_fault r" and "\<forall>r \<in> set rs. runs_within I (r_apply r)"
    and "I (mem w)" and "length (entries C (p_wal w)) + unappended rs \<le> n"
  shows "\<exists>rs' w'. run_requests C sched rs w = Some (rs', w') \<and> I (mem w') \<and> (\<forall>r \<in> set rs'. own_fault r) \<and>
    (\<forall>i < length rs. turns n (r_phase (rs' ! i)) \<le> turns n (r_phase (rs ! i)) - count_list sched i)"
  using assms
proof (induction sched arbitrary: rs w)
  case (Cons j sched)
  show ?case
  proof (cases "j < length rs")
    case True
    have r: "rs ! j \<in> set rs" using True by simp
    from req_step_runs [of "rs ! j" I w C] Cons.prems(3-5) r obtain p w1 where
      s: "req_step C (rs ! j) w = Some (p, w1)" "I (mem w1)" by blast
    let ?rs = "rs[j := (rs ! j)\<lparr>r_phase := p\<rparr>]"
    note o = online_step [OF Cons.prems(1-3,6) True s(1)]
    have "runs_within I (r_apply ((rs ! j)\<lparr>r_phase := p\<rparr>))" using Cons.prems(4) r by simp
    then have "\<forall>q \<in> set ?rs. runs_within I (r_apply q)" using Cons.prems(4) set_update_subset_insert by fastforce
    from Cons.IH [OF o(1-3) this s(2) o(4)] obtain rs' w' where
      ih: "run_requests C sched ?rs w1 = Some (rs', w')" "I (mem w')" "\<forall>q \<in> set rs'. own_fault q"
        "\<forall>i < length rs. turns n (r_phase (rs' ! i)) \<le> turns n (r_phase (?rs ! i)) - count_list sched i"
      by auto
    have "turns n (r_phase (rs' ! i)) \<le> turns n (r_phase (rs ! i)) - count_list (j # sched) i" if "i < length rs" for i
      using ih(4) that o(5) by (cases "i = j") force+
    with ih(1-3) s(1) True show ?thesis by (intro exI [of _ rs'] exI [of _ w']) simp
  qed (use Cons in auto)
qed simp

text \<open>New requests that had enough turns are done.\<close>

lemma enough_turns:
  assumes "under_way C rs w" and "\<And>r. r \<in> set rs \<Longrightarrow> r_phase r = ToAppend" and "online w"
    and "\<And>r. r \<in> set rs \<Longrightarrow> runs_within I (r_apply r)" and "I (mem w)"
    and "\<And>i. i < length rs \<Longrightarrow> length (entries C (p_wal w)) + length rs + 7 \<le> count_list sched i"
  shows "\<exists>rs' w'. run_requests C sched rs w = Some (rs', w') \<and> I (mem w') \<and>
    (\<forall>r \<in> set rs'. own_fault r \<and> turns (length (entries C (p_wal w)) + length rs) (r_phase r) = 0)"
proof -
  let ?n = "length (entries C (p_wal w)) + length rs"
  have own: "\<forall>r \<in> set rs. own_fault r" "unappended rs = length rs" "\<forall>r \<in> set rs. runs_within I (r_apply r)"
    using assms(2,4) unappended_all [of rs] by (auto simp: own_fault_def)
  from run_requests_online [OF assms(1,3) own(1,3), of ?n sched] assms(5) own(2) obtain rs' w' where
    run: "run_requests C sched rs w = Some (rs', w')" "I (mem w')" and
    o: "\<forall>r \<in> set rs'. own_fault r" "\<forall>i < length rs. turns ?n (r_phase (rs' ! i)) \<le> turns ?n (r_phase (rs ! i)) - count_list sched i"
    by auto
  have "turns ?n (r_phase q) = 0" if "q \<in> set rs'" for q
  proof -
    from that run_requests_under_way [OF run(1) assms(1)] obtain i where i: "i < length rs" "q = rs' ! i" by (metis in_set_conv_nth)
    have "r_phase (rs ! i) = ToAppend" using assms(2) i(1) by simp
    with o(2) i assms(6) [OF i(1)] show ?thesis by fastforce
  qed
  with run o(1) show ?thesis by blast
qed

subsection \<open>A pair with one entry on both logs\<close>

lemma handshake_runs_within: "runs_within store_inv (handshake_apply ip port)"
  unfolding runs_within_def
proof (intro allI impI)
  fix m
  assume m: "store_inv m"
  show "\<exists>res m'. handshake_apply ip port m = Some (res, m') \<and> store_inv m'"
  proof (cases "CurrentClients m (ClientKey ip port)")
    case None
    with ApplyHandshake_ok [OF m, of ip port] show ?thesis by (auto simp: handshake_apply_def)
  next
    case (Some a)
    with m show ?thesis by (simp add: handshake_apply_def ApplyHandshake_def Let_def)
  qed
qed

lemma paired_world:
  obtains w where "synced wire_codec fresh_server w" "online w" "CurrentClients (mem w) (client_key 5000) = Some 0"
    "length (StationList (mem w)) = 2" "length (entries wire_codec (p_wal w)) = 1"
    "CurrentClients (mem w) (client_key 5001) = None"
proof -
  obtain w where w: "Handshake fresh_server \<lparr>hello_UdpPort = 5000\<rparr> (fresh_world (sconst Delivered)) =
       Some (Inr \<lparr>welcome_NumStations = 2\<rparr>, w)" "serving wire_codec fresh_server w"
    "CurrentClients (mem w) (client_key 5000) = Some 0" "CurrStation (heap (mem w) ! 0) = -1"
    "station_names (mem w) = [''mp3/a.mp3'', ''mp3/b.mp3'']" "length (entries wire_codec (p_wal w)) = 1" "online w"
    "CurrentClients (mem w) = [client_key 5000 \<mapsto> 0]"
    by (rule connected_world)
  have "synced wire_codec fresh_server w"
    using acked_step_synced [OF acked_step.hello [OF fresh_room w(1)] fresh_synced] by simp
  moreover have "length (StationList (mem w)) = 2"
    using arg_cong [OF w(5), of length] by (simp add: station_names_def)
  moreover have "CurrentClients (mem w) (client_key 5001) = None" using w(8) by (simp add: ClientKey_inject)
  ultimately show ?thesis using that w(3,6,7) by blast
qed

lemma paired_requests:
  assumes "synced wire_codec fresh_server w" and "length (entries wire_codec (p_wal w)) = 1"
  shows "repl_inv wire_codec w" "b_entries wire_codec (peer w) \<noteq> []" "store_inv (mem w)"
    and "Suc (length (entries wire_codec (p_wal w)) + length [handshake_request 5001, handshake_request 5002]) < seq_limit"
    and "\<And>r n. r \<in> set [handshake_request 5001, handshake_request 5002] \<Longrightarrow>
      r_phase r = ToAppend \<and> storable wire_codec ((r_entry r)\<lparr>Seq := n\<rparr>)"
    and "\<And>r. r \<in> set [handshake_request 5001, handshake_request 5002] \<Longrightarrow> runs_within store_inv (r_apply r)"
  using assms handshake_runs_within servingD(3) [of wire_codec fresh_server w]
  by (auto simp: synced_def serving_def seq_limit_def handshake_entry_def getClientIP_def)

subsection \<open>The two theorems\<close>

text \<open>
  C3: Any number of requests run at the same time, their steps interleaved in any order and with any
  behaviour of the network. On a pair whose backup has an entry the backup's log is at every moment
  a prefix of the primary's, neither log loses an entry, and the entry of every request that has
  been acknowledged is in both.
\<close>

theorem concurrent_requests_stay_replicated:
  assumes "run_requests C sched rs w = Some (rs', w')"
    and "repl_inv C w" and "b_entries C (peer w) \<noteq> []" and "Suc (length (entries C (p_wal w)) + length rs) < seq_limit"
    and "\<And>r n. r \<in> set rs \<Longrightarrow> r_phase r = ToAppend \<and> storable C ((r_entry r)\<lparr>Seq := n\<rparr>)"
  shows "prefix (entries C (p_wal w)) (entries C (p_wal w')) \<and>
    prefix (b_entries C (peer w)) (b_entries C (peer w')) \<and> prefix (b_entries C (peer w')) (entries C (p_wal w')) \<and>
    map r_entry rs' = map r_entry rs \<and>
    (\<forall>r e v. r \<in> set rs' \<and> r_phase r = Acked e v \<longrightarrow>
      Op e = Op (r_entry r) \<and> e \<in> set (b_entries C (peer w')) \<and> e \<in> set (entries C (p_wal w')))"
proof -
  note u = new_requests_under_way [OF assms(2-5)]
  note r = run_requests_under_way [OF assms(1) u(1)]
  note o = run_requests_own [OF assms(1) u(2)]
  have inv: "repl_inv C w'" and ph: "\<forall>r \<in> set rs'. phase_ok (entries C (p_wal w')) (b_entries C (peer w')) (r_phase r)"
    using r by (auto simp: under_way_def)
  have "Op e = Op (r_entry q) \<and> e \<in> set (b_entries C (peer w')) \<and> e \<in> set (entries C (p_wal w'))"
    if "q \<in> set rs'" "r_phase q = Acked e v" for q e v
    using that o ph set_mono_prefix [OF repl_invD(4) [OF inv]] by (fastforce simp: own_entry_def phase_ok_def)
  then show ?thesis using r o repl_invD(4) [OF inv] unfolding grows_def by blast
qed

theorem concurrent_requests_stay_replicated_witness:
  "\<exists>w rs' w'. run_requests wire_codec [0, 1, 1, 0] [handshake_request 5001, handshake_request 5002] w = Some (rs', w') \<and>
    b_entries wire_codec (peer w) \<noteq> [] \<and> prefix (b_entries wire_codec (peer w')) (entries wire_codec (p_wal w'))"
proof -
  let ?rs = "[handshake_request 5001, handshake_request 5002]"
  obtain w where w: "synced wire_codec fresh_server w" "online w" "length (entries wire_codec (p_wal w)) = 1"
    using paired_world by metis
  note p = paired_requests [OF w(1,3)]
  have "\<forall>r \<in> set ?rs. own_fault r" "\<forall>r \<in> set ?rs. runs_within store_inv (r_apply r)" using p(6) by (auto simp: own_fault_def)
  with run_requests_online [of wire_codec ?rs w store_inv 3 "[0, 1, 1, 0]"] new_requests_under_way [OF p(1,2,4,5)] p(3) w(2,3)
  obtain rs' w' where "run_requests wire_codec [0, 1, 1, 0] ?rs w = Some (rs', w')" by auto
  with concurrent_requests_stay_replicated [OF this p(1,2,4,5)] p(2) show ?thesis by blast
qed

text \<open>
  C4: On a working network and a pair whose backup already has an entry, no request fails for the sake
  of another, however their steps interleave. The changes the requests make in memory keep an
  invariant under which they do not panic; then, once each request has had as many turns as there
  are entries in the end, and seven more, every request is acknowledged and its entry on the backup,
  except one whose own change in memory was refused, and nothing has panicked. A request that finds
  a gap on the backup closes it for the others too. On an empty backup this fails
  (\<^verbatim>\<open>Interleaving\<close> has a run).
\<close>

theorem concurrent_requests_are_answered:
  assumes "repl_inv C w" and "b_entries C (peer w) \<noteq> []" and "Suc (length (entries C (p_wal w)) + length rs) < seq_limit"
    and "\<And>r n. r \<in> set rs \<Longrightarrow> r_phase r = ToAppend \<and> storable C ((r_entry r)\<lparr>Seq := n\<rparr>)"
    and "I (mem w)" and "\<And>r. r \<in> set rs \<Longrightarrow> runs_within I (r_apply r)"
    and "online w" and "\<And>i. i < length rs \<Longrightarrow> length (entries C (p_wal w)) + length rs + 7 \<le> count_list sched i"
  shows "\<exists>rs' w'. run_requests C sched rs w = Some (rs', w') \<and> I (mem w') \<and> map r_entry rs' = map r_entry rs \<and>
    list_all (\<lambda>r. case r_phase r of
        Acked e v \<Rightarrow> Op e = Op (r_entry r) \<and> e \<in> set (b_entries C (peer w'))
      | Refused err \<Rightarrow> \<exists>m m'. r_apply r m = Some (Inl err, m')
      | _ \<Rightarrow> False) rs'"
proof -
  note u = new_requests_under_way [OF assms(1-4)]
  from enough_turns [of C rs w I sched] u(1) assms(4-8) obtain rs' w' where
    run: "run_requests C sched rs w = Some (rs', w')" "I (mem w')"
    and o: "\<forall>r \<in> set rs'. own_fault r \<and> turns (length (entries C (p_wal w)) + length rs) (r_phase r) = 0"
    by blast
  note r = run_requests_under_way [OF run(1) u(1)]
  note own = run_requests_own [OF run(1) u(2)]
  have "case r_phase q of Acked e v \<Rightarrow> Op e = Op (r_entry q) \<and> e \<in> set (b_entries C (peer w'))
      | Refused err \<Rightarrow> \<exists>m m'. r_apply q m = Some (Inl err, m') | _ \<Rightarrow> False" if "q \<in> set rs'" for q
    using that o own r by (cases "r_phase q") (force simp: own_fault_def own_entry_def under_way_def phase_ok_def)+
  with run own show ?thesis by (auto simp: list_all_iff)
qed

theorem concurrent_requests_are_answered_witness:
  "\<exists>w rs' w'. run_requests wire_codec (replicate 10 0 @ replicate 10 1) [handshake_request 5001, handshake_request 5002] w =
      Some (rs', w') \<and> online w \<and> length rs' = 2 \<and> store_inv (mem w')"
proof -
  let ?rs = "[handshake_request 5001, handshake_request 5002]"
  obtain w where w: "synced wire_codec fresh_server w" "online w" "length (entries wire_codec (p_wal w)) = 1"
    using paired_world by metis
  note p = paired_requests [OF w(1,3)]
  have "length (entries wire_codec (p_wal w)) + length ?rs + 7 \<le> count_list (replicate 10 0 @ replicate 10 1) i" if "i < length ?rs" for i
    using that w(3) by (auto simp: less_Suc_eq numeral_eq_Suc)
  from concurrent_requests_are_answered [OF p(1,2,4,5,3,6) w(2) this] obtain rs' w' where
    "run_requests wire_codec (replicate 10 0 @ replicate 10 1) ?rs w = Some (rs', w')" "store_inv (mem w')"
    "map r_entry rs' = map r_entry ?rs" by blast
  moreover have "length rs' = 2" using calculation(3) by (metis length_map list.size(3,4) One_nat_def Suc_1 add.commute plus_1_eq_Suc)
  ultimately show ?thesis using w(2) by blast
qed

end
