(* ===== verification/Interleaving.thy ===== *)
theory Interleaving
  imports Requests_Inv
begin

section \<open>Schedules that go wrong\<close>

text \<open>
  Two schedules of two requests on a perfect network: both requests are acknowledged, and
  afterwards the memory and the logs, or the two logs, disagree. They show where the invariant of
  concurrent requests ends: it needs an entry on the backup, and it says nothing of the memory.
\<close>

subsection \<open>Steps on a perfect network\<close>

lemma send_next:
  assumes inv: "repl_inv C w" and on: "online w" and es: "entries C (p_wal w) = b_entries C (peer w) @ e # es"
  shows "\<exists>w'. send_step C e nxt fail w = (nxt, w') \<and> repl_inv C w' \<and> online w' \<and> same_primary w w' \<and>
    b_entries C (peer w') = b_entries C (peer w) @ [e]"
proof -
  let ?bs = "b_entries C (peer w)"
  let ?pes = "entries C (p_wal w)"
  note i = repl_invD [OF inv]
  have k: "length ?bs < length ?pes" "?pes ! length ?bs = e" using es by simp_all
  have st: "storable C (?pes ! length ?bs)" using i(5) [of e] es k(2) by simp
  from replicate_entry_online [OF i(3,2) st k(1) _ on] obtain w1 where
    w1: "replicate_entry C e w = (None, w1)" "online w1" using k(2) by auto
  have seed: "?bs \<noteq> [] \<or> length ?bs = 0" by simp
  from replicate_entry_inv [OF i(3,2) st k(1) seed, of None w1] k(2) w1(1) have
    r: "backup_inv C ?pes (peer w1)" "same_primary w w1" "length (b_entries C (peer w1)) = Suc (length ?bs)" by auto
  have "prefix (b_entries C (peer w1)) (?bs @ e # es)" using r(1) es by (simp add: backup_inv_def)
  then have "b_entries C (peer w1) = take (Suc (length ?bs)) (?bs @ e # es)"
    using r(3) by (metis append_eq_conv_conj prefix_def)
  then have b: "b_entries C (peer w1) = ?bs @ [e]" by simp
  have "send_step C e nxt fail w = (nxt, note_seq (Seq e) w1)" using w1(1) by (simp add: send_step_def)
  moreover have "repl_inv C (note_seq (Seq e) w1)"
    using r(1,2) i(1,2) by (simp add: repl_inv_def same_primary_def)
  ultimately show ?thesis using w1(2) r(2) b by (simp add: same_primary_def)
qed

text \<open>The steps of the two requests of a handler, once appended.\<close>

lemma apply_step: "r_apply r (mem w) = Some (Inr v, m) \<Longrightarrow>
  req_step C (r\<lparr>r_phase := ToApply e\<rparr>) w = Some (ToReplicate e v, w\<lparr>mem := m\<rparr>)"
  by (simp add: req_step_def)

lemma replicate_step: "send_step C e (Acked e v) (\<lambda>_. ToPing e v) w = (Acked e v, w') \<Longrightarrow>
  req_step C (r\<lparr>r_phase := ToReplicate e v\<rparr>) w = Some (Acked e v, w')"
  by (simp add: req_step_def)

text \<open>Two requests that both append first.\<close>

lemma two_appends:
  assumes "repl_inv C w" and "r_phase r = ToAppend" and "r_phase r' = ToAppend"
    and "\<And>n. storable C ((r_entry r)\<lparr>Seq := n\<rparr>)" and "\<And>n. storable C ((r_entry r')\<lparr>Seq := n\<rparr>)"
    and "Suc (Suc (length (entries C (p_wal w)))) < seq_limit"
  defines "e \<equiv> number_entry (entries C (p_wal w)) (r_entry r)"
  defines "e' \<equiv> number_entry (entries C (p_wal w) @ [e]) (r_entry r')"
  shows "\<exists>l. run_requests C (0 # 1 # sched) [r, r'] w =
      run_requests C sched [r\<lparr>r_phase := ToApply e\<rparr>, r'\<lparr>r_phase := ToApply e'\<rparr>] (w\<lparr>p_wal := l\<rparr>) \<and>
    repl_inv C (w\<lparr>p_wal := l\<rparr>) \<and> entries C l = entries C (p_wal w) @ [e, e']"
proof -
  from append_step_ok [OF assms(1,2,4)] assms(6) obtain l1 where
    l1: "req_step C r w = Some (ToApply e, w\<lparr>p_wal := l1\<rparr>)" "repl_inv C (w\<lparr>p_wal := l1\<rparr>)"
      "entries C l1 = entries C (p_wal w) @ [e]" by (auto simp: e_def)
  from append_step_ok [OF l1(2) assms(3,5)] assms(6) l1(3) obtain l2 where
    l2: "req_step C r' (w\<lparr>p_wal := l1\<rparr>) = Some (ToApply e', w\<lparr>p_wal := l2\<rparr>)" "repl_inv C (w\<lparr>p_wal := l2\<rparr>)"
      "entries C l2 = entries C (p_wal w) @ [e, e']" by (auto simp: e'_def)
  with l1(1) show ?thesis by (intro exI [of _ l2]) simp
qed

subsection \<open>Two station changes of one client\<close>

text \<open>
  C20: Two station changes of the same client whose steps interleave (both append, the later one
  applies first, both replicate) are both acknowledged on a perfect network, and afterwards the
  memory and the log disagree: the primary streams the first request's station, a replay of
  either log gives the second's. The order of the log is not the order of the memory.
\<close>

theorem racing_station_changes_diverge:
  assumes "synced C s w" and "online w" and "CurrentClients (mem w) (client_key port) = Some a"
    and "i < int (length (StationList (mem w)))" and "0 \<le> i" and "j < int (length (StationList (mem w)))" and "0 \<le> j"
    and "Suc (Suc (length (entries C (p_wal w)))) < seq_limit"
    and "\<And>x n. storable C (setstation_entry port x p\<lparr>Seq := n\<rparr>)"
  shows "\<exists>ei ej ni nj w'.
    run_requests C [0, 1, 1, 0, 0, 1] [setstation_request port i p, setstation_request port j p] w =
      Some ([setstation_request port i p\<lparr>r_phase := Acked ei ni\<rparr>, setstation_request port j p\<lparr>r_phase := Acked ej nj\<rparr>], w') \<and>
    b_entries C (peer w') = entries C (p_wal w') \<and>
    abs_store (mem w') = (abs_store (mem w))(client_key port \<mapsto> i) \<and>
    a_replay (entries C (p_wal w')) Map.empty = Some ((abs_store (mem w))(client_key port \<mapsto> j))"
proof -
  let ?k = "client_key port" and ?es = "entries C (p_wal w)"
  let ?ri = "setstation_request port i p" and ?rj = "setstation_request port j p"
  have sv: "serving C s w" "b_entries C (peer w) = ?es" using assms(1) by (simp_all add: synced_def)
  have inv: "repl_inv C w" "reflects ?es (mem w)" using sv(1) by (simp_all add: serving_def)
  define ei where "ei = number_entry ?es (setstation_entry port i p)"
  define ej where "ej = number_entry (?es @ [ei]) (setstation_entry port j p)"
  from two_appends [OF inv(1), of ?ri ?rj "[1, 0, 0, 1]"] assms(8,9) obtain l where
    l: "run_requests C [0, 1, 1, 0, 0, 1] [?ri, ?rj] w =
        run_requests C [1, 0, 0, 1] [?ri\<lparr>r_phase := ToApply ei\<rparr>, ?rj\<lparr>r_phase := ToApply ej\<rparr>] (w\<lparr>p_wal := l\<rparr>)"
      "repl_inv C (w\<lparr>p_wal := l\<rparr>)" "entries C l = ?es @ [ei, ej]" by (auto simp: ei_def ej_def)
  from ApplySetStation_ok [OF servingD(3) [OF sv(1)] assms(3,7,6)] obtain nj m1 where
    m1: "ApplySetStation ?k j (mem w) = Some (Inr nj, m1)" "store_inv m1" "abs_store m1 = (abs_store (mem w))(?k \<mapsto> j)"
      "station_names m1 = station_names (mem w)" "CurrentClients m1 = CurrentClients (mem w)" by blast
  from ApplySetStation_ok [OF m1(2), of ?k a i] assms(3,4,5) m1(5) length_StationList [OF m1(4)] obtain ni m2 where
    m2: "ApplySetStation ?k i m1 = Some (Inr ni, m2)" "abs_store m2 = (abs_store m1)(?k \<mapsto> i)" by auto
  let ?w4 = "w\<lparr>p_wal := l, mem := m2\<rparr>"
  have w4: "repl_inv C ?w4" "online ?w4" using l(2) assms(2) by (simp_all add: repl_inv_def online_def)
  from send_next [OF w4, of ei "[ej]" "Acked ei ni" "\<lambda>_. ToPing ei ni"] l(3) sv(2) obtain w5 where
    w5: "send_step C ei (Acked ei ni) (\<lambda>_. ToPing ei ni) ?w4 = (Acked ei ni, w5)" "repl_inv C w5" "online w5"
      "p_wal w5 = l" "mem w5 = m2" "b_entries C (peer w5) = ?es @ [ei]" by (auto simp: same_primary_def)
  from send_next [OF w5(2,3), of ej "[]" "Acked ej nj" "\<lambda>_. ToPing ej nj"] l(3) w5(4,6) obtain w6 where
    w6: "send_step C ej (Acked ej nj) (\<lambda>_. ToPing ej nj) w5 = (Acked ej nj, w6)" "p_wal w6 = l" "mem w6 = m2"
      "b_entries C (peer w6) = ?es @ [ei, ej]" using w5(5) by (auto simp: same_primary_def)
  have run: "run_requests C [0, 1, 1, 0, 0, 1] [?ri, ?rj] w =
      Some ([?ri\<lparr>r_phase := Acked ei ni\<rparr>, ?rj\<lparr>r_phase := Acked ej nj\<rparr>], w6)"
    using l(1) apply_step [of ?rj "w\<lparr>p_wal := l\<rparr>" nj m1] apply_step [of ?ri "w\<lparr>p_wal := l, mem := m1\<rparr>" ni m2] m1(1) m2(1)
      replicate_step [OF w5(1), of ?ri] replicate_step [OF w6(1), of ?rj] by simp
  have lt: "x < 2 ^ 31" if "x < int (length (StationList (mem w)))" for x
    using that inv(2) by (simp add: reflects_def)
  have ai: "a_entry ei m = Some (m(?k \<mapsto> i))" "a_entry ej m = Some (m(?k \<mapsto> j))" if "m ?k \<noteq> None" for m
    using a_entry_setstation [of m port] that assms(5,7) lt [OF assms(4)] lt [OF assms(6)]
    by (simp_all add: ei_def ej_def)
  have "a_replay ?es Map.empty = Some (abs_store (mem w))" using inv(2) by (simp add: reflects_def)
  with ai(1) [of "abs_store (mem w)"] ai(2) [of "(abs_store (mem w))(?k \<mapsto> i)"] assms(3)
  have "a_replay ((?es @ [ei]) @ [ej]) Map.empty = Some ((abs_store (mem w))(?k \<mapsto> j))"
    unfolding a_replay_snoc by simp
  with l(3) w6 have "b_entries C (peer w6) = entries C (p_wal w6)"
    "a_replay (entries C (p_wal w6)) Map.empty = Some ((abs_store (mem w))(?k \<mapsto> j))" by simp_all
  moreover have "abs_store (mem w6) = (abs_store (mem w))(?k \<mapsto> i)" using w6(3) m2(2) m1(3) by simp
  ultimately show ?thesis using run by blast
qed

theorem racing_station_changes_diverge_witness:
  "\<exists>w ei ej ni nj w'. online w \<and> CurrentClients (mem w) (client_key 5000) = Some 0 \<and>
    run_requests wire_codec [0, 1, 1, 0, 0, 1] [setstation_request 5000 0 (-1), setstation_request 5000 1 (-1)] w =
      Some ([setstation_request 5000 0 (-1)\<lparr>r_phase := Acked ei ni\<rparr>, setstation_request 5000 1 (-1)\<lparr>r_phase := Acked ej nj\<rparr>], w') \<and>
    abs_store (mem w') (client_key 5000) = Some 0 \<and>
    (\<exists>m. a_replay (entries wire_codec (p_wal w')) Map.empty = Some m \<and> m (client_key 5000) = Some 1)"
proof -
  obtain w where w: "synced wire_codec fresh_server w" "online w" "CurrentClients (mem w) (client_key 5000) = Some 0"
    "length (StationList (mem w)) = 2" "length (entries wire_codec (p_wal w)) = 1"
    "CurrentClients (mem w) (client_key 5001) = None"
    by (rule paired_world)
  have st: "storable wire_codec (setstation_entry 5000 x (-1)\<lparr>Seq := k\<rparr>)" for x k
    by (simp add: setstation_entry_def getClientIP_def)
  have "(0::int) < int (length (StationList (mem w)))" "(1::int) < int (length (StationList (mem w)))"
    "Suc (Suc (length (entries wire_codec (p_wal w)))) < seq_limit" using w(4,5) by (simp_all add: seq_limit_def)
  from racing_station_changes_diverge [OF w(1-3) this(1) order_refl this(2) _ this(3) st] obtain ei ej ni nj w' where
    "run_requests wire_codec [0, 1, 1, 0, 0, 1] [setstation_request 5000 0 (-1), setstation_request 5000 1 (-1)] w =
      Some ([setstation_request 5000 0 (-1)\<lparr>r_phase := Acked ei ni\<rparr>, setstation_request 5000 1 (-1)\<lparr>r_phase := Acked ej nj\<rparr>], w')"
    "abs_store (mem w') = (abs_store (mem w))(client_key 5000 \<mapsto> 0)"
    "a_replay (entries wire_codec (p_wal w')) Map.empty = Some ((abs_store (mem w))(client_key 5000 \<mapsto> 1))"
    by (metis zero_le_one)
  moreover from this have "abs_store (mem w') (client_key 5000) = Some 0"
    "\<exists>m. a_replay (entries wire_codec (p_wal w')) Map.empty = Some m \<and> m (client_key 5000) = Some 1" by simp_all
  ultimately show ?thesis using w(2,3) by blast
qed

subsection \<open>The first two requests of a pair\<close>

text \<open>
  The check for a gap is skipped while the backup's log is empty, so the second of the two first
  entries can overtake the first.
\<close>

lemma overtaken:
  assumes inv: "repl_inv C w" and on: "online w" and none: "b_entries C (peer w) = []"
    and es: "entries C (p_wal w) = [e, e']"
  shows "\<exists>w1 w2. send_step C e' nxt' fail' w = (nxt', w1) \<and> send_step C e nxt fail w1 = (nxt, w2) \<and>
    same_primary w w2 \<and> b_entries C (peer w2) = [e']"
proof -
  note i = repl_invD [OF inv]
  have seqs: "Seq e = 1" "Seq e' = 2" using numbered_nth [OF i(2), of 0] numbered_nth [OF i(2), of 1] es by simp_all
  have st: "storable C e'" using i(5) es by simp
  have b: "wal_ok C (b_wal (peer w))" "h_lastWalSeq (handler (peer w)) = 0" "accepting (handler (peer w))"
    using i(3) none on by (simp_all add: backup_inv_def online_def)
  from empty_backup_accepts_gap [OF b(1) none b(2,3) st, of e] seqs obtain b' where
    R: "Replicate C \<lparr>req_Entry = Some e'\<rparr> (peer w) = (\<lparr>resp_Seq = 2, resp_Ok = True, resp_Error = ''''\<rparr>, b')"
      "Replicate C \<lparr>req_Entry = Some e\<rparr> b' = (\<lparr>resp_Seq = 1, resp_Ok = True, resp_Error = ''''\<rparr>, b')"
      "b_entries C b' = [e']" by auto
  have r1: "replicate_entry C e' w = (None, w\<lparr>peer := b'\<rparr>)" using rpc_online [OF on, of "Replicate C \<lparr>req_Entry = Some e'\<rparr>"] R(1) by (simp add: replicate_entry_def)
  let ?w1 = "note_seq (Seq e') (w\<lparr>peer := b'\<rparr>)"
  have on1: "online ?w1" using replicate_entry_stays_online [OF on r1] by simp
  have "replicate_entry C e ?w1 = (None, ?w1\<lparr>peer := b'\<rparr>)" using rpc_online [OF on1, of "Replicate C \<lparr>req_Entry = Some e\<rparr>"] R(2) by (simp add: replicate_entry_def)
  with r1 R(3) show ?thesis by (auto simp: send_step_def same_primary_def)
qed

text \<open>
  C40: The first two requests of a fresh pair can lose an acknowledged one on a perfect network.
  When the second entry reaches the backup first, the backup takes it, since the check for a gap
  is off while its log is empty, and acknowledges the first without storing it. Both clients are
  connected and both calls return without error, and a takeover knows only the second client.
\<close>

theorem racing_first_requests_lose_one:
  assumes "synced C s w" and "online w" and "entries C (p_wal w) = []" and "port \<noteq> port'"
    and "\<And>x n. storable C (handshake_entry x\<lparr>Seq := n\<rparr>)"
  shows "\<exists>e e' w'.
    run_requests C [0, 1, 0, 1, 1, 0] [handshake_request port, handshake_request port'] w =
      Some ([handshake_request port\<lparr>r_phase := Acked e ''''\<rparr>, handshake_request port'\<lparr>r_phase := Acked e' ''''\<rparr>], w') \<and>
    entries C (p_wal w') = [e, e'] \<and> b_entries C (peer w') = [e'] \<and>
    abs_store (mem w') = [client_key port \<mapsto> -1, client_key port' \<mapsto> -1] \<and>
    a_replay (b_entries C (peer w')) Map.empty = Some [client_key port' \<mapsto> -1]"
proof -
  let ?k = "client_key port" and ?k' = "client_key port'"
  let ?r = "handshake_request port" and ?r' = "handshake_request port'"
  have sv: "serving C s w" "b_entries C (peer w) = []" using assms(1,3) by (simp_all add: synced_def)
  have inv: "repl_inv C w" "reflects [] (mem w)" using sv(1) assms(3) by (simp_all add: serving_def)
  have none: "abs_store (mem w) = Map.empty" using inv(2) by (simp add: reflects_def a_replay_def)
  define e where "e = number_entry [] (handshake_entry port)"
  define e' where "e' = number_entry [e] (handshake_entry port')"
  from two_appends [OF inv(1), of ?r ?r' "[0, 1, 1, 0]"] assms(3,5) obtain l where
    l: "run_requests C [0, 1, 0, 1, 1, 0] [?r, ?r'] w =
        run_requests C [0, 1, 1, 0] [?r\<lparr>r_phase := ToApply e\<rparr>, ?r'\<lparr>r_phase := ToApply e'\<rparr>] (w\<lparr>p_wal := l\<rparr>)"
      "repl_inv C (w\<lparr>p_wal := l\<rparr>)" "entries C l = [e, e']" by (auto simp: e_def e'_def seq_limit_def)
  have nc: "CurrentClients (mem w) k = None" for k
    using none by (auto simp: abs_store_def fun_eq_iff)
  from ApplyHandshake_ok [OF servingD(3) [OF sv(1)] nc, of getClientIP port] obtain m1 where
    m1: "ApplyHandshake getClientIP port (mem w) = (Inr ?k, m1)" "store_inv m1" "abs_store m1 = [?k \<mapsto> -1]"
      "CurrentClients m1 = (CurrentClients (mem w))(?k \<mapsto> length (heap (mem w)))" using none by auto
  have ne: "?k \<noteq> ?k'" using assms(4) by (simp add: ClientKey_inject)
  from ApplyHandshake_ok [OF m1(2), of getClientIP port'] m1(3,4) nc ne obtain m2 where
    m2: "ApplyHandshake getClientIP port' m1 = (Inr ?k', m2)" "abs_store m2 = [?k \<mapsto> -1, ?k' \<mapsto> -1]" by auto
  let ?w4 = "w\<lparr>p_wal := l, mem := m2\<rparr>"
  have w4: "repl_inv C ?w4" "online ?w4" using l(2) assms(2) by (simp_all add: repl_inv_def online_def)
  from overtaken [OF w4, of e e' "Acked e' (''''::string)" "\<lambda>_. ToPing e' ''''" "Acked e (''''::string)" "\<lambda>_. ToPing e ''''"] l(3) sv(2)
  obtain w5 w6 where
    w6: "send_step C e' (Acked e' (''''::string)) (\<lambda>_. ToPing e' '''') ?w4 = (Acked e' (''''::string), w5)"
      "send_step C e (Acked e (''''::string)) (\<lambda>_. ToPing e '''') w5 = (Acked e (''''::string), w6)" "p_wal w6 = l" "mem w6 = m2"
      "b_entries C (peer w6) = [e']" by (auto simp: same_primary_def)
  have run: "run_requests C [0, 1, 0, 1, 1, 0] [?r, ?r'] w =
      Some ([?r\<lparr>r_phase := Acked e ''''\<rparr>, ?r'\<lparr>r_phase := Acked e' ''''\<rparr>], w6)"
    using l(1) apply_step [of ?r "w\<lparr>p_wal := l\<rparr>" "''''" m1] apply_step [of ?r' "w\<lparr>p_wal := l, mem := m1\<rparr>" "''''" m2] m1(1) m2(1)
      replicate_step [OF w6(1), of ?r'] replicate_step [OF w6(2), of ?r] by (simp add: handshake_apply_def)
  have "a_replay [e'] Map.empty = Some [?k' \<mapsto> -1]"
    using a_entry_handshake [of Map.empty port'] a_replay_snoc [of "[]" e' Map.empty] by (simp add: e'_def a_replay_def)
  with run l(3) w6(3-5) m2(2) show ?thesis by auto
qed

theorem racing_first_requests_lose_one_witness:
  "\<exists>e e' w'. run_requests wire_codec [0, 1, 0, 1, 1, 0] [handshake_request 5000, handshake_request 5001]
      (fresh_world (sconst Delivered)) =
      Some ([handshake_request 5000\<lparr>r_phase := Acked e ''''\<rparr>, handshake_request 5001\<lparr>r_phase := Acked e' ''''\<rparr>], w') \<and>
    entries wire_codec (p_wal w') = [e, e'] \<and> b_entries wire_codec (peer w') = [e'] \<and>
    a_replay (b_entries wire_codec (peer w')) Map.empty = Some [client_key 5001 \<mapsto> -1]"
proof -
  have st: "storable wire_codec (handshake_entry x\<lparr>Seq := n\<rparr>)" for x n by (simp add: handshake_entry_def getClientIP_def)
  have on: "online (fresh_world (sconst Delivered))" by (simp add: online_def)
  have em: "entries wire_codec (p_wal (fresh_world (sconst Delivered))) = []" by simp
  from racing_first_requests_lose_one [OF fresh_synced on em _ st, of 5000 5001] show ?thesis by fastforce
qed

end
