(* ===== verification/Requests_Clients.thy ===== *)
theory Requests_Clients
  imports Requests_Inv
begin

section \<open>Requests of different clients\<close>

text \<open>
  Requests of different clients do not disturb each other: whatever the schedule, on a working
  network they leave the memory that serving them one after the other leaves, and the pair
  synchronised. The invariant follows the memory by the requests that have been applied and the
  replay of the log by those that have been appended.
\<close>

subsection \<open>Calls and what they do to the assignment\<close>

definition disconnect_request :: "u32 \<Rightarrow> addr \<Rightarrow> string request" where
  "disconnect_request port savedClient =
     \<lparr>r_entry = disconnect_entry port, r_apply = disconnect_apply (client_key port),
      r_rollback = \<lambda>m. Some (RollbackDisconnect (client_key port) savedClient m), r_phase = ToAppend\<rparr>"

datatype client_call = Hello u32 | Tune u32 int int | Bye u32 addr

fun request_of :: "client_call \<Rightarrow> string request" where
  "request_of (Hello port) = handshake_request port"
| "request_of (Tune port i prev) = setstation_request port i prev"
| "request_of (Bye port savedClient) = disconnect_request port savedClient"

fun call_key :: "client_call \<Rightarrow> string" where
  "call_key (Hello port) = client_key port"
| "call_key (Tune port i prev) = client_key port"
| "call_key (Bye port savedClient) = client_key port"

fun call_target :: "client_call \<Rightarrow> int option" where
  "call_target (Hello port) = Some (-1)"
| "call_target (Tune port i prev) = Some i"
| "call_target (Bye port savedClient) = None"

definition effect :: "client_call \<Rightarrow> assignment \<Rightarrow> assignment" where
  "effect c m = m(call_key c := call_target c)"

text \<open>The checks of the handlers before they replicate.\<close>

fun admissible :: "nat \<Rightarrow> assignment \<Rightarrow> client_call \<Rightarrow> bool" where
  "admissible n m (Hello port) \<longleftrightarrow> m (client_key port) = None"
| "admissible n m (Tune port i prev) \<longleftrightarrow> m (client_key port) \<noteq> None \<and> 0 \<le> i \<and> i < int n"
| "admissible n m (Bye port savedClient) \<longleftrightarrow> m (client_key port) \<noteq> None"

lemma request_of_phase [simp]: "r_phase (request_of c) = ToAppend"
  by (cases c) (simp_all add: disconnect_request_def)

lemma admissible_cong: "m (call_key c) = m' (call_key c) \<Longrightarrow> admissible n m c = admissible n m' c"
  by (cases c) simp_all

lemma call_entry:
  assumes "admissible n M c" and "n < 2 ^ 31"
  shows "a_entry (r_entry (request_of c)) M = Some (effect c M) \<and> entry_valid n (r_entry (request_of c))"
proof (cases c)
  case (Hello port)
  with assms(1) show ?thesis by (simp add: a_entry_handshake effect_def entry_valid_def) (simp add: handshake_entry_def)
next
  case (Tune port i prev)
  have i: "0 \<le> i" "i < int n" "i < 2 ^ 31" using assms Tune by auto
  have "entry_valid n (setstation_entry port i prev)"
    using i sint_word_of_int [of i] by (simp add: entry_valid_def setstation_entry_def)
  with a_entry_setstation [of M port i prev] assms(1) i Tune show ?thesis by (simp add: effect_def)
next
  case (Bye port savedClient)
  with assms(1) show ?thesis
    by (simp add: a_entry_disconnect effect_def entry_valid_def disconnect_request_def) (simp add: disconnect_entry_def)
qed

lemma call_apply:
  assumes "store_inv m" and "admissible (length (StationList m)) (abs_store m) c"
  shows "\<exists>v m'. r_apply (request_of c) m = Some (Inr v, m') \<and> store_inv m' \<and> station_names m' = station_names m \<and>
    abs_store m' = effect c (abs_store m)"
proof (cases c)
  case (Hello port)
  then have "CurrentClients m (client_key port) = None" using assms(2) by (simp add: abs_store_def)
  from ApplyHandshake_ok [OF assms(1) this] Hello show ?thesis by (auto simp: handshake_apply_def effect_def)
next
  case (Tune port i prev)
  then obtain a where "CurrentClients m (client_key port) = Some a" using assms(2) by (auto simp: abs_store_def)
  from ApplySetStation_ok [OF assms(1) this, of i] Tune assms(2) show ?thesis by (auto simp: effect_def)
next
  case (Bye port savedClient)
  then obtain a where "CurrentClients m (client_key port) = Some a" using assms(2) by (auto simp: abs_store_def)
  from ApplyDisconnect_ok [OF assms(1) this] Bye show ?thesis
    by (auto simp: disconnect_apply_def disconnect_request_def effect_def)
qed

subsection \<open>Where an assignment stands\<close>

text \<open>
  \<open>M\<close> is \<open>m0\<close> with the effects of the calls whose request has passed the point \<open>d\<close>.
\<close>

definition tracks :: "(string phase \<Rightarrow> bool) \<Rightarrow> client_call list \<Rightarrow> string request list \<Rightarrow> assignment \<Rightarrow> assignment \<Rightarrow> bool" where
  "tracks d cs rs m0 M \<longleftrightarrow>
     (\<forall>k. k \<notin> call_key ` set cs \<longrightarrow> M k = m0 k) \<and>
     (\<forall>i < length cs. M (call_key (cs ! i)) = (if d (r_phase (rs ! i)) then call_target (cs ! i) else m0 (call_key (cs ! i))))"

lemma tracks_same:
  "tracks d cs rs m0 M \<Longrightarrow> length rs = length cs \<Longrightarrow> i < length cs \<Longrightarrow> d p = d (r_phase (rs ! i)) \<Longrightarrow>
   tracks d cs (rs[i := (rs ! i)\<lparr>r_phase := p\<rparr>]) m0 M"
  by (auto simp: tracks_def nth_list_update)

lemma tracks_pass:
  assumes "tracks d cs rs m0 M" and "length rs = length cs" and "distinct (map call_key cs)" and "i < length cs" and "d p"
  shows "tracks d cs (rs[i := (rs ! i)\<lparr>r_phase := p\<rparr>]) m0 (effect (cs ! i) M)"
proof -
  have "call_key (cs ! j) \<noteq> call_key (cs ! i)" if "j < length cs" "j \<noteq> i" for j
    using assms(3,4) that nth_eq_iff_index_eq [OF assms(3), of j i] by simp
  with assms show ?thesis by (auto simp: tracks_def effect_def nth_list_update)
qed

lemma fold_effect:
  "distinct (map call_key cs) \<Longrightarrow>
   fold effect cs m k = (case find (\<lambda>c. call_key c = k) cs of Some c \<Rightarrow> call_target c | None \<Rightarrow> m k)"
proof (induction cs arbitrary: m)
  case (Cons c cs)
  then have "call_key c \<notin> call_key ` set cs" by simp
  then have "find (\<lambda>c'. call_key c' = call_key c) cs = None" unfolding find_None_iff by (metis imageI)
  with Cons show ?case by (auto simp: effect_def split: option.split)
qed simp

lemma tracks_all:
  assumes "tracks d cs rs m0 M" and "length rs = length cs" and "distinct (map call_key cs)" and "\<forall>r \<in> set rs. d (r_phase r)"
  shows "M = fold effect cs m0"
proof
  fix k
  show "M k = fold effect cs m0 k"
  proof (cases "find (\<lambda>c. call_key c = k) cs")
    case None
    then have "k \<notin> call_key ` set cs" by (auto simp: find_None_iff)
    with assms(1) None fold_effect [OF assms(3), of m0 k] show ?thesis by (simp add: tracks_def)
  next
    case (Some c)
    then obtain i where i: "i < length cs" "c = cs ! i" "call_key c = k" by (auto simp: find_Some_iff)
    with assms(1,2,4) Some fold_effect [OF assms(3), of m0 k] show ?thesis by (auto simp: tracks_def)
  qed
qed

subsection \<open>The invariant\<close>

fun appended :: "'v phase \<Rightarrow> bool" where
  "appended ToAppend \<longleftrightarrow> False"
| "appended _ \<longleftrightarrow> True"

fun applied :: "'v phase \<Rightarrow> bool" where
  "applied ToAppend \<longleftrightarrow> False"
| "applied (ToApply e) \<longleftrightarrow> False"
| "applied _ \<longleftrightarrow> True"

fun refused :: "'v phase \<Rightarrow> bool" where
  "refused (Refused err) \<longleftrightarrow> True"
| "refused _ \<longleftrightarrow> False"

definition in_order :: "codec \<Rightarrow> string list \<Rightarrow> client_call list \<Rightarrow> assignment \<Rightarrow> string request list \<Rightarrow> world \<Rightarrow> bool" where
  "in_order C names cs m0 rs w \<longleftrightarrow>
     length rs = length cs \<and>
     (\<forall>i < length cs. r_entry (rs ! i) = r_entry (request_of (cs ! i)) \<and> r_apply (rs ! i) = r_apply (request_of (cs ! i)) \<and>
        \<not> refused (r_phase (rs ! i))) \<and>
     store_inv (mem w) \<and> station_names (mem w) = names \<and> tracks applied cs rs m0 (abs_store (mem w)) \<and>
     (\<forall>e \<in> set (entries C (p_wal w)). entry_valid (length names) e) \<and>
     (\<exists>M. a_replay (entries C (p_wal w)) Map.empty = Some M \<and> tracks appended cs rs m0 M)"

text \<open>The steps of a request after its change in memory leave the memory alone.\<close>

lemma send_step_cases: "send_step C e nxt fail w = (p, w') \<Longrightarrow> mem w' = mem w \<and> (p = nxt \<or> (\<exists>err. p = fail err))"
  using send_step_mem [of C e nxt fail w] by (auto simp: send_step_def split: prod.splits option.splits)

lemma applied_step:
  assumes "req_step C r w = Some (p, w')" and "applied (r_phase r)" and "own_fault r"
  shows "mem w' = mem w \<and> applied p \<and> appended p \<and> (refused p \<longrightarrow> refused (r_phase r))"
proof (cases "r_phase r")
  case (ToSync e v s es)
  with assms(1) show ?thesis by (cases es) (auto simp: req_step_def dest!: send_step_cases split: if_splits)
next
  case (Acked e v)
  with assms(1) have "p = Acked e v" "w' = w" by (auto simp: req_step_def)
  then show ?thesis by simp
next
  case (Refused err)
  with assms(1) have "p = Refused err" "w' = w" by (auto simp: req_step_def)
  with Refused show ?thesis by simp
qed (use assms in \<open>auto simp: req_step_def own_fault_def dest!: send_step_cases dest: backupLastWalSeq_mem split: prod.splits sum.splits\<close>)

lemma in_order_update:
  assumes "in_order C names cs m0 rs w" and "i < length cs" and "\<not> refused p" and "store_inv (mem w')" and "station_names (mem w') = names"
    and "tracks applied cs (rs[i := (rs ! i)\<lparr>r_phase := p\<rparr>]) m0 (abs_store (mem w'))"
    and "\<forall>e \<in> set (entries C (p_wal w')). entry_valid (length names) e" and "a_replay (entries C (p_wal w')) Map.empty = Some M"
    and "tracks appended cs (rs[i := (rs ! i)\<lparr>r_phase := p\<rparr>]) m0 M"
  shows "in_order C names cs m0 (rs[i := (rs ! i)\<lparr>r_phase := p\<rparr>]) w'"
  using assms by (auto simp: in_order_def nth_list_update)

text \<open>What the append of a call's entry does to the replay, and its change in memory to the memory.\<close>

lemma in_order_append:
  assumes ok: "in_order C names cs m0 rs w" and names: "length names < 2 ^ 31" and keys: "distinct (map call_key cs)"
    and c: "admissible (length names) m0 (cs ! i)" and i: "i < length cs" and at: "r_phase (rs ! i) = ToAppend"
    and l: "entries C l = entries C (p_wal w) @ [number_entry (entries C (p_wal w)) (r_entry (rs ! i))]"
  shows "in_order C names cs m0 (rs[i := (rs ! i)\<lparr>r_phase := ToApply e\<rparr>]) (w\<lparr>p_wal := l\<rparr>)"
proof -
  let ?rs = "rs[i := (rs ! i)\<lparr>r_phase := ToApply e\<rparr>]"
  obtain M where len: "length rs = length cs" and t: "tracks applied cs rs m0 (abs_store (mem w))" "tracks appended cs rs m0 M"
    and es: "\<forall>e \<in> set (entries C (p_wal w)). entry_valid (length names) e" "a_replay (entries C (p_wal w)) Map.empty = Some M"
    and r: "r_entry (rs ! i) = r_entry (request_of (cs ! i))" and m: "store_inv (mem w)" "station_names (mem w) = names"
    using ok i unfolding in_order_def by blast
  have "admissible (length names) M (cs ! i)" using admissible_cong [of M "cs ! i" m0] c t(2) i at by (simp add: tracks_def)
  from call_entry [OF this names] r have
    e: "a_entry (r_entry (rs ! i)) M = Some (effect (cs ! i) M)" "entry_valid (length names) (r_entry (rs ! i))" by simp_all
  show ?thesis
  proof (rule in_order_update [OF ok i])
    show "a_replay (entries C (p_wal (w\<lparr>p_wal := l\<rparr>))) Map.empty = Some (effect (cs ! i) M)" using l es(2) e(1) by (simp add: a_replay_snoc)
    show "tracks appended cs ?rs m0 (effect (cs ! i) M)" by (rule tracks_pass [OF t(2) len keys i]) simp
    show "tracks applied cs ?rs m0 (abs_store (mem (w\<lparr>p_wal := l\<rparr>)))" using tracks_same [OF t(1) len i, of "ToApply e"] at by simp
  qed (use es(1) e(2) l m in simp_all)
qed

lemma in_order_apply:
  assumes ok: "in_order C names cs m0 rs w" and keys: "distinct (map call_key cs)" and c: "admissible (length names) m0 (cs ! i)"
    and i: "i < length cs" and at: "r_phase (rs ! i) = ToApply e" and step: "req_step C (rs ! i) w = Some (p, w')"
  shows "in_order C names cs m0 (rs[i := (rs ! i)\<lparr>r_phase := p\<rparr>]) w'"
proof -
  let ?rs = "rs[i := (rs ! i)\<lparr>r_phase := p\<rparr>]"
  obtain M where len: "length rs = length cs" and t: "tracks applied cs rs m0 (abs_store (mem w))" "tracks appended cs rs m0 M"
    and es: "\<forall>e \<in> set (entries C (p_wal w)). entry_valid (length names) e" "a_replay (entries C (p_wal w)) Map.empty = Some M"
    and r: "r_apply (rs ! i) = r_apply (request_of (cs ! i))" and m: "store_inv (mem w)" "station_names (mem w) = names"
    using ok i unfolding in_order_def by blast
  have "length (StationList (mem w)) = length names" using m(2) by (auto simp: station_names_def)
  moreover have "admissible (length names) (abs_store (mem w)) (cs ! i)"
    using admissible_cong [of "abs_store (mem w)" "cs ! i" m0] c t(1) i at by (simp add: tracks_def)
  ultimately obtain v m' where
    m': "r_apply (rs ! i) (mem w) = Some (Inr v, m')" "store_inv m'" "station_names m' = station_names (mem w)"
      "abs_store m' = effect (cs ! i) (abs_store (mem w))" using call_apply [OF m(1), of "cs ! i"] r by auto
  have w': "p = ToReplicate e v" "w' = w\<lparr>mem := m'\<rparr>" using step at m'(1) by (auto simp: req_step_def)
  show ?thesis
  proof (rule in_order_update [OF ok i])
    show "tracks applied cs ?rs m0 (abs_store (mem w'))" using tracks_pass [OF t(1) len keys i, of p] m'(4) w' by simp
    show "tracks appended cs ?rs m0 M" by (rule tracks_same [OF t(2) len i]) (simp add: w'(1) at)
  qed (use w' m m' es in simp_all)
qed

lemma in_order_later:
  assumes ok: "in_order C names cs m0 rs w" and i: "i < length cs" and at: "applied (r_phase (rs ! i))" and own: "own_fault (rs ! i)"
    and step: "req_step C (rs ! i) w = Some (p, w')" and same: "entries C (p_wal w') = entries C (p_wal w)"
  shows "in_order C names cs m0 (rs[i := (rs ! i)\<lparr>r_phase := p\<rparr>]) w'"
proof -
  let ?rs = "rs[i := (rs ! i)\<lparr>r_phase := p\<rparr>]"
  obtain M where len: "length rs = length cs" and t: "tracks applied cs rs m0 (abs_store (mem w))" "tracks appended cs rs m0 M"
    and es: "\<forall>e \<in> set (entries C (p_wal w)). entry_valid (length names) e" "a_replay (entries C (p_wal w)) Map.empty = Some M"
    and r: "\<not> refused (r_phase (rs ! i))" and m: "store_inv (mem w)" "station_names (mem w) = names"
    using ok i unfolding in_order_def by blast
  note p = applied_step [OF step at own]
  have "appended (r_phase (rs ! i))" using at by (cases "r_phase (rs ! i)") simp_all
  then have "tracks appended cs ?rs m0 M" by (intro tracks_same [OF t(2) len i]) (use p in simp)
  moreover have "tracks applied cs ?rs m0 (abs_store (mem w'))" using tracks_same [OF t(1) len i, of p] p at by simp
  ultimately show ?thesis using in_order_update [OF ok i, of p w' M] p r m es same by simp
qed

lemma in_order_step:
  assumes ok: "in_order C names cs m0 rs w" and names: "length names < 2 ^ 31"
    and cs: "distinct (map call_key cs)" "\<And>c. c \<in> set cs \<Longrightarrow> admissible (length names) m0 c"
    and u: "under_way C rs w" and own: "own_fault (rs ! i)" and i: "i < length cs" and step: "req_step C (rs ! i) w = Some (p, w')"
  shows "in_order C names cs m0 (rs[i := (rs ! i)\<lparr>r_phase := p\<rparr>]) w'"
proof -
  have r: "rs ! i \<in> set rs" using i ok by (simp add: in_order_def)
  have inv: "repl_inv C w" "b_entries C (peer w) \<noteq> []" "Suc (length (entries C (p_wal w))) < seq_limit"
    and all: "phase_ok (entries C (p_wal w)) (b_entries C (peer w)) (r_phase (rs ! i))" "\<And>n. storable C ((r_entry (rs ! i))\<lparr>Seq := n\<rparr>)"
    using u r by (auto simp: under_way_def)
  have c: "admissible (length names) m0 (cs ! i)" using cs(2) i by simp
  consider "r_phase (rs ! i) = ToAppend" | e where "r_phase (rs ! i) = ToApply e" | "applied (r_phase (rs ! i))" "r_phase (rs ! i) \<noteq> ToAppend"
    by (cases "r_phase (rs ! i)") auto
  then show ?thesis
  proof cases
    case 1
    from append_step_ok [OF inv(1) 1 all(2) inv(3)] step in_order_append [OF ok names cs(1) c i 1] show ?thesis by auto
  next
    case 2
    from in_order_apply [OF ok cs(1) c i 2 step] show ?thesis .
  next
    case 3
    have "entries C (p_wal w') = entries C (p_wal w)" using later_step_ok [OF inv(1,2) all(1) step 3(2)] by (simp add: step_ok_def)
    from in_order_later [OF ok i 3(1) own step this] show ?thesis .
  qed
qed

subsection \<open>Every entry of the log is carried by a request\<close>

definition carried :: "codec \<Rightarrow> WalEntry list \<Rightarrow> 'v request list \<Rightarrow> world \<Rightarrow> bool" where
  "carried C es rs w \<longleftrightarrow>
     (\<forall>e \<in> set (entries C (p_wal w)). e \<in> set es \<or> (\<exists>i < length rs. phase_entry (r_phase (rs ! i)) = Some e))"

lemma step_carries:
  assumes "req_step C r w = Some (p, w')" and "r_phase r \<noteq> ToAppend" and "\<not> refused p" and "own_fault (r\<lparr>r_phase := p\<rparr>)"
  shows "phase_entry p = phase_entry (r_phase r)"
proof (cases "r_phase r")
  case (ToSync e v s es)
  with assms show ?thesis by (cases es) (auto simp: req_step_def own_fault_def dest!: send_step_cases split: if_splits)
qed (use assms in \<open>auto simp: req_step_def own_fault_def dest!: send_step_cases split: prod.splits sum.splits bind_splits\<close>)

lemma carried_step:
  assumes c: "carried C es rs w" and u: "under_way C rs w" and j: "j < length rs" and step: "req_step C (rs ! j) w = Some (p, w')"
    and p: "\<not> refused p" "own_fault ((rs ! j)\<lparr>r_phase := p\<rparr>)"
  shows "carried C es (rs[j := (rs ! j)\<lparr>r_phase := p\<rparr>]) w'"
proof -
  let ?rs = "rs[j := (rs ! j)\<lparr>r_phase := p\<rparr>]"
  have r: "rs ! j \<in> set rs" using j by simp
  have inv: "repl_inv C w" "b_entries C (peer w) \<noteq> []" "Suc (length (entries C (p_wal w))) < seq_limit"
    and all: "phase_ok (entries C (p_wal w)) (b_entries C (peer w)) (r_phase (rs ! j))"
      "\<And>n. storable C ((r_entry (rs ! j))\<lparr>Seq := n\<rparr>)"
    using u r by (auto simp: under_way_def)
  have keep: "\<exists>i < length ?rs. phase_entry (r_phase (?rs ! i)) = Some e"
    if "i < length rs" "phase_entry (r_phase (rs ! i)) = Some e" "phase_entry (r_phase (rs ! j)) = Some e \<longrightarrow> phase_entry p = Some e" for i e
    using that j by (intro exI [of _ i]) (auto simp: nth_list_update)
  show ?thesis
  proof (cases "r_phase (rs ! j) = ToAppend")
    case True
    from append_step_ok [OF inv(1) True all(2) inv(3)] step obtain e l where
      l: "p = ToApply e" "w' = w\<lparr>p_wal := l\<rparr>" "entries C l = entries C (p_wal w) @ [e]" by auto
    have "\<exists>i < length ?rs. phase_entry (r_phase (?rs ! i)) = Some e" using j l(1) by (intro exI [of _ j]) simp
    with l c keep True show ?thesis by (auto simp: carried_def)
  next
    case False
    have "entries C (p_wal w') = entries C (p_wal w)" using later_step_ok [OF inv(1,2) all(1) step False] by (simp add: step_ok_def)
    with c keep step_carries [OF step False p] show ?thesis by (auto simp: carried_def)
  qed
qed

subsection \<open>Different clients\<close>

lemma run_in_order:
  assumes "run_requests C sched rs w = Some (rs', w')" and "in_order C names cs m0 rs w" and "carried C es rs w"
    and "under_way C rs w" and "online w" and "\<forall>r \<in> set rs. own_fault r"
    and names: "length names < 2 ^ 31" and cs: "distinct (map call_key cs)" "\<And>c. c \<in> set cs \<Longrightarrow> admissible (length names) m0 c"
  shows "in_order C names cs m0 rs' w' \<and> carried C es rs' w'"
  using assms(1-6)
proof (induction sched arbitrary: rs w)
  case (Cons j sched)
  show ?case
  proof (cases "j < length rs")
    case True
    with Cons.prems(1) obtain p w1 where
      s: "req_step C (rs ! j) w = Some (p, w1)" "run_requests C sched (rs[j := (rs ! j)\<lparr>r_phase := p\<rparr>]) w1 = Some (rs', w')"
      by (auto split: bind_splits)
    have j: "j < length cs" using True Cons.prems(2) by (simp add: in_order_def)
    note o = online_step [OF Cons.prems(4-6) order_refl True s(1)]
    have own: "own_fault (rs ! j)" "own_fault ((rs ! j)\<lparr>r_phase := p\<rparr>)"
      using Cons.prems(6) True o(3) by (simp_all add: set_update_memI)
    note i = in_order_step [OF Cons.prems(2) names cs Cons.prems(4) own(1) j s(1)]
    have "\<not> refused p" using i j True by (auto simp: in_order_def dest!: spec [of _ j])
    from Cons.IH [OF s(2) i carried_step [OF Cons.prems(3,4) True s(1) this own(2)] o(1-3)] show ?thesis .
  qed (use Cons in simp)
qed simp

lemma call_runs_within:
  assumes "admissible (length names) m0 c"
  shows "runs_within (\<lambda>m. store_inv m \<and> station_names m = names) (r_apply (request_of c))"
  unfolding runs_within_def
proof (intro allI impI)
  fix m
  assume m: "store_inv m \<and> station_names m = names"
  then have n: "length (StationList m) = length names" by (auto simp: station_names_def)
  show "\<exists>res m'. r_apply (request_of c) m = Some (res, m') \<and> store_inv m' \<and> station_names m' = names"
  proof (cases "admissible (length names) (abs_store m) c")
    case True
    with call_apply [of m c] m n show ?thesis by auto
  next
    case False
    with assms m show ?thesis
      by (cases c) (auto simp: handshake_apply_def ApplyHandshake_def ApplySetStation_def disconnect_request_def disconnect_apply_def
          ApplyDisconnect_def abs_store_def Let_def split: option.splits)
  qed
qed

lemma numbered_distinct: "numbered es \<Longrightarrow> distinct es"
  using of_nat_u64_eq by (auto simp: distinct_conv_nth numbered_def simp del: of_nat_Suc) (metis Suc_inject Suc_leI less_imp_le_nat order.strict_trans)

lemma prefix_all: "prefix xs ys \<Longrightarrow> distinct ys \<Longrightarrow> set ys \<subseteq> set xs \<Longrightarrow> xs = ys"
  by (auto simp: prefix_def) (metis Int_absorb1 inf_commute set_empty)

lemma in_order_acked:
  assumes "in_order C names cs m0 rs w" and "under_way C rs w" and "r \<in> set rs" and "own_fault r" and "turns n (r_phase r) = 0"
  shows "\<exists>e v. r_phase r = Acked e v \<and> e \<in> set (b_entries C (peer w))"
proof -
  have "\<not> refused (r_phase r)" using assms(1,3) unfolding in_order_def by (metis in_set_conv_nth)
  moreover have "phase_ok (entries C (p_wal w)) (b_entries C (peer w)) (r_phase r)" using assms(2,3) by (simp add: under_way_def)
  ultimately show ?thesis using assms(4,5) by (cases "r_phase r") (auto simp: own_fault_def phase_ok_def)
qed

text \<open>
  C5: Requests of different clients can be served at once by a synchronised pair whose backup already
  has an entry: on a working network, under every schedule that gives each enough turns, all are
  acknowledged and the pair ends synchronised, with the assignment that serving them one after the
  other gives. A takeover then serves exactly it. Without a first entry on the backup this fails
  (\<^verbatim>\<open>Interleaving\<close> has a run).
\<close>

theorem different_clients_serialise:
  assumes "synced C s w" and "b_entries C (peer w) \<noteq> []" and "online w" and "distinct (map call_key cs)"
    and "\<And>c. c \<in> set cs \<Longrightarrow> admissible (length (StationList (mem w))) (abs_store (mem w)) c"
    and "\<And>c n. c \<in> set cs \<Longrightarrow> storable C ((r_entry (request_of c))\<lparr>Seq := n\<rparr>)"
    and "Suc (length (entries C (p_wal w)) + length cs) < seq_limit"
    and "\<And>i. i < length cs \<Longrightarrow> length (entries C (p_wal w)) + length cs + 7 \<le> count_list sched i"
  shows "\<exists>rs' w'. run_requests C sched (map request_of cs) w = Some (rs', w') \<and>
    list_all (\<lambda>r. \<exists>e v. r_phase r = Acked e v) rs' \<and> synced C s w' \<and>
    abs_store (mem w') = fold effect cs (abs_store (mem w))"
proof -
  let ?rs = "map request_of cs" and ?names = "station_names (mem w)" and ?m0 = "abs_store (mem w)" and ?es = "entries C (p_wal w)"
  have sv: "Repl s = ReplicateAndWait C" "repl_inv C w" "reflects ?es (mem w)" "b_entries C (peer w) = ?es"
    using assms(1) by (simp_all add: synced_def serving_def)
  have n: "length (StationList (mem w)) = length ?names" "length ?names < 2 ^ 31"
    using sv(3) by (simp_all add: station_names_def reflects_def)
  have new: "r_phase r = ToAppend \<and> storable C ((r_entry r)\<lparr>Seq := n\<rparr>)" if "r \<in> set ?rs" for r n
    using that assms(6) by auto
  have u: "under_way C ?rs w" using new_requests_under_way(1) [of C w ?rs] sv(2) assms(2,7) new by simp
  have own: "\<forall>r \<in> set ?rs. own_fault r" using new by (auto simp: own_fault_def)
  have adm: "admissible (length ?names) ?m0 c" if "c \<in> set cs" for c using assms(5) [OF that] n(1) by simp
  have within: "runs_within (\<lambda>m. store_inv m \<and> station_names m = ?names) (r_apply r)" if "r \<in> set ?rs" for r
    using that call_runs_within adm by auto
  from enough_turns [of C ?rs w "\<lambda>m. store_inv m \<and> station_names m = ?names" sched] u assms(3,8) new within sv(3)
  obtain rs' w' where run: "run_requests C sched ?rs w = Some (rs', w')"
    and fin: "\<forall>r \<in> set rs'. own_fault r \<and> turns (length ?es + length cs) (r_phase r) = 0"
    by (auto simp: reflects_def)
  have "tracks d cs ?rs ?m0 ?m0" if "\<not> d ToAppend" for d using that by (simp add: tracks_def)
  then have "in_order C ?names cs ?m0 ?rs w" using sv(3) n by (simp add: in_order_def reflects_def)
  from run_in_order [OF run this _ u assms(3) own n(2) assms(4) adm, of ?es] have
    o: "in_order C ?names cs ?m0 rs' w'" "carried C ?es rs' w'" by (simp_all add: carried_def)
  note uw = run_requests_under_way [OF run u]
  have inv: "repl_inv C w'" "prefix (b_entries C (peer w)) (b_entries C (peer w'))" "b_entries C (peer w') \<noteq> []"
    using uw by (simp_all add: under_way_def grows_def)
  have len: "length rs' = length cs" using o(1) by (simp add: in_order_def)
  have ack: "\<exists>e v. r_phase r = Acked e v \<and> e \<in> set (b_entries C (peer w'))" if "r \<in> set rs'" for r
    using in_order_acked [OF o(1) conjunct1 [OF uw] that] fin that by blast
  have past: "\<forall>r \<in> set rs'. applied (r_phase r)" "\<forall>r \<in> set rs'. appended (r_phase r)" using ack by fastforce+
  obtain M where M: "a_replay (entries C (p_wal w')) Map.empty = Some M" "tracks appended cs rs' ?m0 M"
    using o(1) unfolding in_order_def by blast
  have eff: "M = fold effect cs ?m0" "abs_store (mem w') = fold effect cs ?m0"
    using tracks_all [OF M(2) len assms(4) past(2)] tracks_all [OF _ len assms(4) past(1), of ?m0 "abs_store (mem w')"] o(1)
    by (simp_all add: in_order_def)
  have "e \<in> set (b_entries C (peer w'))" if "e \<in> set (entries C (p_wal w'))" for e
    using that o(2) ack nth_mem [of _ rs'] set_mono_prefix [OF inv(2)] sv(4) unfolding carried_def by fastforce
  then have "b_entries C (peer w') = entries C (p_wal w')"
    using prefix_all [OF repl_invD(4) [OF inv(1)] numbered_distinct [OF repl_invD(2) [OF inv(1)]]] by blast
  moreover have "length (StationList (mem w')) = length ?names" using o(1) by (simp add: in_order_def station_names_def) (metis length_map)
  then have "reflects (entries C (p_wal w')) (mem w')" using o(1) M(1) eff n(2) by (simp add: in_order_def reflects_def)
  ultimately have "synced C s w'" using sv(1) inv(1,3) by (simp add: synced_def serving_def seeded_def)
  moreover have "list_all (\<lambda>r. \<exists>e v. r_phase r = Acked e v) rs'" using ack unfolding list_all_iff by blast
  ultimately show ?thesis using run eff(2) by blast
qed

theorem different_clients_serialise_witness:
  "\<exists>w rs' w'. run_requests wire_codec (replicate 10 0 @ replicate 10 1) [handshake_request 5001, setstation_request 5000 1 (-1)] w =
      Some (rs', w') \<and> synced wire_codec fresh_server w' \<and>
    abs_store (mem w') (client_key 5001) = Some (-1) \<and> abs_store (mem w') (client_key 5000) = Some 1"
proof -
  let ?cs = "[Hello 5001, Tune 5000 1 (-1)]"
  obtain w where w: "synced wire_codec fresh_server w" "online w" "CurrentClients (mem w) (client_key 5000) = Some 0"
    "length (StationList (mem w)) = 2" "length (entries wire_codec (p_wal w)) = 1"
    "CurrentClients (mem w) (client_key 5001) = None"
    by (rule paired_world)
  have "b_entries wire_codec (peer w) \<noteq> []" using w(1,5) by (auto simp: synced_def)
  moreover have keys: "distinct (map call_key ?cs)" by (simp add: ClientKey_inject)
  moreover have "admissible (length (StationList (mem w))) (abs_store (mem w)) c" if "c \<in> set ?cs" for c
    using that w(3,4,6) by (auto simp: abs_store_def)
  moreover have "storable wire_codec ((r_entry (request_of c))\<lparr>Seq := n\<rparr>)" if "c \<in> set ?cs" for c n
    using that by (auto simp: handshake_entry_def setstation_entry_def getClientIP_def)
  moreover have "Suc (length (entries wire_codec (p_wal w)) + length ?cs) < seq_limit" using w(5) by (simp add: seq_limit_def)
  moreover have "length (entries wire_codec (p_wal w)) + length ?cs + 7 \<le> count_list (replicate 10 0 @ replicate 10 1) i"
    if "i < length ?cs" for i using that w(5) by (auto simp: less_Suc_eq numeral_eq_Suc)
  ultimately obtain rs' w' where
    "run_requests wire_codec (replicate 10 0 @ replicate 10 1) (map request_of ?cs) w = Some (rs', w')"
    "synced wire_codec fresh_server w'" "abs_store (mem w') = fold effect ?cs (abs_store (mem w))"
    using different_clients_serialise [OF w(1) _ w(2), of ?cs] by blast
  moreover have "abs_store (mem w') (client_key 5001) = Some (-1)" "abs_store (mem w') (client_key 5000) = Some 1"
    using calculation(3) keys by (simp_all add: effect_def)
  ultimately show ?thesis by (intro exI [of _ w] exI [of _ rs'] exI [of _ w']) simp
qed

end
