(* ===== verification/Takeover.thy ===== *)
theory Takeover
  imports Failover
begin

section \<open>The standby's loop and the takeover\<close>

text \<open>
  From the loss of the primary's key to the new leader: what the standby's loop does while a
  primary is registered and what it does at the first tick after the registration is gone.
\<close>

text \<open>
  The standby process of the pair: its log is the one its replication handler wrote, its memory
  has only the stations.
\<close>

definition stands_by :: "codec \<Rightarrow> node \<Rightarrow> world \<Rightarrow> bool" where
  "stands_by C n w \<longleftrightarrow>
     role n = roleStandby \<and> p_wal (proc n) = b_wal (peer w) \<and> CurrentClients (mem (proc n)) = Map.empty \<and>
     Files (cfg n) = station_names (mem w)"

lemma stands_by_log:
  assumes "synced C s w" and "stands_by C n w"
  shows "wal_ok C (p_wal (proc n))" and "entries C (p_wal (proc n)) = entries C (p_wal w)"
    and "\<forall>e \<in> set (entries C (p_wal (proc n))). entry_valid (length (Files (cfg n))) e"
    and "a_replay (entries C (p_wal (proc n))) Map.empty = Some (abs_store (mem w))"
  using assms by (auto simp: synced_def serving_def stands_by_def reflects_def repl_inv_def backup_inv_def
      station_names_def)

subsection \<open>Rounds of the loop\<close>

lemma poll_loop_append:
  "runEtcdPollLoop C E (ticks @ ticks') seen n e =
     do {
       (r, seen1, n1, e1) \<leftarrow> runEtcdPollLoop C E ticks seen n e;
       if r = GoOn then runEtcdPollLoop C E ticks' seen1 n1 e1 else Some (r, seen1, n1, e1)
     }"
  by (induction C E ticks seen n e rule: runEtcdPollLoop.induct)
    (auto split: prod.split Option.bind_split option.split)

lemma GetPrimary_view:
  assumes "etcd_ok E view" and "GetPrimary E key e = (r, e')"
  shows "view e' = view e" and "r = Inr p \<Longrightarrow> p = map_option fst (view e key)"
proof -
  obtain q where q: "GetKey E key e = (q, e')"
    using assms(2) by (auto simp: GetPrimary_def split: prod.splits sum.splits list.splits)
  have v: "view e' = view e" "\<And>vs. q = Inr vs \<Longrightarrow> vs = (case view e key of None \<Rightarrow> [] | Some (v, _) \<Rightarrow> [v])"
    using assms(1) q unfolding etcd_ok_def get_ok_def by blast+
  then show "view e' = view e" by blast
  show "r = Inr p \<Longrightarrow> p = map_option fst (view e key)"
    using assms(2) q v(2) by (cases q) (auto simp: GetPrimary_def split: list.splits option.splits)
qed

lemma poll_round_held:
  assumes "etcd_ok E view" and "role n = roleStandby" and "view e (EtcdKey (cfg n)) \<noteq> None"
  shows "\<exists>seen' e'. poll_round C E env seen n e = Some (GoOn, seen', n, e') \<and> view e' = view e"
proof -
  obtain r e' where g: "GetPrimary E (EtcdKey (cfg n)) e = (r, e')" by fastforce
  note v = GetPrimary_view [OF assms(1) g]
  show ?thesis
  proof (cases r)
    case (Inl err)
    with g v(1) assms(2) show ?thesis by (simp add: poll_round_def poll_acquire_def)
  next
    case (Inr p)
    with v(2) [of p] assms(3) obtain x where "p = Some x" by auto
    with Inr g v(1) assms(2) show ?thesis by (auto simp: poll_round_def poll_acquire_def)
  qed
qed

text \<open>
  What happens between two ticks, as a change of the node and of the keys of etcd; and that after
  each change the node is a standby and its key is held.
\<close>

definition outside_is :: "'e etcd_view \<Rightarrow> (node \<times> etcd_keys \<Rightarrow> node \<times> etcd_keys) \<Rightarrow> 'e tick \<Rightarrow> bool" where
  "outside_is view g t \<longleftrightarrow> (\<forall>n e. g (n, view e) = (fst (fst t (n, e)), view (snd (fst t (n, e)))))"

fun kept_out :: "(node \<times> etcd_keys \<Rightarrow> node \<times> etcd_keys) list \<Rightarrow> node \<times> etcd_keys \<Rightarrow> bool" where
  "kept_out [] x \<longleftrightarrow> True"
| "kept_out (g # gs) x \<longleftrightarrow>
     role (fst (g x)) = roleStandby \<and> snd (g x) (EtcdKey (cfg (fst (g x)))) \<noteq> None \<and> kept_out gs (g x)"

text \<open>
  C18: As long as some primary is registered at every tick, the loop of a standby goes on and changes
  nothing: whatever it has seen and whatever calls fail, the node and the keys of etcd after any
  number of ticks are what the things that happen between the ticks have made of them, and the node
  is still a standby.
\<close>

theorem standby_stays_while_key_is_held:
  assumes "etcd_ok E view" and "role n = roleStandby" and "list_all2 (outside_is view) gs ticks" and "kept_out gs (n, view e)"
  shows "\<exists>seen' n' e'. runEtcdPollLoop C E ticks seen n e = Some (GoOn, seen', n', e') \<and>
    (n', view e') = fold (\<lambda>g. g) gs (n, view e) \<and> role n' = roleStandby"
  using assms(3,4,2)
proof (induction gs ticks arbitrary: seen n e rule: list_all2_induct)
  case (Cons g gs t ticks)
  obtain out env where t: "t = (out, env)" by fastforce
  obtain n0 e0 where o: "out (n, e) = (n0, e0)" by fastforce
  have g: "g (n, view e) = (n0, view e0)" using Cons.hyps(1) t o by (simp add: outside_is_def)
  have k: "role n0 = roleStandby" "view e0 (EtcdKey (cfg n0)) \<noteq> None" "kept_out gs (n0, view e0)"
    using Cons.prems(1) g by simp_all
  from poll_round_held [OF assms(1) k(1,2), of C env seen] obtain seen' e1 where
    "poll_round C E env seen n0 e0 = Some (GoOn, seen', n0, e1)" "view e1 = view e0" by auto
  with Cons.IH [of n0 e1 seen'] k t o g show ?case by simp
qed simp

text \<open>An outside that lets etcd hold the key of another node, with an inbound change to the node.\<close>

theorem standby_stays_while_key_is_held_witness:
  "\<exists>seen' n' e'. runEtcdPollLoop wire_codec mem_etcd
      (replicate 3 (\<lambda>(n, e). (n\<lparr>proc := (proc n)\<lparr>p_wal := new_log ''c''\<rparr>\<rparr>, (0, [(DefaultKey, ''127.0.0.1:16800'', 7)])), calm))
      False (standby_node '''') (0, []) = Some (GoOn, seen', n', e') \<and>
    n' = (standby_node '''')\<lparr>proc := (proc (standby_node ''''))\<lparr>p_wal := new_log ''c''\<rparr>\<rparr> \<and>
    mem_view e' = [DefaultKey \<mapsto> (''127.0.0.1:16800'', 7, 1)]"
proof -
  let ?g = "\<lambda>(n, m :: etcd_keys). (n\<lparr>proc := (proc n)\<lparr>p_wal := new_log ''c''\<rparr>\<rparr>, [DefaultKey \<mapsto> (''127.0.0.1:16800'', 7 :: lease, 1)])"
  let ?t = "(\<lambda>(n :: node, e :: mem_etcd). (n\<lparr>proc := (proc n)\<lparr>p_wal := new_log ''c''\<rparr>\<rparr>, (0 :: nat, [(DefaultKey, ''127.0.0.1:16800'', 7 :: lease)])), calm)"
  have "outside_is mem_view ?g ?t" by (auto simp: outside_is_def mem_view_def fun_eq_iff)
  then have "list_all2 (outside_is mem_view) (replicate 3 ?g) (replicate 3 ?t)" by (simp add: list_all2_conv_all_nth)
  moreover have "kept_out (replicate 3 ?g) (standby_node '''', mem_view (0, []))"
    by (simp add: standby_node_def numeral_3_eq_3)
  moreover have "role (standby_node '''') = roleStandby" by (simp add: standby_node_def)
  ultimately show ?thesis
    using standby_stays_while_key_is_held [OF mem_etcd_ok, of "standby_node ''''" "replicate 3 ?g" "replicate 3 ?t" "(0, [])" wire_codec False]
    by (auto simp: numeral_3_eq_3)
qed

subsection \<open>The primary is lost\<close>

text \<open>
  C1: When the primary's key is gone, the standby that has seen it takes over at its next tick, if
  etcd answers, its ports can be opened and nobody answers at the address it would replicate to
  (it has none, or the lost primary does not answer there): it holds the key from then on, and it
  serves with exactly the clients and stations of the lost primary, whatever requests that primary
  had acknowledged since the pair was synchronised. The standby has the same files and no client in
  its memory, as a node that was not a primary before.
\<close>

theorem lost_primary_is_replaced:
  assumes "runEtcdPollLoop C E ticks False n0 e0 = Some (GoOn, True, n1, e1)" and "outside (n1, e1) = (n, e)"
    and "synced C srv w0" and "(acked_step C srv)\<^sup>*\<^sup>* w0 w" and "stands_by C n w"
    and "etcd_ok E view" and "view e (EtcdKey (cfg n)) = None"
    and "GetPrimary E (EtcdKey (cfg n)) e = (Inr p, e2)"
    and "TryAcquire E (EtcdKey (cfg n)) (primaryValue n) (LeaseTTL (cfg n)) e2 = (Inr r, e3)"
    and "no_peer env n" and "t_resolve env = None" and "t_udp env = None" and "t_tcp env = None"
  shows "\<exists>s n'. runEtcdPollLoop C E (ticks @ [(outside, env)]) False n0 e0 = Some (Blocked_in_promotion, True, n', e3) \<and>
    holds view e3 s \<and> sess_value s = primaryValue n \<and> role n' = roleLeader \<and> replServer n' = None \<and> clientSrv n' \<noteq> None \<and>
    abs_store (mem (proc n')) = abs_store (mem w) \<and> station_names (mem (proc n')) = station_names (mem w)"
proof -
  have y: "synced C srv w" using acked_steps_synced [OF assms(4,3)] by simp
  note l = stands_by_log [OF y assms(5)]
  have st: "role n = roleStandby" "CurrentClients (mem (proc n)) = Map.empty" "Files (cfg n) = station_names (mem w)"
    using assms(5) by (simp_all add: stands_by_def)
  note g = GetPrimary_view [OF assms(6,8)]
  have p: "p = None" using g(2) [OF refl] assms(7) by simp
  note t = TryAcquire_view [OF assms(6,9)]
  obtain s where s: "r = Some s" using t g(1) assms(7) by (cases r) auto
  then have h: "holds view e3 s" "sess_value s = primaryValue n" using t by (auto simp: holds_def)
  from promote_alone [OF st(1) l(1) st(2) l(3,4) assms(10-13), of s] obtain n' where
    n': "promoteToLeader C env s n = Some (BlocksForever, n')" "role n' = roleLeader" "replServer n' = None"
      "clientSrv n' \<noteq> None" "abs_store (mem (proc n')) = abs_store (mem w)" "station_names (mem (proc n')) = Files (cfg n)"
    by auto
  have "poll_round C E env True n e = Some (Blocked_in_promotion, True, n', e3)"
    using st(1) assms(8,9) p s n'(1) by (simp add: poll_round_def poll_acquire_def)
  then have "runEtcdPollLoop C E (ticks @ [(outside, env)]) False n0 e0 = Some (Blocked_in_promotion, True, n', e3)"
    using assms(1,2) by (simp add: poll_loop_append)
  with h n' st(3) show ?thesis by auto
qed

theorem lost_primary_is_replaced_witness:
  "\<exists>w ticks n0 n' e3. (acked_step wire_codec fresh_server)\<^sup>*\<^sup>* (fresh_world (sconst Delivered)) w \<and>
    CurrentClients (mem w) (client_key 5000) \<noteq> None \<and>
    runEtcdPollLoop wire_codec mem_etcd ticks False n0 (0, []) = Some (Blocked_in_promotion, True, n', e3) \<and>
    role n' = roleLeader \<and> abs_store (mem (proc n')) = abs_store (mem w)"
proof -
  obtain w where h: "Handshake fresh_server \<lparr>hello_UdpPort = 5000\<rparr> (fresh_world (sconst Delivered)) =
       Some (Inr \<lparr>welcome_NumStations = 2\<rparr>, w)" and k: "CurrentClients (mem w) (client_key 5000) = Some 0"
    and nm: "station_names (mem w) = [''mp3/a.mp3'', ''mp3/b.mp3'']"
    using connected_world by metis
  have r: "(acked_step wire_codec fresh_server)\<^sup>*\<^sup>* (fresh_world (sconst Delivered)) w"
    using acked_step.hello [OF fresh_room h] by (rule r_into_rtranclp)
  define n where "n = (standby_node '''')\<lparr>cfg := (cfg (standby_node ''127.0.0.1:16801''))\<lparr>Files := [''mp3/a.mp3'', ''mp3/b.mp3'']\<rparr>,
     proc := (proc (standby_node ''''))\<lparr>p_wal := b_wal (peer w)\<rparr>\<rparr>"
  let ?t = "(\<lambda>(n :: node, e :: mem_etcd). (n, (0 :: nat, [(DefaultKey, ''127.0.0.1:16800'', 7 :: lease)])), calm)"
  have l: "runEtcdPollLoop wire_codec mem_etcd [?t] False (standby_node '''') (0, []) =
    Some (GoOn, True, standby_node '''', (0, [(DefaultKey, ''127.0.0.1:16800'', 7)]))"
    by (simp add: poll_round_def poll_acquire_def GetPrimary_def mem_etcd_def standby_node_def)
  have b: "stands_by wire_codec n w" using nm by (simp add: n_def stands_by_def standby_node_def initial_store_def)
  have c: "EtcdKey (cfg n) = DefaultKey" "no_peer (calm\<lparr>t_rounds := [Dialled (sconst (RequestLost ''refused''))]\<rparr>) n"
    by (simp_all add: n_def standby_node_def no_peer_def call_def)
  have g: "GetPrimary mem_etcd (EtcdKey (cfg n)) (0, []) = (Inr None, (0, []))" by (simp add: GetPrimary_def mem_etcd_def)
  obtain s e3 where a: "TryAcquire mem_etcd (EtcdKey (cfg n)) (primaryValue n) (LeaseTTL (cfg n)) (0, []) = (Inr (Some s), e3)"
    by (simp add: TryAcquire_def mem_etcd_def mem_view_def create_revision_def Let_def)
  have "mem_view (0, []) (EtcdKey (cfg n)) = None" by (simp add: mem_view_def)
  from lost_primary_is_replaced [where outside = "\<lambda>_. (n, (0, []))" and env = "calm\<lparr>t_rounds := [Dialled (sconst (RequestLost ''refused''))]\<rparr>", OF l refl fresh_synced r b mem_etcd_ok this g a c(2)]
  obtain n' where "runEtcdPollLoop wire_codec mem_etcd ([?t] @ [(\<lambda>_. (n, (0, [])), calm\<lparr>t_rounds := [Dialled (sconst (RequestLost ''refused''))]\<rparr>)]) False (standby_node '''') (0, []) =
      Some (Blocked_in_promotion, True, n', e3)" "role n' = roleLeader" "abs_store (mem (proc n')) = abs_store (mem w)"
    by (auto simp: calm_def)
  with r k show ?thesis by blast
qed

end
