(* ===== verification/Client.thy ===== *)
theory Client
  imports Control_Props
begin

section \<open>The control client (cmd/snowcast_control/main.go)\<close>

text \<open>
  The program a listener starts: it says hello, reads lines from its terminal, asks for the station
  whose number is typed and prints what the server sends. The gRPC stub is an interface value of the
  code: its three calls are the fields of \<open>control_client\<close>, over whatever state lies behind them. The
  lines are those the scanner returns, up to the end of the input, and are ASCII text. What is
  printed is a value that names the format it is printed with.
\<close>

subsection \<open>Streams seen from the client\<close>

text \<open>
  The client's side of a stream: the events that arrive and what follows them, an error of \<open>Recv\<close>
  (\<open>EOF\<close> when the handler returned without one) or nothing, in which case \<open>Recv\<close> does not return.
\<close>

datatype stream_end = Ends error | StaysOpen

record RecvStream =
  in_events :: "ServerEvent list"
  ending :: stream_end

record 'w control_client =
  stub_Handshake :: "HelloMessage \<Rightarrow> 'w \<Rightarrow> (error + WelcomeMessage) \<times> 'w"
  stub_SetStation :: "SetStationMessage \<Rightarrow> 'w \<Rightarrow> (error + RecvStream) \<times> 'w"
  stub_Disconnect :: "DisconnectRequest \<Rightarrow> 'w \<Rightarrow> 'w"

datatype client_line =
    WelcomeLine u32
  | ParseLine error
  | SetStationLine error
  | InvalidLine string
  | StreamLine error
  | SongLine string

text \<open>How a part of the program ends: it returns, it waits in \<open>Recv\<close> for ever, it exits with a message.\<close>

datatype client_end = Finished | Waiting | ExitsWith string "error option"

definition checkOnlyNumbers :: "string \<Rightarrow> bool" where
  "checkOnlyNumbers s \<longleftrightarrow> list_all is_digit s"

fun recv_loop :: "ServerEvent list \<Rightarrow> stream_end \<Rightarrow> client_line list \<times> client_end" where
  "recv_loop [] StaysOpen = ([], Waiting)"
| "recv_loop [] (Ends err) = (if err = EOF then [] else [StreamLine err], Finished)"
| "recv_loop (ServerEvent_Announce a # evs) e = (case recv_loop evs e of (out, r) \<Rightarrow> (SongLine (SongName a) # out, r))"
| "recv_loop (ServerEvent_Invalid i # evs) e = ([InvalidLine (ReplyString i)], Finished)"

definition handleServerStream :: "RecvStream \<Rightarrow> client_line list \<times> client_end" where
  "handleServerStream stream = recv_loop (in_events stream) (ending stream)"

subsection \<open>The loop over the input and main\<close>

text \<open>The package variables: whether a station was joined and the port of the listener.\<close>

record client_vars =
  joinedStation :: bool
  listenerPort :: nat

fun handleUserInput ::
  "'w control_client \<Rightarrow> string list \<Rightarrow> client_vars \<Rightarrow> 'w \<Rightarrow> client_line list \<times> client_end \<times> client_vars \<times> 'w" where
  "handleUserInput client [] v w = ([], Finished, v, w)"
| "handleUserInput client (line # ls) v w =
     (let input = TrimSpace line in
      if input = ''q'' then ([], Finished, v, w)
      else if input = '''' then handleUserInput client ls v w
      else if checkOnlyNumbers input then
        (let (stationNum, err) = ParseUint input 16;
             out0 = (case err of Some e \<Rightarrow> [ParseLine e] | None \<Rightarrow> []) in
         case stub_SetStation client
             \<lparr>set_StationNumber = of_nat stationNum, set_UdpPort = of_nat (listenerPort v)\<rparr> w of
           (Inl e, w1) \<Rightarrow>
             (let (out, res) = handleUserInput client ls v w1 in (out0 @ SetStationLine e # out, res))
         | (Inr stream, w1) \<Rightarrow>
             (let v1 = v\<lparr>joinedStation := True\<rparr> in
              case handleServerStream stream of
                (out1, Finished) \<Rightarrow>
                  (let (out, res) = handleUserInput client ls v1 w1 in (out0 @ out1 @ out, res))
              | (out1, r) \<Rightarrow> (out0 @ out1, r, v1, w1)))
      else (let (out, res) = handleUserInput client ls v w in (InvalidLine input # out, res)))"

text \<open>\<open>dial\<close> is the outcome of \<open>grpc.NewClient\<close>; \<open>args\<close> is \<open>os.Args\<close>.\<close>

definition control_main ::
  "'w control_client \<Rightarrow> error option \<Rightarrow> string list \<Rightarrow> string list \<Rightarrow> 'w \<Rightarrow> client_line list \<times> client_end \<times> 'w" where
  "control_main client dial args lines w =
     (if length args \<noteq> 4 then ([], ExitsWith ''Usage: ./snowcast_control <server IP> <server port> <listener_port>'' None, w)
      else
     (case ParseUint (args ! 3) 16 of
        (_, Some err) \<Rightarrow> ([], ExitsWith ''Error parsing listener port'' (Some err), w)
      | (port, None) \<Rightarrow>
     (case dial of
        Some err \<Rightarrow> ([], ExitsWith ''Error connecting to server'' (Some err), w)
      | None \<Rightarrow>
     (case stub_Handshake client \<lparr>hello_UdpPort = of_nat port\<rparr> w of
        (Inl err, w1) \<Rightarrow> ([], ExitsWith ''Handshake failed'' (Some err), w1)
      | (Inr welcome, w1) \<Rightarrow>
          (case handleUserInput client lines \<lparr>joinedStation = False, listenerPort = port\<rparr> w1 of
             (out, Finished, v, w2) \<Rightarrow>
               (WelcomeLine (welcome_NumStations welcome) # out, Finished,
                stub_Disconnect client \<lparr>disc_UdpPort = of_nat (listenerPort v)\<rparr> w2)
           | (out, r, v, w2) \<Rightarrow> (WelcomeLine (welcome_NumStations welcome) # out, r, w2))))))"

subsection \<open>What is sent for a line of digits\<close>

lemma parse_uint_loop_overflow:
  assumes "\<And>c. c \<in> set s \<Longrightarrow> is_digit c" and "mx < foldl (\<lambda>n c. 10 * n + digit_val c) n s" and "n \<le> mx"
  shows "parse_uint_loop mx n s = (mx, Some (Errorf ''value out of range''))"
  using assms
proof (induction s arbitrary: n)
  case (Cons c s)
  then show ?case by (cases "10 * n + digit_val c \<le> mx") (simp_all add: Let_def)
qed simp

lemma ParseUint_digits:
  assumes "checkOnlyNumbers s" and "s \<noteq> ''''"
  shows "ParseUint s bits = (min (undec s) (2 ^ bits - 1),
    if undec s < 2 ^ bits then None else Some (Errorf ''value out of range''))"
proof -
  have d: "\<And>c. c \<in> set s \<Longrightarrow> is_digit c" using assms(1) by (auto simp: checkOnlyNumbers_def list_all_iff)
  show ?thesis
  proof (cases "undec s < 2 ^ bits")
    case True
    then have "undec s \<le> 2 ^ bits - 1" by simp
    with True parse_uint_loop_digits [OF d, of s 0 "2 ^ bits - 1"] assms(2) show ?thesis
      by (simp add: ParseUint_def undec_def)
  next
    case False
    have "(0 :: nat) < 2 ^ bits" by simp
    with False have "2 ^ bits - 1 < undec s" by linarith
    with False parse_uint_loop_overflow [OF d, of s "2 ^ bits - 1" 0] assms(2) show ?thesis
      by (simp add: ParseUint_def undec_def min_absorb2)
  qed
qed

lemma digits_not_quit: "checkOnlyNumbers s \<Longrightarrow> s \<noteq> ''q''"
  by (auto simp: checkOnlyNumbers_def is_digit_def)

lemma is_digit_not_space: "is_digit c \<Longrightarrow> \<not> is_space c"
  by (auto simp: is_digit_def is_space_def)

lemma TrimSpace_digits [simp]: "TrimSpace (dec n) = dec n"
proof -
  have "dropWhile is_space s = s" if "set s \<subseteq> set (dec n)" for s
    using that by (cases s) (auto dest!: dec_digits is_digit_not_space)
  from this [of "dec n"] this [of "rev (dec n)"] show ?thesis by (simp add: TrimSpace_def)
qed

lemma checkOnlyNumbers_dec [simp]: "checkOnlyNumbers (dec n)"
  by (auto simp: checkOnlyNumbers_def list_all_iff dest: dec_digits)

text \<open>
  The client asks for the number that is typed cut off at 65535: a line of digits has the
  effect of the line with that number in its shortest form, except that for a larger number an
  error is printed first. The overflow does not stop the request.
\<close>

theorem typed_number_saturates:
  assumes "checkOnlyNumbers (TrimSpace line)" and "TrimSpace line \<noteq> ''''"
  shows "handleUserInput client (line # ls) v w =
    (case handleUserInput client (dec (min (undec (TrimSpace line)) 65535) # ls) v w of (out, res) \<Rightarrow>
     (if undec (TrimSpace line) < 65536 then out else ParseLine (Errorf ''value out of range'') # out, res))"
proof -
  let ?n = "undec (TrimSpace line)"
  have "ParseUint (TrimSpace line) 16 =
    (min ?n 65535, if ?n < 65536 then None else Some (Errorf ''value out of range''))"
    using ParseUint_digits [OF assms, of 16] by simp
  moreover have "ParseUint (dec (min ?n 65535)) 16 = (min ?n 65535, None)" by (rule ParseUint_dec) simp
  ultimately show ?thesis
    using assms digits_not_quit [OF assms(1)] digits_not_quit [OF checkOnlyNumbers_dec, of "min ?n 65535"]
    by (auto simp: Let_def split: prod.split sum.split client_end.split)
qed


subsection \<open>Sessions against a service\<close>

text \<open>
  The first station the typed lines choose, of those the server has: what a session amounts to.
\<close>

fun first_choice :: "nat \<Rightarrow> string list \<Rightarrow> nat option" where
  "first_choice k [] = None"
| "first_choice k (line # ls) =
     (let input = TrimSpace line in
      if input = ''q'' then None
      else if input \<noteq> '''' \<and> checkOnlyNumbers input \<and> min (undec input) 65535 < k
      then Some (min (undec input) 65535)
      else first_choice k ls)"

definition stays_open :: "RecvStream \<Rightarrow> bool" where
  "stays_open st \<longleftrightarrow> snd (handleServerStream st) = Waiting"

definition announces :: "RecvStream \<Rightarrow> bool" where
  "announces st \<longleftrightarrow> (case in_events st of ServerEvent_Announce _ # _ \<Rightarrow> True | _ \<Rightarrow> False)"

text \<open>
  What a session relies on. \<open>able n w\<close> says that the service can take \<open>n\<close> more requests,
  \<open>assigned\<close> is the assignment it keeps and \<open>stations\<close> their number.
\<close>

locale control_service =
  fixes stub :: "'w control_client"
    and able :: "nat \<Rightarrow> 'w \<Rightarrow> bool"
    and assigned :: "'w \<Rightarrow> string \<rightharpoonup> int"
    and stations :: "'w \<Rightarrow> nat"
  assumes hello: "able (Suc n) w \<Longrightarrow> assigned w (client_key p) = None \<Longrightarrow>
      \<exists>m w'. stub_Handshake stub \<lparr>hello_UdpPort = p\<rparr> w = (Inr m, w') \<and> able n w' \<and>
        assigned w' = (assigned w)(client_key p \<mapsto> -1) \<and> stations w' = stations w"
    and tune: "able (Suc n) w \<Longrightarrow> assigned w (client_key p) \<noteq> None \<Longrightarrow> unat i < stations w \<Longrightarrow>
      \<exists>st w'. stub_SetStation stub \<lparr>set_StationNumber = i, set_UdpPort = p\<rparr> w = (Inr st, w') \<and> able n w' \<and>
        stays_open st \<and> announces st \<and> assigned w' = (assigned w)(client_key p \<mapsto> uint i) \<and> stations w' = stations w"
    and tune_invalid: "able n w \<Longrightarrow> stations w \<le> unat i \<Longrightarrow>
      \<exists>out st. stub_SetStation stub \<lparr>set_StationNumber = i, set_UdpPort = p\<rparr> w = (Inr st, w) \<and>
        handleServerStream st = (out, Finished)"
    and bye: "able (Suc n) w \<Longrightarrow> assigned w (client_key p) \<noteq> None \<Longrightarrow>
      \<exists>w'. stub_Disconnect stub \<lparr>disc_UdpPort = p\<rparr> w = w' \<and> able n w' \<and>
        assigned w' = (assigned w)(client_key p := None) \<and> stations w' = stations w"
    and bye_unknown: "assigned w (client_key p) = None \<Longrightarrow> stub_Disconnect stub \<lparr>disc_UdpPort = p\<rparr> w = w"
    and able_less: "able (Suc n) w \<Longrightarrow> able n w"
begin

lemma able_le: "able n w \<Longrightarrow> m \<le> n \<Longrightarrow> able m w"
  by (induction n) (auto simp: le_Suc_eq dest: able_less)

lemma input_follows_first_choice:
  assumes "able (length lines) w" and "assigned w (client_key (of_nat (listenerPort v))) \<noteq> None"
  shows "\<exists>out v' w'. (case first_choice (stations w) lines of
      None \<Rightarrow> handleUserInput stub lines v w = (out, Finished, v', w) \<and> listenerPort v' = listenerPort v
    | Some i \<Rightarrow> handleUserInput stub lines v w = (out, Waiting, v', w') \<and>
        assigned w' = (assigned w)(client_key (of_nat (listenerPort v)) \<mapsto> int i))"
  using assms
proof (induction lines arbitrary: v)
  case (Cons line ls)
  let ?t = "TrimSpace line"
  let ?n = "min (undec ?t) 65535"
  have able: "able (length ls) w" using Cons.prems(1) able_less by simp
  show ?case
  proof (cases "?t \<noteq> '''' \<and> checkOnlyNumbers ?t")
    case True
    then have p: "ParseUint ?t 16 = (?n, if undec ?t < 65536 then None else Some (Errorf ''value out of range''))"
      using ParseUint_digits [of ?t 16] by simp
    have q: "?t \<noteq> ''q''" using True digits_not_quit by blast
    have n: "unat (of_nat ?n :: u32) = ?n" by (simp add: unsigned_of_nat take_bit_nat_eq_self_iff min_def)
    then have u: "uint (of_nat ?n :: u32) = int ?n" by (metis uint_nat)
    show ?thesis
    proof (cases "?n < stations w")
      case chosen: True
      with tune [of "length ls" w "of_nat (listenerPort v)" "of_nat ?n"] Cons.prems n obtain st w' where
        s: "stub_SetStation stub \<lparr>set_StationNumber = of_nat ?n, set_UdpPort = of_nat (listenerPort v)\<rparr> w = (Inr st, w')"
          "stays_open st" "assigned w' = (assigned w)(client_key (of_nat (listenerPort v)) \<mapsto> uint (of_nat ?n :: u32))"
        by auto
      obtain out where "handleServerStream st = (out, Waiting)" using s(2) by (cases "handleServerStream st") (simp add: stays_open_def)
      with s True p q chosen u show ?thesis by (simp add: Let_def)
    next
      case other: False
      then have "stations w \<le> unat (of_nat ?n :: u32)" using n by linarith
      from tune_invalid [OF able this, of "of_nat (listenerPort v)"] obtain out st where
        s: "stub_SetStation stub \<lparr>set_StationNumber = of_nat ?n, set_UdpPort = of_nat (listenerPort v)\<rparr> w = (Inr st, w)"
          "handleServerStream st = (out, Finished)" by auto
      have "assigned w (client_key (of_nat (listenerPort (v\<lparr>joinedStation := True\<rparr>)))) \<noteq> None"
        using Cons.prems(2) by simp
      from Cons.IH [OF able this] s True p q other show ?thesis
        by (cases "first_choice (stations w) ls") (auto simp: Let_def)
    qed
  next
    case False
    show ?thesis
    proof (cases "?t = ''q''")
      case True
      then show ?thesis by simp
    next
      case nq: False
      with False Cons.IH [OF able Cons.prems(2)] show ?thesis
        by (cases "first_choice (stations w) ls"; cases "?t = ''''") (auto simp: Let_def)
    qed
  qed
qed simp

lemma session_follows_first_choice:
  assumes "able (Suc (Suc (length lines))) w" and "port < 65536" and "assigned w (client_key (of_nat port)) = None"
  shows "\<exists>out w'. (case first_choice (stations w) lines of
      None \<Rightarrow> control_main stub None [prog, ip, srv, dec port] lines w = (out, Finished, w') \<and> assigned w' = assigned w
    | Some i \<Rightarrow> control_main stub None [prog, ip, srv, dec port] lines w = (out, Waiting, w') \<and>
        assigned w' = (assigned w)(client_key (of_nat port) \<mapsto> int i))"
proof -
  let ?k = "client_key (of_nat port)"
  have p: "ParseUint (dec port) 16 = (port, None)" using assms(2) by (intro ParseUint_dec) simp
  from hello [OF assms(1,3)] obtain m w1 where
    h: "stub_Handshake stub \<lparr>hello_UdpPort = of_nat port\<rparr> w = (Inr m, w1)" "able (Suc (length lines)) w1"
      "assigned w1 = (assigned w)(?k \<mapsto> -1)" "stations w1 = stations w" by blast
  let ?v = "\<lparr>joinedStation = False, listenerPort = port\<rparr>"
  have "assigned w1 (client_key (of_nat (listenerPort ?v))) \<noteq> None" using h(3) by simp
  from input_follows_first_choice [OF able_less [OF h(2)] this] show ?thesis
    using h p bye [OF h(2), of "of_nat port"] assms(3)
    by (cases "first_choice (stations w) lines") (auto simp: control_main_def fun_upd_idem)
qed

end


subsection \<open>The server behind the stub\<close>

text \<open>
  The handlers of a server as the client sees them through gRPC. A handler's error reaches \<open>Recv\<close>
  after the events that were sent; a handler that goes on to its event loop keeps the stream open,
  for its context ends with the client's process and its channel is closed only when the client is
  disconnected, and \<open>news\<close> are the announcements its loop sends meanwhile. A panic of the server's
  process is a lost connection. That the stream stays open (\<open>StaysOpen\<close>) is what a primary that goes on
  running does: a crash of the server in the middle of a session is not a case of this stub.
\<close>

definition server_stub :: "Server \<Rightarrow> string list \<Rightarrow> world control_client" where
  "server_stub s news =
     \<lparr>stub_Handshake = (\<lambda>req w. case Handshake s req w of None \<Rightarrow> (Inl (Errorf ''unavailable''), w) | Some r \<Rightarrow> r),
      stub_SetStation = (\<lambda>req w. case SetStation s req \<lparr>sent = [], send_fates = sconst None\<rparr> w of
          None \<Rightarrow> (Inl (Errorf ''unavailable''), w)
        | Some (Inl err, st, w') \<Rightarrow> (Inr \<lparr>in_events = sent st, ending = Ends (Wrapf ''rpc error'' err)\<rparr>, w')
        | Some (Inr a, st, w') \<Rightarrow>
            (Inr \<lparr>in_events = sent st @ map (\<lambda>song. ServerEvent_Announce \<lparr>SongName = song\<rparr>) news, ending = StaysOpen\<rparr>, w')),
      stub_Disconnect = (\<lambda>req w. case Disconnect s req w of None \<Rightarrow> w | Some (_, w') \<Rightarrow> w')\<rparr>"

text \<open>A replicator whose log has room for a number of further requests.\<close>

locale roomy = replicating +
  fixes spare :: "nat \<Rightarrow> world \<Rightarrow> bool"
  assumes spare_fit: "spare (Suc n) w \<Longrightarrow> fit (handshake_entry p) w" "spare (Suc n) w \<Longrightarrow> fit (setstation_entry p i j) w"
      "spare (Suc n) w \<Longrightarrow> fit (disconnect_entry p) w"
    and spare_step: "spare (Suc n) w \<Longrightarrow> log w' = log w @ [e] \<Longrightarrow> spare n w'"
    and spare_less: "spare (Suc n) w \<Longrightarrow> spare n w"
begin

definition can_take :: "nat \<Rightarrow> world \<Rightarrow> bool" where
  "can_take n w \<longleftrightarrow> in_sync w \<and> steady w \<and> spare n w"

lemma can_take_step: "can_take (Suc n) w \<Longrightarrow> outcome e w True w' \<Longrightarrow> can_take n w'"
  by (auto simp: can_take_def outcome_def intro: spare_step)

lemma outcome_steady: "can_take n w \<Longrightarrow> \<not> outcome e w False w'"
  by (simp add: can_take_def outcome_def)

end

lemma recv_songs [simp]:
  "recv_loop (map (\<lambda>song. ServerEvent_Announce \<lparr>SongName = song\<rparr>) news) StaysOpen = (map SongLine news, Waiting)"
  by (induction news) simp_all

sublocale roomy \<subseteq> service: control_service "server_stub \<lparr>srv_NumStations = k, Repl = repl\<rparr> news" can_take
  "\<lambda>w. abs_store (mem w)" "\<lambda>w. length (StationList (mem w))" for k news
proof (unfold_locales, goal_cases)
  case (1 n w p)
  let ?s = "\<lparr>srv_NumStations = k, Repl = repl\<rparr>"
  have "in_sync w" "fit (handshake_entry p) w" "CurrentClients (mem w) (client_key p) = None"
    using 1 spare_fit(1) by (auto simp: can_take_def abs_store_def split: option.splits)
  with handshake [where s = ?s and req = "\<lparr>hello_UdpPort = p\<rparr>" and w = w] outcome_steady [OF 1(1)] obtain m w' where
    h: "Handshake ?s \<lparr>hello_UdpPort = p\<rparr> w = Some (Inr m, w')" "outcome (handshake_entry p) w True w'" by auto
  with can_take_step [OF 1(1) h(2)] 1(2) show ?case
    by (auto simp: server_stub_def outcome_def a_entry_handshake dest: length_StationList)
next
  case (2 n w p i)
  let ?s = "\<lparr>srv_NumStations = k, Repl = repl\<rparr>"
  obtain a where a: "CurrentClients (mem w) (client_key p) = Some a" using 2(2) by auto
  have i: "uint i < int (length (StationList (mem w)))" using 2(3) by (simp only: uint_nat of_nat_less_iff)
  have s: "in_sync w" "fit (setstation_entry p (uint i) (CurrStation (heap (mem w) ! a))) w"
    using 2(1) spare_fit(2) by (auto simp: can_take_def)
  from setstation [OF s a _ refl refl i, of ?s "\<lparr>sent = [], send_fates = sconst None\<rparr>"] outcome_steady [OF 2(1)]
  obtain st' w' where
    h: "SetStation ?s \<lparr>set_StationNumber = i, set_UdpPort = p\<rparr> \<lparr>sent = [], send_fates = sconst None\<rparr> w = Some (Inr a, st', w')"
      "sent st' = [ServerEvent_Announce \<lparr>SongName = station_names (mem w) ! nat (uint i)\<rparr>]"
      "outcome (setstation_entry p (uint i) (CurrStation (heap (mem w) ! a))) w True w'"
    by (auto simp: Send_def)
  have "uint i < 2 ^ 31" using i s(1) by (simp add: in_sync_def reflects_def)
  then have "a_entry (setstation_entry p (uint i) (CurrStation (heap (mem w) ! a))) (abs_store (mem w)) =
      Some ((abs_store (mem w))(client_key p \<mapsto> uint i))" using 2(2) by (intro a_entry_setstation) auto
  with h can_take_step [OF 2(1) h(3)] show ?case
    by (auto simp: server_stub_def outcome_def stays_open_def announces_def handleServerStream_def dest: length_StationList)
next
  case (3 n w i p)
  then have "uint i \<ge> int (length (StationList (mem w)))" by (simp only: uint_nat of_nat_le_iff)
  then show ?case by (simp add: server_stub_def SetStation_def Let_def Send_def handleServerStream_def)
next
  case (4 n w p)
  let ?s = "\<lparr>srv_NumStations = k, Repl = repl\<rparr>"
  obtain a where a: "CurrentClients (mem w) (client_key p) = Some a" using 4(2) by auto
  have "in_sync w" "fit (disconnect_entry p) w" using 4(1) spare_fit(3) by (auto simp: can_take_def)
  with disconnect [where s = ?s and req = "\<lparr>disc_UdpPort = p\<rparr>" and w = w] a outcome_steady [OF 4(1)] obtain r w' where
    h: "Disconnect ?s \<lparr>disc_UdpPort = p\<rparr> w = Some (r, w')" "outcome (disconnect_entry p) w True w'" by auto
  with 4(2) can_take_step [OF 4(1) h(2)] show ?case
    by (auto simp: server_stub_def outcome_def a_entry_disconnect dest: length_StationList)
next
  case (5 w p)
  then show ?case by (simp add: server_stub_def Disconnect_def GetClient_def Let_def)
next
  case (6 n w)
  then show ?case by (auto simp: can_take_def intro: spare_less)
qed


definition spare_log :: "codec \<Rightarrow> nat \<Rightarrow> world \<Rightarrow> bool" where
  "spare_log C n w \<longleftrightarrow> length (entries C (p_wal w)) + n < seq_limit \<and>
     (\<forall>p i j s. storable C (handshake_entry p\<lparr>Seq := s\<rparr>) \<and> storable C (setstation_entry p i j\<lparr>Seq := s\<rparr>) \<and>
       storable C (disconnect_entry p\<lparr>Seq := s\<rparr>))"

lemma spare_log_step:
  "spare_log C (Suc n) w \<Longrightarrow> entries C (p_wal w') = entries C (p_wal w) @ [e] \<Longrightarrow> spare_log C n w'"
  "spare_log C (Suc n) w \<Longrightarrow> spare_log C n w"
  by (auto simp: spare_log_def)

lemma spare_log_fits:
  assumes "spare_log C (Suc n) w"
  shows "fits C (handshake_entry p) w" "fits C (setstation_entry p i j) w" "fits C (disconnect_entry p) w"
  using assms by (auto simp: spare_log_def fits_def next_entry_def)

interpretation pair: roomy "ReplicateAndWait C" "\<lambda>w. entries C (p_wal w)"
  "\<lambda>w. b_entries C (peer w)" "repl_inv C" "seeded C" "fits C" online "spare_log C" for C
  by unfold_locales (auto intro: spare_log_fits spare_log_step)

interpretation lone: roomy "Local_ReplicateAndWait C" "\<lambda>w. entries C (p_wal w)"
  "\<lambda>w. entries C (p_wal w)" "local_inv C" "\<lambda>_. True" "fits C" "\<lambda>_. True" "spare_log C" for C
  by unfold_locales (auto intro: spare_log_fits spare_log_step)

text \<open>
  C16: A whole session of the control client against a primary whose network is up. If no existing
  station is typed before q or the end of the input, the program ends and leaves no trace. At the
  first existing station the client is moved there and the program waits for the server's events
  for ever: no later line is handled, neither another station nor q, and no disconnect is sent.
\<close>

theorem session_is_its_first_station:
  assumes "serving C s w" and "online w" and "spare_log C (Suc (Suc (length lines))) w"
    and "port < 65536" and "CurrentClients (mem w) (client_key (of_nat port)) = None"
  shows "\<exists>out w'. (case first_choice (length (StationList (mem w))) lines of
      None \<Rightarrow> control_main (server_stub s news) None [prog, ip, srv, dec port] lines w = (out, Finished, w') \<and>
        abs_store (mem w') = abs_store (mem w)
    | Some i \<Rightarrow> control_main (server_stub s news) None [prog, ip, srv, dec port] lines w = (out, Waiting, w') \<and>
        abs_store (mem w') = (abs_store (mem w))(client_key (of_nat port) \<mapsto> int i))"
proof -
  have s: "s = \<lparr>srv_NumStations = srv_NumStations s, Repl = ReplicateAndWait C\<rparr>"
    using servingD(2) [OF assms(1)] by (cases s) simp
  have "pair.can_take C (Suc (Suc (length lines))) w"
    using servingD(1) [OF assms(1)] assms(2,3) by (simp add: pair.can_take_def)
  with pair.service.session_follows_first_choice [of C lines w port "srv_NumStations s" news prog ip srv] assms(4,5)
  show ?thesis by (subst (1 2) s) simp
qed

theorem typed_number_saturates_witness:
  "\<exists>out res. handleUserInput (server_stub fresh_server []) [''70000''] \<lparr>joinedStation = False, listenerPort = 5000\<rparr>
      (fresh_world (sconst Delivered)) = (ParseLine (Errorf ''value out of range'') # out, res) \<and>
    handleUserInput (server_stub fresh_server []) [dec 65535] \<lparr>joinedStation = False, listenerPort = 5000\<rparr>
      (fresh_world (sconst Delivered)) = (out, res)"
proof -
  have t: "TrimSpace ''70000'' = ''70000''" by (simp add: TrimSpace_def is_space_def)
  have d: "checkOnlyNumbers ''70000''" "undec ''70000'' = 70000"
    by (simp_all add: checkOnlyNumbers_def is_digit_def undec_def digit_val_def)
  from typed_number_saturates [of "''70000''" "server_stub fresh_server []" "[]"] show ?thesis
    unfolding t using d by (auto split: prod.splits)
qed

theorem session_is_its_first_station_witness:
  "\<exists>out w'. control_main (server_stub fresh_server []) None [''snowcast_control'', ''127.0.0.1'', ''16800'', dec 5000]
      [''x'', ''9'', ''1'', ''0'', ''q''] (fresh_world (sconst Delivered)) = (out, Waiting, w') \<and>
    abs_store (mem w') (client_key 5000) = Some 1"
proof -
  let ?w = "fresh_world (sconst Delivered)"
  let ?l = "[''x'', ''9'', ''1'', ''0'', ''q'']"
  have t: "TrimSpace [c] = [c]" if "\<not> is_space c" for c using that by (simp add: TrimSpace_def)
  have c: "first_choice 2 ?l = Some 1"
    by (simp add: t is_space_def checkOnlyNumbers_def is_digit_def undec_def digit_val_def)
  have n: "length (StationList (mem ?w)) = 2" by (simp add: InitStations_def)
  have "spare_log wire_codec (Suc (Suc (length ?l))) ?w"
    by (simp add: spare_log_def seq_limit_def handshake_entry_def setstation_entry_def disconnect_entry_def getClientIP_def)
  moreover have "online ?w" by (simp add: online_def)
  ultimately show ?thesis
    using session_is_its_first_station [OF fresh_serving, of "sconst Delivered" ?l 5000 "[]"
        "''snowcast_control''" "''127.0.0.1''" "''16800''"]
    unfolding n c by auto
qed

end
