(* ===== verification/GoFlags.thy ===== *)
theory GoFlags
  imports GoLib
begin

section \<open>Command lines and file paths of Go's standard library\<close>

text \<open>
  The packages flag, strconv and path/filepath as the commands use them: flags with a value, signed
  integers in the syntax of Go, and joining of paths on a Unix system. Of a duration only whether
  it parses and its nanoseconds matter: \<open>time.ParseDuration\<close> is an argument.
\<close>

subsection \<open>Integers with a base prefix\<close>

definition lower :: "char \<Rightarrow> nat" where
  "lower c = (let n = of_char c in if 65 \<le> n \<and> n \<le> 90 then n + 32 else n)"

text \<open>The value of a digit in a base up to 36.\<close>

definition any_digit :: "char \<Rightarrow> nat option" where
  "any_digit c =
     (if is_digit c then Some (digit_val c)
      else if 97 \<le> lower c \<and> lower c \<le> 122 then Some (lower c - 97 + 10)
      else None)"

text \<open>\<open>strconv.ParseUint(s, 0, bits)\<close>: the loop over the digits, with underscores skipped.\<close>

fun parse_base_loop :: "nat \<Rightarrow> nat \<Rightarrow> nat \<Rightarrow> string \<Rightarrow> nat \<times> error option" where
  "parse_base_loop base mx n [] = (n, None)"
| "parse_base_loop base mx n (c # cs) =
     (if c = CHR ''_'' then parse_base_loop base mx n cs
      else case any_digit c of
        None \<Rightarrow> (0, Some (Errorf ''invalid syntax''))
      | Some d \<Rightarrow>
          if d \<ge> base then (0, Some (Errorf ''invalid syntax''))
          else let n' = base * n + d in
            if n' > mx then (mx, Some (Errorf ''value out of range''))
            else parse_base_loop base mx n' cs)"

definition split_base :: "string \<Rightarrow> nat \<times> string" where
  "split_base s =
     (if s \<noteq> [] \<and> hd s = CHR ''0'' then
        (if length s \<ge> 3 \<and> lower (s ! 1) = 98 then (2, drop 2 s)
         else if length s \<ge> 3 \<and> lower (s ! 1) = 111 then (8, drop 2 s)
         else if length s \<ge> 3 \<and> lower (s ! 1) = 120 then (16, drop 2 s)
         else (8, drop 1 s))
      else (10, s))"

text \<open>
  Underscores may only separate digits, and a base prefix counts as a digit. The state is what was
  seen last: nothing, a digit, an underscore, another character.
\<close>

datatype seen = SeenStart | SeenDigit | SeenUnderscore | SeenOther

fun underscore_loop :: "bool \<Rightarrow> seen \<Rightarrow> string \<Rightarrow> bool" where
  "underscore_loop hex saw [] = (saw \<noteq> SeenUnderscore)"
| "underscore_loop hex saw (c # cs) =
     (if is_digit c \<or> (hex \<and> 97 \<le> lower c \<and> lower c \<le> 102) then underscore_loop hex SeenDigit cs
      else if c = CHR ''_'' then saw = SeenDigit \<and> underscore_loop hex SeenUnderscore cs
      else saw \<noteq> SeenUnderscore \<and> underscore_loop hex SeenOther cs)"

definition underscoreOK :: "string \<Rightarrow> bool" where
  "underscoreOK s =
     (if length s \<ge> 2 \<and> hd s = CHR ''0'' \<and> lower (s ! 1) \<in> {98, 111, 120}
      then underscore_loop (lower (s ! 1) = 120) SeenDigit (drop 2 s)
      else underscore_loop False SeenStart s)"

definition ParseUint0 :: "string \<Rightarrow> nat \<Rightarrow> nat \<times> error option" where
  "ParseUint0 s bits =
     (if s = [] then (0, Some (Errorf ''invalid syntax''))
      else case split_base s of (base, digits) \<Rightarrow>
        (case parse_base_loop base (2 ^ bits - 1) 0 digits of
           (n, None) \<Rightarrow>
             if CHR ''_'' \<in> set digits \<and> \<not> underscoreOK s then (0, Some (Errorf ''invalid syntax'')) else (n, None)
         | (n, Some err) \<Rightarrow> (n, Some err)))"

text \<open>\<open>strconv.ParseInt(s, 0, 64)\<close>: the number, or an error.\<close>

definition ParseInt0 :: "string \<Rightarrow> error + int" where
  "ParseInt0 s =
     (if s = [] then Inl (Errorf ''invalid syntax'')
      else
        (let neg = (hd s = CHR ''-'');
             t = (if hd s = CHR ''-'' \<or> hd s = CHR ''+'' then tl s else s) in
         case ParseUint0 t 64 of
           (_, Some err) \<Rightarrow> Inl err
         | (n, None) \<Rightarrow>
             if \<not> neg \<and> n \<ge> 2 ^ 63 \<or> neg \<and> n > 2 ^ 63 then Inl (Errorf ''value out of range'')
             else Inr (if neg then - int n else int n)))"

subsection \<open>Flags\<close>

datatype flag_value = StringVal string | Int64Val int | DurationVal int

type_synonym flag_set = "string \<rightharpoonup> flag_value"

datatype flag_outcome = FlagError string | FlagHelp | Parsed flag_set "string list"

definition set_flag :: "(string \<Rightarrow> error + int) \<Rightarrow> string \<Rightarrow> flag_value \<Rightarrow> error + flag_value" where
  "set_flag ParseDuration s old =
     (case old of
        StringVal _ \<Rightarrow> Inr (StringVal s)
      | Int64Val _ \<Rightarrow> map_sum id Int64Val (ParseInt0 s)
      | DurationVal _ \<Rightarrow> map_sum id DurationVal (ParseDuration s))"

text \<open>The name and the value of an argument such as \<open>wal=path\<close>; an equals sign cannot be first.\<close>

definition split_flag :: "string \<Rightarrow> string \<times> string option" where
  "split_flag name =
     (let rest = dropWhile (\<lambda>c. c \<noteq> CHR ''='') (tl name) in
      if rest = [] then (name, None)
      else (hd name # takeWhile (\<lambda>c. c \<noteq> CHR ''='') (tl name), Some (tl rest)))"

definition bad_name :: "string \<Rightarrow> bool" where
  "bad_name name \<longleftrightarrow> name = [] \<or> hd name = CHR ''-'' \<or> hd name = CHR ''=''"

text \<open>\<open>flag.Parse\<close>: the flags of the set as far as they go, then the remaining arguments.\<close>

fun flag_Parse :: "(string \<Rightarrow> error + int) \<Rightarrow> flag_set \<Rightarrow> string list \<Rightarrow> flag_outcome" where
  "flag_Parse dur fs [] = Parsed fs []"
| "flag_Parse dur fs (s # args) =
     (if length s < 2 \<or> hd s \<noteq> CHR ''-'' then Parsed fs (s # args)
      else if s = ''--'' then Parsed fs args
      else
        (let name0 = (if s ! 1 = CHR ''-'' then drop 2 s else drop 1 s) in
         if bad_name name0 then FlagError (''bad flag syntax: '' @ s)
         else
           (case split_flag name0 of (name, given) \<Rightarrow>
            case fs name of
              None \<Rightarrow> if name = ''help'' \<or> name = ''h'' then FlagHelp
                       else FlagError (''flag provided but not defined: -'' @ name)
            | Some old \<Rightarrow>
                (case given of
                   Some value \<Rightarrow>
                     (case set_flag dur value old of
                        Inl err \<Rightarrow> FlagError (''invalid value for flag -'' @ name)
                      | Inr v \<Rightarrow> flag_Parse dur (fs(name \<mapsto> v)) args)
                 | None \<Rightarrow>
                     (case args of
                        [] \<Rightarrow> FlagError (''flag needs an argument: -'' @ name)
                      | value # args' \<Rightarrow>
                          (case set_flag dur value old of
                             Inl err \<Rightarrow> FlagError (''invalid value for flag -'' @ name)
                           | Inr v \<Rightarrow> flag_Parse dur (fs(name \<mapsto> v)) args'))))))"

subsection \<open>Paths\<close>

text \<open>\<open>filepath.Clean\<close> keeps a stack of path elements.\<close>

definition push_elem :: "bool \<Rightarrow> string list \<Rightarrow> string \<Rightarrow> string list" where
  "push_elem rooted stack e =
     (if e = '''' \<or> e = ''.'' then stack
      else if e = ''..'' then
        (if stack \<noteq> [] \<and> last stack \<noteq> ''..'' then butlast stack
         else if rooted then stack else stack @ [''..''])
      else stack @ [e])"

definition join_elems :: "string list \<Rightarrow> string" where
  "join_elems es = (case es of [] \<Rightarrow> '''' | e # es' \<Rightarrow> e @ concat (map (\<lambda>x. ''/'' @ x) es'))"

definition filepath_Clean :: "string \<Rightarrow> string" where
  "filepath_Clean path =
     (if path = '''' then ''.''
      else
        (let rooted = (hd path = CHR ''/'');
             out = join_elems (foldl (push_elem rooted) [] (split_on CHR ''/'' path)) in
         if rooted then ''/'' @ out else if out = '''' then ''.'' else out))"

definition filepath_Join :: "string \<Rightarrow> string \<Rightarrow> string" where
  "filepath_Join a b =
     (if a = '''' then (if b = '''' then '''' else filepath_Clean b)
      else if b = '''' then filepath_Clean a
      else filepath_Clean (a @ ''/'' @ b))"

subsection \<open>Facts about integers\<close>

lemma any_digit_dec: "is_digit c \<Longrightarrow> any_digit c = Some (digit_val c) \<and> digit_val c < 10 \<and> c \<noteq> CHR ''_''"
  by (auto simp: any_digit_def is_digit_def digit_val_def)

lemma parse_base_loop_dec: "(\<And>c. c \<in> set s \<Longrightarrow> is_digit c) \<Longrightarrow> parse_base_loop 10 mx n s = parse_uint_loop mx n s"
proof (induction s arbitrary: n)
  case (Cons c s)
  have "is_digit c" using Cons.prems by simp
  with any_digit_dec [OF this] Cons show ?case by (simp add: Let_def)
qed simp

lemma underscore_not_in_dec: "CHR ''_'' \<notin> set (dec n)"
  by (auto dest: dec_digits simp: is_digit_def)

lemma ParseUint0_dec:
  assumes "n < 2 ^ bits"
  shows "ParseUint0 (dec n) bits = (n, None)"
proof (cases "n = 0")
  case True
  moreover have "dec 0 = ''0''" using digit_zero [of 0] by simp
  ultimately show ?thesis by (simp add: ParseUint0_def split_base_def)
next
  case False
  then have b: "split_base (dec n) = (10, dec n)" using dec_no_leading_zero [of n] by (simp add: split_base_def)
  have "parse_base_loop 10 (2 ^ bits - 1) 0 (dec n) = (n, None)"
    using ParseUint_dec [OF assms] parse_base_loop_dec [of "dec n" "2 ^ bits - 1" 0] dec_digits
    by (auto simp: ParseUint_def)
  with b show ?thesis by (simp add: ParseUint0_def underscore_not_in_dec)
qed

lemma sign_not_in_dec: "hd (dec n) \<noteq> CHR ''-''" "hd (dec n) \<noteq> CHR ''+''"
  using dec_digits [of "hd (dec n)" n] by (auto simp: is_digit_def)

lemma ParseInt0_fmt:
  assumes "- (2 ^ 63) \<le> i" and "i < 2 ^ 63"
  shows "ParseInt0 (fmt_d i) = Inr i"
proof (cases "i < 0")
  case True
  then have "ParseUint0 (dec (nat (- i))) 64 = (nat (- i), None)" using assms by (intro ParseUint0_dec) simp
  with True assms show ?thesis by (simp add: ParseInt0_def fmt_d_def nat_le_iff)
next
  case False
  then have "ParseUint0 (dec (nat i)) 64 = (nat i, None)" using assms by (intro ParseUint0_dec) simp
  with False assms show ?thesis by (simp add: ParseInt0_def fmt_d_def sign_not_in_dec le_nat_iff)
qed

subsection \<open>Facts about flags\<close>

text \<open>An argument of the form \<open>--name=value\<close> sets its flag.\<close>

definition plain_name :: "string \<Rightarrow> bool" where
  "plain_name name \<longleftrightarrow> \<not> bad_name name \<and> CHR ''='' \<notin> set name"

lemma split_flag_given: "plain_name name \<Longrightarrow> split_flag (name @ CHR ''='' # value) = (name, Some value)"
  by (cases name) (auto simp: plain_name_def bad_name_def split_flag_def Let_def dropWhile_append takeWhile_append
      dropWhile_eq_Nil_conv takeWhile_eq_all_conv)

definition flag_arg :: "string \<Rightarrow> string \<Rightarrow> string" where
  "flag_arg name value = ''--'' @ name @ ''='' @ value"

lemma flag_Parse_given:
  assumes "plain_name name" and "fs name = Some old" and "set_flag dur value old = Inr v"
  shows "flag_Parse dur fs (flag_arg name value # args) = flag_Parse dur (fs(name \<mapsto> v)) args"
proof -
  have "name \<noteq> []" "\<not> bad_name (name @ CHR ''='' # value)"
    using assms(1) by (auto simp: plain_name_def bad_name_def)
  with assms show ?thesis by (simp add: split_flag_given flag_arg_def)
qed

lemma flag_Parse_string:
  "plain_name name \<Longrightarrow> fs name = Some (StringVal old) \<Longrightarrow>
   flag_Parse dur fs (flag_arg name value # args) = flag_Parse dur (fs(name \<mapsto> StringVal value)) args"
  by (erule flag_Parse_given) (auto simp: set_flag_def)

lemma flag_Parse_int:
  "plain_name name \<Longrightarrow> fs name = Some (Int64Val old) \<Longrightarrow> - (2 ^ 63) \<le> i \<Longrightarrow> i < 2 ^ 63 \<Longrightarrow>
   flag_Parse dur fs (flag_arg name (fmt_d i) # args) = flag_Parse dur (fs(name \<mapsto> Int64Val i)) args"
  by (erule flag_Parse_given) (auto simp: set_flag_def ParseInt0_fmt)

lemma flag_Parse_end: "flag_Parse dur fs (''--'' # args) = Parsed fs args"
  by simp

subsection \<open>Facts about paths\<close>

lemma split_on_join: "split_on c (s @ c # t) = split_on c s @ split_on c t"
  by (induction s) (auto split: list.splits)

lemma join_elems_snoc: "join_elems (es @ [e]) = (if es = [] then e else join_elems es @ ''/'' @ e)"
  by (cases es) (simp_all add: join_elems_def)

definition plain_elem :: "string \<Rightarrow> bool" where
  "plain_elem e \<longleftrightarrow> e \<noteq> '''' \<and> e \<noteq> ''.'' \<and> e \<noteq> ''..'' \<and> CHR ''/'' \<notin> set e"

text \<open>The last element of a joined path is the name that was joined.\<close>

definition path_Base :: "string \<Rightarrow> string" where
  "path_Base path = rev (takeWhile (\<lambda>c. c \<noteq> CHR ''/'') (rev path))"

lemma path_Base_slash: "CHR ''/'' \<notin> set e \<Longrightarrow> path_Base (p @ CHR ''/'' # e) = e"
  by (simp add: path_Base_def takeWhile_tail takeWhile_append)

lemma path_Base_only:
  assumes "CHR ''/'' \<notin> set e"
  shows "path_Base e = e"
proof -
  have "takeWhile (\<lambda>c. c \<noteq> CHR ''/'') (rev e) = rev e"
    using assms by (subst takeWhile_eq_all_conv) auto
  then show ?thesis by (metis path_Base_def rev_rev_ident)
qed

lemma path_Base_Join:
  assumes "plain_elem e"
  shows "path_Base (filepath_Join dir e) = e"
proof -
  have e: "CHR ''/'' \<notin> set e" "e \<noteq> ''''" "hd e \<noteq> CHR ''/''" "split_on CHR ''/'' e = [e]" "push_elem r st e = st @ [e]" for r st
    using assms by (cases e; auto simp: plain_elem_def push_elem_def split_on_no_sep)+
  have "path_Base (join_elems (st @ [e])) = e" "path_Base (CHR ''/'' # join_elems (st @ [e])) = e" for st
    using path_Base_slash [OF e(1)] path_Base_slash [OF e(1), of "[]"] path_Base_slash [OF e(1), of "CHR ''/'' # join_elems st"]
    by (simp_all add: join_elems_snoc path_Base_only e(1))
  moreover have "join_elems (st @ [e]) \<noteq> ''''" for st using e(2) by (simp add: join_elems_snoc)
  ultimately show ?thesis
    using e(2-4) join_elems_snoc [of "[]" e]
    by (auto simp: filepath_Join_def filepath_Clean_def Let_def split_on_join e(5) path_Base_only e(1))
qed

lemma filepath_Join_inject: "plain_elem a \<Longrightarrow> plain_elem b \<Longrightarrow> filepath_Join dir a = filepath_Join dir b \<longleftrightarrow> a = b"
  using path_Base_Join by metis

subsection \<open>Kinds of flags\<close>

text \<open>Parsing keeps the kind of every flag, and integers within 64 bits.\<close>

datatype flag_kind = StringKind | Int64Kind | DurationKind

fun kind :: "flag_value \<Rightarrow> flag_kind" where
  "kind (StringVal s) = StringKind"
| "kind (Int64Val i) = Int64Kind"
| "kind (DurationVal d) = DurationKind"

definition well_kinded :: "(string \<rightharpoonup> flag_kind) \<Rightarrow> flag_set \<Rightarrow> bool" where
  "well_kinded K fs \<longleftrightarrow>
     (\<forall>name. map_option kind (fs name) = K name) \<and>
     (\<forall>name i. fs name = Some (Int64Val i) \<longrightarrow> - (2 ^ 63) \<le> i \<and> i < 2 ^ 63)"

lemma ParseInt0_range: "ParseInt0 s = Inr i \<Longrightarrow> - (2 ^ 63) \<le> i \<and> i < 2 ^ 63"
  by (auto simp: ParseInt0_def Let_def split: if_splits prod.splits option.splits)

lemma set_flag_kind:
  "set_flag dur s old = Inr v \<Longrightarrow> kind v = kind old \<and> (\<forall>i. v = Int64Val i \<longrightarrow> - (2 ^ 63) \<le> i \<and> i < 2 ^ 63)"
  by (cases old; cases "ParseInt0 s"; cases "dur s") (auto simp: set_flag_def dest: ParseInt0_range)

lemma well_kinded_update:
  assumes "well_kinded K fs" and "fs name = Some old" and "set_flag dur s old = Inr v"
  shows "well_kinded K (fs(name \<mapsto> v))"
proof -
  have "K name = Some (kind old)" using assms(1,2) unfolding well_kinded_def by (metis option.simps(9))
  with assms(1) set_flag_kind [OF assms(3)] show ?thesis by (auto simp: well_kinded_def)
qed

lemma flag_Parse_well_kinded:
  "flag_Parse dur fs args = Parsed fs' left \<Longrightarrow> well_kinded K fs \<Longrightarrow> well_kinded K fs'"
proof (induction dur fs args rule: flag_Parse.induct)
  case (2 dur fs s args)
  let ?name0 = "if s ! 1 = CHR ''-'' then drop 2 s else drop 1 s"
  obtain name val where n: "split_flag ?name0 = (name, val)" by fastforce
  show ?case
  proof (cases "(length s < 2 \<or> hd s \<noteq> CHR ''-'') \<or> s = ''--''")
    case True
    with "2.prems" show ?thesis by (auto split: if_splits)
  next
    case False
    with "2.prems"(1) n obtain old where old: "fs name = Some old" "\<not> bad_name ?name0"
      by (auto simp: Let_def split: if_splits option.splits)
    show ?thesis
    proof (cases val)
      case (Some x)
      with "2.prems"(1) False n old obtain v where v: "set_flag dur x old = Inr v"
        "flag_Parse dur (fs(name \<mapsto> v)) args = Parsed fs' left"
        by (auto simp: Let_def split: sum.splits)
      have "well_kinded K (fs(name \<mapsto> v))" by (rule well_kinded_update [OF "2.prems"(2) old(1) v(1)])
      with "2.IH"(2) [OF _ _ refl old(2) n [symmetric] old(1) Some v(1) v(2)] False show ?thesis by fast
    next
      case None
      with "2.prems"(1) False n old obtain y args' v where v: "args = y # args'" "set_flag dur y old = Inr v"
        "flag_Parse dur (fs(name \<mapsto> v)) args' = Parsed fs' left"
        by (auto simp: Let_def split: sum.splits list.splits)
      have "well_kinded K (fs(name \<mapsto> v))" by (rule well_kinded_update [OF "2.prems"(2) old(1) v(2)])
      with "2.IH"(1) [OF _ _ refl old(2) n [symmetric] old(1) None v(1) v(2) v(3)] False show ?thesis by fast
    qed
  qed
qed simp

lemma filepath_Clean_nonempty: "filepath_Clean p \<noteq> ''''"
  by (simp add: filepath_Clean_def Let_def)

lemma filepath_Join_nonempty: "b \<noteq> '''' \<Longrightarrow> filepath_Join a b \<noteq> ''''"
  by (simp add: filepath_Join_def filepath_Clean_nonempty)

end
