(* ===== verification/Commands.thy ===== *)
theory Commands
  imports Failover GoFlags
begin

section \<open>The server and backup commands (cmd/snowcast_server, cmd/snowcast_backup)\<close>

text \<open>
  The two programs read their flags, check them, choose the path of the log and run a node. The
  arguments are those after the program's name. The directory of temporary files and the parser of
  durations come as arguments, like everything a node meets at run time. A program that calls
  \<open>log.Fatal\<close> ends without its deferred calls.
\<close>

subsection \<open>Default paths of the logs (internal/replication/coordinator.go)\<close>

definition DefaultWalPath :: "string \<Rightarrow> string \<Rightarrow> string" where
  "DefaultWalPath tmp port = filepath_Join tmp (''snowcast-'' @ port @ ''.wal'')"

definition DefaultBackupWalPath :: "string \<Rightarrow> string \<Rightarrow> string" where
  "DefaultBackupWalPath tmp replPort = filepath_Join tmp (''snowcast-backup-'' @ replPort @ ''.wal'')"

subsection \<open>From the command line to a configuration\<close>

datatype command_error = Usage | BadFlags string | Help

definition flag_string :: "flag_set \<Rightarrow> string \<Rightarrow> string" where
  "flag_string fs name = (case fs name of Some (StringVal s) \<Rightarrow> s | _ \<Rightarrow> '''')"

definition flag_int :: "flag_set \<Rightarrow> string \<Rightarrow> int" where
  "flag_int fs name = (case fs name of Some (Int64Val i) \<Rightarrow> i | Some (DurationVal i) \<Rightarrow> i | _ \<Rightarrow> 0)"

text \<open>A second is 1000000000 nanoseconds.\<close>

definition server_flags :: flag_set where
  "server_flags =
     [''etcd-endpoints'' \<mapsto> StringVal '''', ''etcd-key'' \<mapsto> StringVal '''', ''lease-ttl'' \<mapsto> Int64Val 5,
      ''backup-addr'' \<mapsto> StringVal '''', ''repl-port'' \<mapsto> StringVal '''', ''wal'' \<mapsto> StringVal '''']"

definition server_config :: "string \<Rightarrow> (string \<Rightarrow> error + int) \<Rightarrow> string list \<Rightarrow> command_error + Config" where
  "server_config tmp dur argv =
     (case flag_Parse dur server_flags argv of
        FlagHelp \<Rightarrow> Inl Help
      | FlagError msg \<Rightarrow> Inl (BadFlags msg)
      | Parsed fs args \<Rightarrow>
          if flag_string fs ''etcd-endpoints'' = '''' \<or> flag_string fs ''backup-addr'' = '''' \<or> flag_string fs ''repl-port'' = ''''
          then Inl Usage
          else if length args < 2 then Inl Usage
          else
            (let port = args ! 0;
                 files = drop 1 args;
                 walPath = (if flag_string fs ''wal'' = '''' then DefaultWalPath tmp port else flag_string fs ''wal'') in
             Inr \<lparr>EtcdEndpoints = flag_string fs ''etcd-endpoints'', EtcdKey = flag_string fs ''etcd-key'',
                  LeaseTTL = flag_int fs ''lease-ttl'', LeasePoll = 1000000000, ClientPort = port,
                  ReplPort = flag_string fs ''repl-port'', BackupAddr = flag_string fs ''backup-addr'',
                  WalPath = walPath, Files = files\<rparr>))"

definition backup_flags :: flag_set where
  "backup_flags =
     [''etcd-endpoints'' \<mapsto> StringVal '''', ''etcd-key'' \<mapsto> StringVal '''', ''lease-ttl'' \<mapsto> Int64Val 5,
      ''lease-poll'' \<mapsto> DurationVal 1000000000, ''repl-port'' \<mapsto> StringVal '''',
      ''client-port'' \<mapsto> StringVal ''16800'', ''backup-addr'' \<mapsto> StringVal '''', ''wal'' \<mapsto> StringVal '''']"

definition backup_config :: "string \<Rightarrow> (string \<Rightarrow> error + int) \<Rightarrow> string list \<Rightarrow> command_error + Config" where
  "backup_config tmp dur argv =
     (case flag_Parse dur backup_flags argv of
        FlagHelp \<Rightarrow> Inl Help
      | FlagError msg \<Rightarrow> Inl (BadFlags msg)
      | Parsed fs args \<Rightarrow>
          if flag_string fs ''etcd-endpoints'' = '''' \<or> flag_string fs ''repl-port'' = '''' then Inl Usage
          else if length args < 1 then Inl Usage
          else
            (let walPath = (if flag_string fs ''wal'' = '''' then DefaultBackupWalPath tmp (flag_string fs ''repl-port'')
                            else flag_string fs ''wal'') in
             Inr \<lparr>EtcdEndpoints = flag_string fs ''etcd-endpoints'', EtcdKey = flag_string fs ''etcd-key'',
                  LeaseTTL = flag_int fs ''lease-ttl'', LeasePoll = flag_int fs ''lease-poll'',
                  ClientPort = flag_string fs ''client-port'', ReplPort = flag_string fs ''repl-port'',
                  BackupAddr = flag_string fs ''backup-addr'', WalPath = walPath, Files = args\<rparr>))"

subsection \<open>The programs\<close>

text \<open>
  How a program ends: it refuses its command line, it dies with a message, it returns after closing
  its node, or it goes on as a running node.
\<close>

datatype command_end = Refused command_error | Dies string error | Closed | Runs

record machine =
  tmpdir :: string
  parse_duration :: "string \<Rightarrow> error + int"
  disk :: "string \<rightharpoonup> byte list"
  disk_fates :: "io_fate stream"
  etcd_dial :: "error option"
  other_node :: backup

definition server_main ::
  "codec \<Rightarrow> 'e etcd \<Rightarrow> machine \<Rightarrow> takeover \<Rightarrow> string list \<Rightarrow> 'e \<Rightarrow> (command_end \<times> node option \<times> 'e) may_panic" where
  "server_main C E mc env argv e =
     (case server_config (tmpdir mc) (parse_duration mc) argv of
        Inl err \<Rightarrow> Some (Refused err, None, e)
      | Inr c \<Rightarrow>
          (case New C c (disk mc) (disk_fates mc) (etcd_dial mc) (other_node mc) of
             Inl err \<Rightarrow> Some (Dies ''Failed to init node'' err, None, e)
           | Inr n \<Rightarrow> do {
               (r, n', e') \<leftarrow> RunAsLeader C E env e n;
               Some (case r of
                       Returns (Some err) \<Rightarrow> (Dies ''Failed to run as leader'' err, Some n', e')
                     | Returns None \<Rightarrow> (Closed, Some (Close_node n'), e')
                     | _ \<Rightarrow> (Runs, Some n', e'))
             }))"

text \<open>The backup goes on with the rounds of its loop, \<open>poll_round\<close>.\<close>

definition backup_main ::
  "codec \<Rightarrow> machine \<Rightarrow> error option list \<Rightarrow> string list \<Rightarrow> command_end \<times> node option" where
  "backup_main C mc listens argv =
     (case backup_config (tmpdir mc) (parse_duration mc) argv of
        Inl err \<Rightarrow> (Refused err, None)
      | Inr c \<Rightarrow>
          (case New C c (disk mc) (disk_fates mc) (etcd_dial mc) (other_node mc) of
             Inl err \<Rightarrow> (Dies ''Failed to init node'' err, None)
           | Inr n \<Rightarrow>
               (case RunAsStandby listens n of
                  (Some err, n') \<Rightarrow> (Dies ''Failed to run standby'' err, Some n')
                | (None, n') \<Rightarrow> (Runs, Some n'))))"

end
