(* ===== verification/Stats.thy ===== *)
theory Stats
  imports GoLib
begin

section \<open>Percentiles of the measured latencies (cmd/snowcast_bench/util.go)\<close>

text \<open>
  The index of a percentile is computed in \<open>float64\<close> and cut to an integer. Here the product is the
  exact one of the machine: the constants are the doubles nearest to 0.5, 0.95 and 0.99, and the
  product is rounded to 53 significant bits, ties to even. The samples are never NaN, so their
  order is linear and they can be any linearly ordered type.
\<close>

subsection \<open>Products of doubles\<close>

text \<open>How many bits a natural number has beyond the 53 of a double.\<close>

fun excess :: "nat \<Rightarrow> nat" where
  "excess n = (if n < 2 ^ 53 then 0 else Suc (excess (n div 2)))"

declare excess.simps [simp del]

lemmas excess_numeral = excess.simps [of "numeral v" for v]

definition round53 :: "nat \<Rightarrow> nat" where
  "round53 n =
     (let s = excess n; q = n div 2 ^ s; r = n mod 2 ^ s in
      (if 2 * r < 2 ^ s \<or> 2 * r = 2 ^ s \<and> even q then q else Suc q) * 2 ^ s)"

text \<open>A double between 0 and 1 is its numerator over \<open>2 ^ 52\<close>.\<close>

definition mul_int :: "nat \<Rightarrow> nat \<Rightarrow> nat" where
  "mul_int k m = round53 (round53 k * m) div 2 ^ 52"

definition double_050 :: nat where "double_050 = 2251799813685248"
definition double_095 :: nat where "double_095 = 4278419646001971"
definition double_099 :: nat where "double_099 = 4458563631096791"

subsection \<open>The summary\<close>

text \<open>An index out of range is a panic.\<close>

definition percentile :: "'a :: {linorder, zero} list \<Rightarrow> nat \<Rightarrow> 'a may_panic" where
  "percentile xs p =
     (if xs = [] then Some 0
      else (let idx = mul_int (length xs - 1) p in if idx < length xs then Some (xs ! idx) else None))"

definition summarizeLatencies :: "'a :: {linorder, zero} list \<Rightarrow> (string \<rightharpoonup> 'a) may_panic" where
  "summarizeLatencies samples =
     (let out = [''p50'' \<mapsto> 0, ''p95'' \<mapsto> 0, ''p99'' \<mapsto> 0, ''max'' \<mapsto> 0] in
      if samples = [] then Some out
      else do {
        let cp = sort samples;
        p50 \<leftarrow> percentile cp double_050;
        p95 \<leftarrow> percentile cp double_095;
        p99 \<leftarrow> percentile cp double_099;
        Some (out(''p50'' \<mapsto> p50, ''p95'' \<mapsto> p95, ''p99'' \<mapsto> p99, ''max'' \<mapsto> cp ! (length cp - 1)))
      })"

subsection \<open>Rounding\<close>

lemma excess_upper: "n < 2 ^ (53 + excess n)"
proof (induction n rule: excess.induct)
  case (1 n)
  show ?case
  proof (cases "n < 2 ^ 53")
    case False
    with 1 have "n div 2 < 2 ^ (53 + excess (n div 2))" by simp
    then have "n < 2 * 2 ^ (53 + excess (n div 2))" by linarith
    with False show ?thesis by (simp add: excess.simps [of n] flip: power_Suc)
  qed (simp add: excess.simps)
qed

lemma excess_lower: "0 < excess n \<Longrightarrow> 2 ^ (52 + excess n) \<le> n"
proof (induction n rule: excess.induct)
  case (1 n)
  then have n: "2 ^ 53 \<le> n" by (simp add: excess.simps [of n] split: if_splits)
  show ?case
  proof (cases "excess (n div 2)")
    case 0
    with n show ?thesis by (simp add: excess.simps [of n])
  next
    case (Suc s)
    with 1 n have "2 ^ (52 + excess (n div 2)) \<le> n div 2" by simp
    then have "2 * 2 ^ (52 + excess (n div 2)) \<le> n" by linarith
    with n show ?thesis by (simp add: excess.simps [of n] flip: power_Suc)
  qed
qed

lemma round53_le: "round53 n \<le> n + n div 2 ^ 53"
proof -
  let ?s = "excess n"
  have n: "n = n div 2 ^ ?s * 2 ^ ?s + n mod 2 ^ ?s" by (rule div_mult_mod_eq [symmetric])
  show ?thesis
  proof (cases "2 * (n mod 2 ^ ?s) < 2 ^ ?s \<or> 2 * (n mod 2 ^ ?s) = 2 ^ ?s \<and> even (n div 2 ^ ?s)")
    case True
    then have "round53 n = n div 2 ^ ?s * 2 ^ ?s" by (auto simp: round53_def Let_def)
    with n show ?thesis by linarith
  next
    case False
    then have r: "round53 n = n div 2 ^ ?s * 2 ^ ?s + 2 ^ ?s" "2 ^ ?s \<le> 2 * (n mod 2 ^ ?s)"
      by (auto simp: round53_def Let_def)
    then have "0 < ?s" by (cases ?s) auto
    then obtain t where t: "?s = Suc t" by (cases ?s) auto
    have "2 ^ 53 * 2 ^ t \<le> n" using excess_lower [of n] t by (simp add: power_add)
    then have "2 ^ t \<le> n div 2 ^ 53" by (simp add: less_eq_div_iff_mult_less_eq mult.commute)
    moreover have "2 ^ ?s \<le> n mod 2 ^ ?s + 2 ^ t" using r(2) t by simp
    ultimately show ?thesis using n r(1) by linarith
  qed
qed

lemma round53_ge:
  assumes "2 ^ excess n dvd M" and "M \<le> n \<or> 2 * (M - n) < 2 ^ excess n"
  shows "M \<le> round53 n"
proof -
  let ?s = "excess n"
  from assms(1) obtain c where c: "M = c * 2 ^ ?s" by (metis dvd_def mult.commute)
  have n: "n = n div 2 ^ ?s * 2 ^ ?s + n mod 2 ^ ?s" by (rule div_mult_mod_eq [symmetric])
  show ?thesis
  proof (cases "M \<le> n")
    case True
    then have "c \<le> n div 2 ^ ?s" by (simp add: c less_eq_div_iff_mult_less_eq)
    then have "M \<le> n div 2 ^ ?s * 2 ^ ?s" by (simp add: c)
    then show ?thesis by (auto simp: round53_def Let_def)
  next
    case False
    with assms(2) have d: "2 * M < 2 * n + 2 ^ ?s" by linarith
    have "\<not> c \<le> n div 2 ^ ?s"
    proof
      assume "c \<le> n div 2 ^ ?s"
      then have "M \<le> n div 2 ^ ?s * 2 ^ ?s" by (simp add: c)
      with n False show False by linarith
    qed
    then have "(n div 2 ^ ?s + 1) * 2 ^ ?s \<le> M" unfolding c by (intro mult_right_mono) auto
    then have "n div 2 ^ ?s * 2 ^ ?s + 2 ^ ?s \<le> M" by simp
    with d n have r: "2 ^ ?s < 2 * (n mod 2 ^ ?s)" by linarith
    have "n mod 2 ^ ?s < 2 ^ ?s" by simp
    with d n have "M < n div 2 ^ ?s * 2 ^ ?s + 2 * 2 ^ ?s" by linarith
    then have "c * 2 ^ ?s < (n div 2 ^ ?s + 2) * 2 ^ ?s" by (simp add: c algebra_simps)
    then have "c < n div 2 ^ ?s + 2" by (rule mult_right_less_imp_less) simp
    then have "c \<le> Suc (n div 2 ^ ?s)" by simp
    then have "M \<le> Suc (n div 2 ^ ?s) * 2 ^ ?s" unfolding c by (intro mult_right_mono) auto
    with r show ?thesis by (simp add: round53_def Let_def)
  qed
qed

lemma round53_small [simp]: "n < 2 ^ 53 \<Longrightarrow> round53 n = n"
  by (simp add: round53_def excess.simps)

lemma excess_mono: "n < 2 ^ (53 + j) \<Longrightarrow> excess n \<le> j"
proof (rule ccontr)
  assume "n < 2 ^ (53 + j)" and "\<not> excess n \<le> j"
  then have "2 ^ (52 + excess n) \<le> n" "53 + j \<le> 52 + excess n" by (simp_all add: excess_lower)
  moreover have "(2 :: nat) ^ (53 + j) \<le> 2 ^ (52 + excess n)" using calculation(2) by (intro power_increasing) auto
  ultimately show False using \<open>n < 2 ^ (53 + j)\<close> by linarith
qed

text \<open>
  The double nearest to \<open>a\<close> hundredths is so close below it that the rounded product, cut to an
  integer, is exactly \<open>a\<close> hundredths of the number, cut to an integer.
\<close>

lemma mul_int_percent:
  assumes "k < 2 ^ 44" and "m < 2 ^ 52" and "m * 100 + d = a * 2 ^ 52" and "d * 2 ^ 54 \<le> m * 100" and "d \<le> 256"
  shows "mul_int k m = a * k div 100"
proof -
  define N where "N = a * k div 100"
  define P where "P = k * m"
  have ak: "a * k = 100 * N + a * k mod 100" by (simp add: N_def)
  have P100: "100 * P + k * d = a * k * 2 ^ 52" using arg_cong [OF assms(3), of "\<lambda>x. k * x"] by (simp add: P_def algebra_simps)
  have small: "P < 2 ^ (53 + 44)"
    using mult_strict_mono [OF assms(1,2)] by (simp add: P_def)
  then have s: "excess P \<le> 44" by (rule excess_mono)
  then have dv: "2 ^ excess P dvd N * (2 :: nat) ^ 52" by (intro dvd_mult le_imp_power_dvd) simp
  have kd: "k * d \<le> 2 ^ 52" using mult_mono [of k "2 ^ 44" d 256] assms(1,5) by simp
  have lower: "N * 2 ^ 52 \<le> round53 P"
  proof (rule round53_ge [OF dv])
    show "N * 2 ^ 52 \<le> P \<or> 2 * (N * 2 ^ 52 - P) < 2 ^ excess P"
    proof (cases "a * k mod 100 = 0")
      case True
      then have "100 * (N * 2 ^ 52 - P) = k * d" using P100 ak by (simp add: algebra_simps)
      moreover have "k * (d * 2 ^ 54) \<le> 100 * P" using mult_le_mono2 [OF assms(4), of k] by (simp add: P_def algebra_simps)
      moreover have "P < 2 ^ 53 * 2 ^ excess P" using excess_upper [of P] by (simp add: power_add)
      ultimately have "100 * (N * 2 ^ 52 - P) * 2 ^ 54 < 100 * (2 ^ 53 * 2 ^ excess P)" by (simp add: algebra_simps)
      then show ?thesis by simp
    next
      case False
      then have "100 * (N * 2 ^ 52) + 2 ^ 52 \<le> a * k * 2 ^ 52" using ak by simp
      with P100 kd show ?thesis by linarith
    qed
  qed
  have "a * k + 1 \<le> 100 * (N + 1)" using ak mod_less_divisor [of 100 "a * k"] by (simp only: distrib_left)
  then have "(a * k + 1) * 2 ^ 52 \<le> 100 * (N + 1) * 2 ^ 52" by (rule mult_le_mono1)
  then have "100 * P + 2 ^ 52 \<le> 100 * ((N + 1) * 2 ^ 52)" using P100 by (simp add: algebra_simps)
  moreover have "P div 2 ^ 53 < 2 ^ 44" using small by (simp add: less_mult_imp_div_less)
  ultimately have "P + P div 2 ^ 53 < (N + 1) * 2 ^ 52" by simp
  with round53_le [of P] have "round53 P < (N + 1) * 2 ^ 52" by linarith
  with lower have "round53 P div 2 ^ 52 = N" by (intro div_nat_eqI) (simp_all add: algebra_simps)
  with assms(1) show ?thesis by (simp add: mul_int_def N_def P_def)
qed

lemma mul_int_doubles:
  assumes "k < 2 ^ 44"
  shows "mul_int k double_050 = 50 * k div 100" "mul_int k double_095 = 95 * k div 100" "mul_int k double_099 = 99 * k div 100"
proof -
  show "mul_int k double_050 = 50 * k div 100"
    by (rule mul_int_percent [OF assms, where d = 0]) (simp_all add: double_050_def)
  show "mul_int k double_095 = 95 * k div 100"
    by (rule mul_int_percent [OF assms, where d = 20]) (simp_all add: double_095_def)
  show "mul_int k double_099 = 99 * k div 100"
    by (rule mul_int_percent [OF assms, where d = 4]) (simp_all add: double_099_def)
qed

lemma last_sort:
  assumes "xs \<noteq> []"
  shows "sort xs ! (length xs - 1) = Max (set xs)"
proof (rule Max_eqI [symmetric])
  have len: "length xs - 1 < length (sort xs)" using assms by simp
  then show "sort xs ! (length xs - 1) \<in> set xs" using nth_mem [OF len] by (simp only: set_sort)
  fix y
  assume "y \<in> set xs"
  then obtain i where i: "i < length (sort xs)" "sort xs ! i = y" by (metis in_set_conv_nth set_sort)
  then show "y \<le> sort xs ! (length xs - 1)"
    using sorted_nth_mono [OF sorted_sort, of i "length xs - 1" xs] len by simp
qed simp

lemma summary_ranks:
  assumes "length xs \<le> 2 ^ 44"
  shows "summarizeLatencies xs = Some
    (if xs = [] then [''p50'' \<mapsto> 0, ''p95'' \<mapsto> 0, ''p99'' \<mapsto> 0, ''max'' \<mapsto> 0]
     else [''p50'' \<mapsto> sort xs ! ((length xs - 1) div 2), ''p95'' \<mapsto> sort xs ! (95 * (length xs - 1) div 100),
           ''p99'' \<mapsto> sort xs ! (99 * (length xs - 1) div 100), ''max'' \<mapsto> Max (set xs)])"
proof (cases "xs = []")
  case False
  then have "length xs - 1 < 2 ^ 44" using assms by (cases xs) auto
  note mul_int_doubles [OF this]
  moreover have "50 * (length xs - 1) div 100 = (length xs - 1) div 2" by simp
  moreover have "(length xs - 1) div 2 < length xs" "95 * (length xs - 1) div 100 < length xs"
    "99 * (length xs - 1) div 100 < length xs" using False by (cases xs; simp; linarith)+
  moreover have "sort xs \<noteq> []" using False by (metis length_0_conv length_sort)
  ultimately show ?thesis using False last_sort [OF False] by (simp add: summarizeLatencies_def percentile_def Let_def)
qed (simp add: summarizeLatencies_def)

text \<open>
  C28: The summary of a load never panics, and in spite of the floating-point index it is exactly the
  order statistics of its samples: the ranks at 50, 95 and 99 hundredths of the last index, rounded
  down, and the greatest sample; without samples it is zero.
\<close>

theorem summary_is_order_statistics:
  assumes "length xs \<le> 2 ^ 44"
  shows "summarizeLatencies xs = Some
    (if xs = [] then [''p50'' \<mapsto> 0, ''p95'' \<mapsto> 0, ''p99'' \<mapsto> 0, ''max'' \<mapsto> 0]
     else [''p50'' \<mapsto> sort xs ! ((length xs - 1) div 2), ''p95'' \<mapsto> sort xs ! (95 * (length xs - 1) div 100),
           ''p99'' \<mapsto> sort xs ! (99 * (length xs - 1) div 100), ''max'' \<mapsto> Max (set xs)])"
  using assms by (rule summary_ranks)

theorem summary_is_order_statistics_witness:
  "summarizeLatencies [7, 3, 9, 1, 5 :: int] = Some [''p50'' \<mapsto> 5, ''p95'' \<mapsto> 7, ''p99'' \<mapsto> 7, ''max'' \<mapsto> 9]"
  by (subst summary_is_order_statistics) simp_all

end
