(* ===== verification/Bench_Log.thy ===== *)
theory Bench_Log
  imports Stats
begin

section \<open>Markers in the log (internal/bench, cmd/snowcast_bench/util.go)\<close>

text \<open>
  The servers log markers of their phases, and the benchmarks read them and the time stamps back
  from the log. A log is its text; \<open>None\<close> is a file that cannot be opened. The regular expressions
  are written out: on text that starts with the literal of the expression a run of characters of a
  class followed by something outside the class can only match as a whole.
\<close>

subsection \<open>What the servers write\<close>

definition newline :: char where "newline = CHR 0x0A"

text \<open>\<open>bench.Mark\<close>: the message logged, when the markers are enabled; \<open>env\<close> is \<open>SNOWCAST_BENCH\<close>.\<close>

definition enabled :: "string \<Rightarrow> bool" where
  "enabled env \<longleftrightarrow> env = ''1''"

definition Mark :: "string \<Rightarrow> string \<Rightarrow> int \<Rightarrow> string option" where
  "Mark env phase ms = (if \<not> enabled env then None else Some (''BENCH phase='' @ phase @ '' ms='' @ fmt_d ms))"

definition MarkInstant :: "string \<Rightarrow> string \<Rightarrow> string option" where
  "MarkInstant env phase = (if \<not> enabled env then None else Some (''BENCH phase='' @ phase @ '' ms=0''))"

text \<open>The line of \<open>log.Printf\<close>: the standard logger puts the local date and time in front.\<close>

record civil =
  year :: nat
  month :: nat
  day :: nat
  hour :: nat
  minute :: nat
  second :: nat

definition pad :: "nat \<Rightarrow> nat \<Rightarrow> string" where
  "pad w n = replicate (w - length (dec n)) CHR ''0'' @ dec n"

definition stamp :: "civil \<Rightarrow> string" where
  "stamp t =
     pad 4 (year t) @ ''/'' @ pad 2 (month t) @ ''/'' @ pad 2 (day t) @ '' '' @
     pad 2 (hour t) @ '':'' @ pad 2 (minute t) @ '':'' @ pad 2 (second t)"

definition log_line :: "civil \<Rightarrow> string \<Rightarrow> string" where
  "log_line t msg = stamp t @ '' '' @ msg @ [newline]"

subsection \<open>Reading lines\<close>

text \<open>\<open>bufio.Scanner\<close> with its default buffer: a line of 65536 bytes or more ends it with an error.\<close>

definition dropCR :: "string \<Rightarrow> string" where
  "dropCR l = (if l \<noteq> [] \<and> last l = CHR 0x0D then butlast l else l)"

fun scan_pieces :: "string list \<Rightarrow> string list \<times> error option" where
  "scan_pieces [] = ([], None)"
| "scan_pieces (l # ls) =
     (if length l \<ge> 65536 then ([], Some (Errorf ''bufio.Scanner: token too long''))
      else (case scan_pieces ls of (ts, err) \<Rightarrow> (dropCR l # ts, err)))"

definition Scan :: "string \<Rightarrow> string list \<times> error option" where
  "Scan txt = (let ps = split_on newline txt in scan_pieces (if last ps = [] then butlast ps else ps))"

text \<open>\<open>strings.Index\<close> and \<open>strings.Contains\<close>.\<close>

fun Index :: "string \<Rightarrow> string \<Rightarrow> nat option" where
  "Index [] pat = (if pat = [] then Some 0 else None)"
| "Index (c # s) pat = (if prefix pat (c # s) then Some 0 else map_option Suc (Index s pat))"

definition Contains :: "string \<Rightarrow> string \<Rightarrow> bool" where
  "Contains s pat \<longleftrightarrow> Index s pat \<noteq> None"

text \<open>The class \<open>\s\<close> of a regular expression.\<close>

definition re_space :: "char \<Rightarrow> bool" where
  "re_space c \<longleftrightarrow> of_char c \<in> {9 :: nat, 10, 12, 13, 32}"

subsection \<open>Phases\<close>

text \<open>\<open>strconv.ParseFloat\<close> on digits: the nearest double, infinite beyond the range.\<close>

datatype f64 = Finite nat | PosInf

definition ParseFloat :: "string \<Rightarrow> f64" where
  "ParseFloat ds = (let r = round53 (undec ds) in if r < 2 ^ 1024 then Finite r else PosInf)"

definition benchPhaseRE_at :: "string \<Rightarrow> (string \<times> string) option" where
  "benchPhaseRE_at s =
     (let t = drop 12 s;
          name = takeWhile (\<lambda>c. \<not> re_space c) t;
          u = dropWhile (\<lambda>c. \<not> re_space c) t;
          v = dropWhile re_space u;
          ds = takeWhile is_digit (drop 3 v) in
      if prefix ''BENCH phase='' s \<and> name \<noteq> [] \<and> u \<noteq> v \<and> prefix ''ms='' v \<and> ds \<noteq> [] then Some (name, ds) else None)"

fun benchPhaseRE :: "string \<Rightarrow> (string \<times> string) option" where
  "benchPhaseRE [] = None"
| "benchPhaseRE (c # s) = (case benchPhaseRE_at (c # s) of Some m \<Rightarrow> Some m | None \<Rightarrow> benchPhaseRE s)"

definition phase_step :: "(string \<rightharpoonup> f64) \<Rightarrow> string \<Rightarrow> (string \<rightharpoonup> f64)" where
  "phase_step phases line =
     (case Index line ''BENCH phase='' of
        None \<Rightarrow> phases
      | Some idx \<Rightarrow>
          (case benchPhaseRE (drop idx line) of
             None \<Rightarrow> phases
           | Some (name, ds) \<Rightarrow> phases(name \<mapsto> ParseFloat ds)))"

definition parseBenchPhases :: "string option \<Rightarrow> (string \<rightharpoonup> f64) \<times> error option" where
  "parseBenchPhases file =
     (case file of
        None \<Rightarrow> (Map.empty, Some (SysErr ''open''))
      | Some txt \<Rightarrow> (case Scan txt of (ls, err) \<Rightarrow> (foldl phase_step Map.empty ls, err)))"

subsection \<open>Time stamps\<close>

text \<open>
  A time is the microseconds since the zero time of Go, the first day of the year 1. The local time
  zone turns the seconds of a civil time into those of the time; it is an argument.
\<close>

fun shape :: "string \<Rightarrow> string \<Rightarrow> bool" where
  "shape [] [] \<longleftrightarrow> True"
| "shape (p # ps) (c # cs) \<longleftrightarrow> (if p = CHR ''d'' then is_digit c else c = p) \<and> shape ps cs"
| "shape _ _ \<longleftrightarrow> False"

definition isLeap :: "nat \<Rightarrow> bool" where
  "isLeap y \<longleftrightarrow> y mod 4 = 0 \<and> (y mod 100 \<noteq> 0 \<or> y mod 400 = 0)"

definition daysIn :: "nat \<Rightarrow> nat \<Rightarrow> nat" where
  "daysIn m y = (if m = 2 \<and> isLeap y then 29 else [31, 28, 31, 30, 31, 30, 31, 31, 30, 31, 30, 31] ! (m - 1))"

definition valid_civil :: "civil \<Rightarrow> bool" where
  "valid_civil t \<longleftrightarrow>
     1 \<le> month t \<and> month t \<le> 12 \<and> 1 \<le> day t \<and> day t \<le> daysIn (month t) (year t) \<and>
     hour t < 24 \<and> minute t < 60 \<and> second t < 60"

definition civil_seconds :: "civil \<Rightarrow> int" where
  "civil_seconds t =
     (let y = int (year t) - 1;
          days = 365 * y + y div 4 - y div 100 + y div 400 +
                 int (sum_list (map (\<lambda>m. daysIn m (year t)) [1..<month t])) + int (day t) - 1 in
      86400 * days + 3600 * int (hour t) + 60 * int (minute t) + int (second t))"

definition read_civil :: "string \<Rightarrow> civil" where
  "read_civil s =
     \<lparr>year = undec (take 4 s), month = undec (take 2 (drop 5 s)), day = undec (take 2 (drop 8 s)),
      hour = undec (take 2 (drop 11 s)), minute = undec (take 2 (drop 14 s)), second = undec (take 2 (drop 17 s))\<rparr>"

definition time_of :: "(int \<Rightarrow> int) \<Rightarrow> civil \<Rightarrow> int" where
  "time_of local t = 1000000 * local (civil_seconds t)"

text \<open>
  The fraction of a second is optional in the expression; the layout chosen with it has exactly six
  digits.
\<close>

definition parseLogTime :: "(int \<Rightarrow> int) \<Rightarrow> string \<Rightarrow> (int \<times> string) option" where
  "parseLogTime local line =
     (let r = drop 19 line;
          frac = (if r \<noteq> [] \<and> hd r = CHR ''.'' then takeWhile is_digit (tl r) else []);
          u = (if frac = [] then r else drop (Suc (length frac)) r);
          t = read_civil line in
      if \<not> shape ''dddd/dd/dd dd:dd:dd'' (take 19 line) \<or> u = [] \<or> \<not> re_space (hd u) then None
      else if \<not> valid_civil t \<or> frac \<noteq> [] \<and> length frac \<noteq> 6 then None
      else Some (time_of local t + int (undec frac), dropWhile re_space u))"

text \<open>\<open>IsZero\<close> of a time is that it is 0.\<close>

fun recover_scan :: "(int \<Rightarrow> int) \<Rightarrow> string list \<Rightarrow> int \<times> int \<Rightarrow> int \<times> int" where
  "recover_scan local [] ts = ts"
| "recover_scan local (line # ls) (firstTS, readyTS) =
     (case parseLogTime local line of
        None \<Rightarrow> recover_scan local ls (firstTS, readyTS)
      | Some (ts, msg) \<Rightarrow>
          recover_scan local ls
            (if Contains msg ''Snowcast server started'' \<and> firstTS = 0 then ts else firstTS,
             if Contains msg ''Backup ready at'' then ts else readyTS))"

text \<open>The result is in microseconds; the code divides by 1000 for milliseconds.\<close>

definition integratedRecoverMS :: "(int \<Rightarrow> int) \<Rightarrow> string option \<Rightarrow> error + int" where
  "integratedRecoverMS local file =
     (case file of
        None \<Rightarrow> Inl (SysErr ''open'')
      | Some txt \<Rightarrow>
          (case Scan txt of (ls, err) \<Rightarrow>
             (case recover_scan local ls (0, 0) of (firstTS, readyTS) \<Rightarrow>
                (case err of
                   Some e \<Rightarrow> Inl e
                 | None \<Rightarrow>
                     if firstTS = 0 \<or> readyTS = 0 then Inl (Errorf ''could not find Backup ready'')
                     else Inr (readyTS - firstTS)))))"

fun event_scan :: "(int \<Rightarrow> int) \<Rightarrow> string \<Rightarrow> string list \<Rightarrow> int option" where
  "event_scan local substr [] = None"
| "event_scan local substr (line # ls) =
     (case parseLogTime local line of
        Some (ts, msg) \<Rightarrow> if Contains msg substr then Some ts else event_scan local substr ls
      | None \<Rightarrow> event_scan local substr ls)"

definition findLogEventTime :: "(int \<Rightarrow> int) \<Rightarrow> string option \<Rightarrow> string \<Rightarrow> int \<times> error option" where
  "findLogEventTime local file substr =
     (case file of
        None \<Rightarrow> (0, Some (SysErr ''open''))
      | Some txt \<Rightarrow>
          (case event_scan local substr (fst (Scan txt)) of
             Some ts \<Rightarrow> (ts, None)
           | None \<Rightarrow> (0, Some (Errorf (''event '' @ substr @ '' not found'')))))"

end
