(* ===== verification/Bench.thy ===== *)
theory Bench
  imports Client Commands Bench_Log
begin

section \<open>The benchmarks (cmd/snowcast_bench)\<close>

text \<open>
  The benchmarks drive the parts of the program: they write and replay a log, and they load a
  running pair with requests through the same stub as the control client. What the clock decides is
  an argument: how often a loop runs, what a request is measured to take, and in which order the
  goroutines of a concurrent load run.
\<close>

subsection \<open>Lists of numbers (util.go)\<close>

text \<open>\<open>strconv.Atoi\<close>: an optional sign and decimal digits that fit in 64 bits.\<close>

definition Atoi :: "string \<Rightarrow> error + int" where
  "Atoi s =
     (if s = [] then Inl (Errorf ''invalid syntax'')
      else
        (let neg = (hd s = CHR ''-'');
             t = (if hd s = CHR ''-'' \<or> hd s = CHR ''+'' then tl s else s) in
         case ParseUint t 64 of
           (_, Some err) \<Rightarrow> Inl err
         | (n, None) \<Rightarrow>
             if \<not> neg \<and> n \<ge> 2 ^ 63 \<or> neg \<and> n > 2 ^ 63 then Inl (Errorf ''value out of range'')
             else Inr (if neg then - int n else int n)))"

fun int_parts :: "string list \<Rightarrow> int list" where
  "int_parts [] = []"
| "int_parts (p # ps) =
     (let t = TrimSpace p in
      if t = '''' then int_parts ps
      else case Atoi t of Inl err \<Rightarrow> int_parts ps | Inr n \<Rightarrow> n # int_parts ps)"

definition parseIntList :: "string \<Rightarrow> int list \<Rightarrow> int list" where
  "parseIntList s def =
     (if s = '''' then def
      else (let out = int_parts (split_on CHR '','' s) in if out = [] then def else out))"

definition parseDuration :: "(string \<Rightarrow> error + int) \<Rightarrow> string \<Rightarrow> int \<Rightarrow> int" where
  "parseDuration dur s def = (if s = '''' then def else case dur s of Inl err \<Rightarrow> def | Inr d \<Rightarrow> d)"

definition tempWalPath :: "string \<Rightarrow> string \<Rightarrow> string" where
  "tempWalPath tmp name = filepath_Join tmp name"

subsection \<open>Replaying a log of handshakes (setup.go)\<close>

definition bench_entry :: "nat \<Rightarrow> WalEntry" where
  "bench_entry i =
     \<lparr>Seq = 0, Op = Some (WalEntry_Handshake \<lparr>hs_ClientIp = ''127.0.0.1'', hs_UdpPort = word_of_int (10000 + int i)\<rparr>)\<rparr>"

fun append_handshakes :: "codec \<Rightarrow> nat list \<Rightarrow> Log \<Rightarrow> error option \<times> Log" where
  "append_handshakes C [] l = (None, l)"
| "append_handshakes C (i # is) l =
     (case Append C (bench_entry i) l of
        (Inl err, _, l') \<Rightarrow> (Some err, l')
      | (Inr _, _, l') \<Rightarrow> append_handshakes C is l')"

fun apply_all :: "WalEntry list \<Rightarrow> store \<Rightarrow> (error option \<times> store) may_panic" where
  "apply_all [] m = Some (None, m)"
| "apply_all (entry # es) m =
     do {
       (err, m') \<leftarrow> ApplyWalEntry entry m;
       (case err of Some e \<Rightarrow> Some (Some e, m') | None \<Rightarrow> apply_all es m')
     }"

text \<open>
  \<open>os.Remove\<close>, whose error the code ignores; a file that is open can still be read.
\<close>

definition os_Remove :: "bool \<Rightarrow> string \<Rightarrow> (string \<rightharpoonup> byte list) \<Rightarrow> (string \<rightharpoonup> byte list)" where
  "os_Remove ok path files = (if ok then files(path := None) else files)"

text \<open>What one replay meets: the two removals, the fates of the file the two times it is open, the time it takes.\<close>

record replay_run =
  first_removal :: bool
  first_open :: "io_fate stream"
  second_open :: "io_fate stream"
  second_removal :: bool
  replay_time :: int

definition isolatedReplayMS ::
  "codec \<Rightarrow> string \<Rightarrow> replay_run \<Rightarrow> int \<Rightarrow> (string \<rightharpoonup> byte list) \<Rightarrow> store \<Rightarrow>
    ((error + int) \<times> (string \<rightharpoonup> byte list) \<times> store) may_panic" where
  "isolatedReplayMS C tmp run n files m =
     (let path = tempWalPath tmp (''bench-replay-'' @ fmt_d n @ ''.wal'');
          files0 = os_Remove (first_removal run) path files in
      case Open C path files0 (first_open run) of
        Inl err \<Rightarrow> Some (Inl err, files0, m)
      | Inr l \<Rightarrow>
          (case append_handshakes C [0..<nat n] l of
             (Some err, l1) \<Rightarrow> Some (Inl err, files0(path \<mapsto> content (log_file l1)), m)
           | (None, l1) \<Rightarrow>
               (let files1 = files0(path \<mapsto> content (log_file l1)) in
                case Open C path files1 (second_open run) of
                  Inl err \<Rightarrow> Some (Inl err, files1, m)
                | Inr l2 \<Rightarrow>
                    (let files2 = os_Remove (second_removal run) path files1;
                         m1 = (InitStations [''mp3/a.mp3''] m)\<lparr>CurrentClients := Map.empty\<rparr> in
                     case ReadAll C l2 of
                       (Inl err, _) \<Rightarrow> Some (Inl err, files2, m1)
                     | (Inr es, _) \<Rightarrow> do {
                         (err, m2) \<leftarrow> apply_all es m1;
                         Some (case err of Some e \<Rightarrow> Inl e | None \<Rightarrow> Inr (replay_time run), files2, m2)
                       }))))"

subsection \<open>Configuration of a load (load.go)\<close>

record loadConfig =
  rps :: int
  duration :: int
  controlAddr :: string
  replAddr :: string
  numStations :: int
  portBase :: int
  mode :: string
  concurrency :: int

definition load_flags :: flag_set where
  "load_flags =
     [''rps'' \<mapsto> Int64Val 500, ''duration'' \<mapsto> StringVal ''30s'', ''control-addr'' \<mapsto> StringVal ''127.0.0.1:16800'',
      ''repl-addr'' \<mapsto> StringVal ''127.0.0.1:16801'', ''stations'' \<mapsto> Int64Val 7, ''port-base'' \<mapsto> Int64Val 20000,
      ''mode'' \<mapsto> StringVal ''sequential'', ''concurrency'' \<mapsto> Int64Val 0]"

definition ToLower :: "string \<Rightarrow> string" where
  "ToLower s = map (\<lambda>c. char_of (lower c)) s"

datatype load_error = Exit2 string | ExitHelp | LoadErr error

definition parseLoadConfig :: "(string \<Rightarrow> error + int) \<Rightarrow> string list \<Rightarrow> load_error + loadConfig" where
  "parseLoadConfig dur args =
     (case flag_Parse dur load_flags args of
        FlagHelp \<Rightarrow> Inl ExitHelp
      | FlagError msg \<Rightarrow> Inl (Exit2 msg)
      | Parsed fs _ \<Rightarrow>
          (let lc = \<lparr>rps = flag_int fs ''rps'', duration = parseDuration dur (flag_string fs ''duration'') 30000000000,
                      controlAddr = flag_string fs ''control-addr'', replAddr = flag_string fs ''repl-addr'',
                      numStations = flag_int fs ''stations'', portBase = flag_int fs ''port-base'',
                      mode = ToLower (flag_string fs ''mode''), concurrency = flag_int fs ''concurrency''\<rparr> in
           if mode lc \<noteq> ''sequential'' \<and> mode lc \<noteq> ''concurrent''
           then Inl (LoadErr (Errorf ''mode must be sequential or concurrent''))
           else Inr lc))"

text \<open>The arguments with which the failover benchmark calls the load (failover.go).\<close>

definition preloadArgs :: "int \<Rightarrow> string \<Rightarrow> string \<Rightarrow> string \<Rightarrow> int \<Rightarrow> string list" where
  "preloadArgs preloadRPS preloadDur ctlAddr rplAddr base =
     [''--mode'', ''sequential'', ''--rps'', fmt_d preloadRPS, ''--duration'', preloadDur, ''--control-addr'', ctlAddr,
      ''--repl-addr'', rplAddr, ''--port-base'', fmt_d base]"

definition effective_concurrency :: "loadConfig \<Rightarrow> int" where
  "effective_concurrency lc =
     (if mode lc = ''sequential'' then 1
      else if concurrency lc \<le> 0 then
        (let c = rps lc; c1 = (if c > 500 then 500 else c) in if c1 < 1 then 1 else c1)
      else concurrency lc)"

subsection \<open>A load of requests (load.go)\<close>

fun warmup :: "'w control_client \<Rightarrow> nat \<Rightarrow> u32 list \<Rightarrow> 'w \<Rightarrow> error option \<times> 'w" where
  "warmup client i [] w = (None, w)"
| "warmup client i (port # ps) w =
     (case stub_Handshake client \<lparr>hello_UdpPort = port\<rparr> (stub_Disconnect client \<lparr>disc_UdpPort = port\<rparr> w) of
        (Inl err, w1) \<Rightarrow>
          (Some (Wrapf (''warmup handshake worker '' @ dec i @ '' (port '' @ dec (unat port) @ '')'') err), w1)
      | (Inr _, w1) \<Rightarrow> warmup client (Suc i) ps w1)"

definition worker_ports :: "loadConfig \<Rightarrow> u32 list" where
  "worker_ports lc = map (\<lambda>i. word_of_int (portBase lc + int i)) [0..<nat (effective_concurrency lc)]"

text \<open>\<open>None\<close>: the first \<open>Recv\<close> does not return.\<close>

definition doSetStation :: "'w control_client \<Rightarrow> u32 \<Rightarrow> u32 \<Rightarrow> 'w \<Rightarrow> bool option \<times> 'w" where
  "doSetStation client port station w =
     (case stub_SetStation client \<lparr>set_StationNumber = station, set_UdpPort = port\<rparr> w of
        (Inl err, w1) \<Rightarrow> (Some False, w1)
      | (Inr stream, w1) \<Rightarrow>
          ((case in_events stream of
              ServerEvent_Announce _ # _ \<Rightarrow> Some True
            | ServerEvent_Invalid _ # _ \<Rightarrow> Some False
            | [] \<Rightarrow> (case ending stream of Ends _ \<Rightarrow> Some False | StaysOpen \<Rightarrow> None)), w1))"

text \<open>
  The sequential loop from the operation number \<open>opSeq\<close>. The clock lets it run as often as \<open>lats\<close> is
  long, and \<open>lats\<close> has the latency measured in each round, in microseconds. The result is the number
  of completed operations and their latencies, \<open>None\<close> when a request never returns. A station
  count of 0 is a division by zero, as is a rate of 0 before the loop.
\<close>

fun sequential_rounds ::
  "'w control_client \<Rightarrow> u32 \<Rightarrow> int \<Rightarrow> int list \<Rightarrow> u64 \<Rightarrow> 'w \<Rightarrow> ((nat \<times> int list) option \<times> 'w) may_panic" where
  "sequential_rounds client port stations [] opSeq w = Some (Some (0, []), w)"
| "sequential_rounds client port stations (lat # lats) opSeq w =
     (if (word_of_int stations :: u64) = 0 then None
      else
        (let station = ucast (opSeq mod word_of_int stations) in
         case doSetStation client port station w of
           (None, w1) \<Rightarrow> Some (None, w1)
         | (Some ok, w1) \<Rightarrow> do {
             (c, w2) \<leftarrow> sequential_rounds client port stations lats (opSeq + 1) w1;
             Some (map_option (\<lambda>(n, ls). if ok then (Suc n, lat # ls) else (n, ls)) c, w2)
           }))"

definition runSequentialLoad ::
  "'w control_client \<Rightarrow> u32 \<Rightarrow> loadConfig \<Rightarrow> int list \<Rightarrow> 'w \<Rightarrow> ((nat \<times> int list) option \<times> 'w) may_panic" where
  "runSequentialLoad client port lc lats w =
     (if rps lc = 0 then None else sequential_rounds client port (numStations lc) lats 0 w)"

subsection \<open>The concurrent load (load.go)\<close>

text \<open>
  The dispatcher hands a free worker to a new goroutine at every tick, when there is one. Between two
  steps of a goroutine others may run: it takes the number of its operation, sends the request, adds
  to the count, records the latency, returns its worker to the channel and leaves the wait group.
  \<open>Hangs\<close> is a request that does not return.
\<close>

datatype stage = Spawned | Numbered u64 | Answered int | Counted int | Leaving | Returned | Hangs

record 'w pool =
  freeWorkers :: "nat chan"
  running :: "(nat \<times> stage) list"
  slots_taken :: u64
  completed_ops :: nat
  latency_list :: "int list"
  dispatching :: bool
  service :: 'w

definition start_pool :: "nat \<Rightarrow> 'w \<Rightarrow> 'w pool" where
  "start_pool n w =
     \<lparr>freeWorkers = (make_chan n)\<lparr>buf := [0..<n]\<rparr>, running = [], slots_taken = 0, completed_ops = 0, latency_list = [],
      dispatching = True, service = w\<rparr>"

definition dispatch_tick :: "'w pool \<Rightarrow> 'w pool" where
  "dispatch_tick p =
     (case chan_recv (freeWorkers p) of
        (Got wid, ch) \<Rightarrow> p\<lparr>freeWorkers := ch, running := running p @ [(wid, Spawned)]\<rparr>
      | _ \<Rightarrow> p)"

text \<open>
  One step of the \<open>i\<close>-th running goroutine; \<open>lat\<close> is the latency measured when its request returns.
  A send on a full channel waits. The request of a worker is served as one step of the service: the
  goroutines of the load interleave, the handlers of the server behind the stub do not (their
  interleaving is the subject of \<^verbatim>\<open>Requests\<close>).
\<close>

definition go_step :: "'w control_client \<Rightarrow> u32 list \<Rightarrow> int \<Rightarrow> nat \<Rightarrow> int \<Rightarrow> 'w pool \<Rightarrow> 'w pool may_panic" where
  "go_step client ports stations i lat p =
     (case running p ! i of (wid, st) \<Rightarrow>
      case st of
        Spawned \<Rightarrow>
          (let slot = slots_taken p + 1 in
           Some (p\<lparr>slots_taken := slot, running := (running p)[i := (wid, Numbered slot)]\<rparr>))
      | Numbered slot \<Rightarrow>
          if (word_of_int stations :: u64) = 0 \<or> length ports \<le> wid then None
          else
            (case doSetStation client (ports ! wid) (ucast (slot mod word_of_int stations)) (service p) of
               (None, w1) \<Rightarrow> Some (p\<lparr>running := (running p)[i := (wid, Hangs)], service := w1\<rparr>)
             | (Some False, w1) \<Rightarrow> Some (p\<lparr>running := (running p)[i := (wid, Leaving)], service := w1\<rparr>)
             | (Some True, w1) \<Rightarrow> Some (p\<lparr>running := (running p)[i := (wid, Answered lat)], service := w1\<rparr>))
      | Answered lat' \<Rightarrow>
          Some (p\<lparr>completed_ops := Suc (completed_ops p), running := (running p)[i := (wid, Counted lat')]\<rparr>)
      | Counted lat' \<Rightarrow>
          Some (p\<lparr>latency_list := latency_list p @ [lat'], running := (running p)[i := (wid, Leaving)]\<rparr>)
      | Leaving \<Rightarrow>
          Some (if length (buf (freeWorkers p)) < cap (freeWorkers p)
                then p\<lparr>freeWorkers := (freeWorkers p)\<lparr>buf := buf (freeWorkers p) @ [wid]\<rparr>,
                       running := (running p)[i := (wid, Returned)]\<rparr>
                else p)
      | Returned \<Rightarrow> Some (p\<lparr>running := take i (running p) @ drop (Suc i) (running p)\<rparr>)
      | Hangs \<Rightarrow> Some p)"

text \<open>
  What can happen: a tick of the dispatcher, the end of the time, a step of a goroutine. The
  scheduler's choice among the running goroutines is a number, counted around.
\<close>

datatype pool_event = Tick | StopAt | Go nat int

fun pool_step :: "'w control_client \<Rightarrow> u32 list \<Rightarrow> int \<Rightarrow> pool_event \<Rightarrow> 'w pool \<Rightarrow> 'w pool may_panic" where
  "pool_step client ports stations Tick p = Some (if dispatching p then dispatch_tick p else p)"
| "pool_step client ports stations StopAt p = Some (p\<lparr>dispatching := False\<rparr>)"
| "pool_step client ports stations (Go i lat) p =
     (if running p = [] then Some p else go_step client ports stations (i mod length (running p)) lat p)"

fun run_pool :: "'w control_client \<Rightarrow> u32 list \<Rightarrow> int \<Rightarrow> pool_event list \<Rightarrow> 'w pool \<Rightarrow> 'w pool may_panic" where
  "run_pool client ports stations [] p = Some p"
| "run_pool client ports stations (ev # evs) p =
     do { p' \<leftarrow> pool_step client ports stations ev p; run_pool client ports stations evs p' }"

text \<open>The load returns when the dispatcher has stopped and the wait group is empty.\<close>

definition runConcurrentLoad ::
  "'w control_client \<Rightarrow> u32 list \<Rightarrow> loadConfig \<Rightarrow> nat \<Rightarrow> pool_event list \<Rightarrow> 'w \<Rightarrow>
    ((nat \<times> int list) option \<times> 'w) may_panic" where
  "runConcurrentLoad client ports lc n evs w =
     (if rps lc = 0 then None
      else do {
        p \<leftarrow> run_pool client ports (numStations lc) evs (start_pool n w);
        Some (if \<not> dispatching p \<and> running p = [] then Some (completed_ops p, latency_list p) else None, service p)
      })"

definition backupLastSeq :: "('w \<Rightarrow> (error + PingResponse) \<times> 'w) \<Rightarrow> 'w \<Rightarrow> (error + u64) \<times> 'w" where
  "backupLastSeq ping w =
     (case ping w of (Inl err, w1) \<Rightarrow> (Inl err, w1) | (Inr resp, w1) \<Rightarrow> (Inr (LastWalSeq resp), w1))"

text \<open>
  A whole load: the outcomes of creating the two clients and the backup's \<open>Ping\<close> are arguments, like
  the latencies of a sequential load and the schedule of a concurrent one. The result leaves out
  the rates, which are quotients by the elapsed time, and the readings of the monitor.
\<close>

record replicationLoadResult =
  Mode :: string
  Concurrency :: int
  TargetRPS :: int
  CompletedOps :: nat
  LatencyMS :: "string \<rightharpoonup> int"

definition load_report :: "loadConfig \<Rightarrow> nat \<Rightarrow> int list \<Rightarrow> replicationLoadResult may_panic" where
  "load_report lc ops latencies =
     do {
       summary \<leftarrow> summarizeLatencies latencies;
       Some \<lparr>Mode = mode lc, Concurrency = effective_concurrency lc, TargetRPS = rps lc, CompletedOps = ops, LatencyMS = summary\<rparr>
     }"

definition executeLoad ::
  "'w control_client \<Rightarrow> error option \<Rightarrow> error option \<Rightarrow> ('w \<Rightarrow> (error + PingResponse) \<times> 'w) \<Rightarrow>
    int list \<Rightarrow> pool_event list \<Rightarrow> loadConfig \<Rightarrow> 'w \<Rightarrow>
    ((error + replicationLoadResult) option \<times> 'w) may_panic" where
  "executeLoad client ctl repl ping lats evs lc w =
     (case ctl of
        Some err \<Rightarrow> Some (Some (Inl (Wrapf ''control client'' err)), w)
      | None \<Rightarrow>
     (case repl of
        Some err \<Rightarrow> Some (Some (Inl (Wrapf ''repl client'' err)), w)
      | None \<Rightarrow>
     (case warmup client 0 (worker_ports lc) w of
        (Some err, w1) \<Rightarrow> Some (Some (Inl err), w1)
      | (None, w1) \<Rightarrow>
     (case backupLastSeq ping w1 of
        (Inl err, w2) \<Rightarrow> Some (Some (Inl err), w2)
      | (Inr startSeq, w2) \<Rightarrow> do {
          (c, w3) \<leftarrow> (if mode lc = ''sequential'' then runSequentialLoad client (worker_ports lc ! 0) lc lats w2
                      else runConcurrentLoad client (worker_ports lc) lc (nat (effective_concurrency lc)) evs w2);
          (case c of
             None \<Rightarrow> Some (None, w3)
           | Some (ops, latencies) \<Rightarrow> do {
               r \<leftarrow> load_report lc ops latencies;
               Some (Some (Inr r), w3)
             })
        }))))"

text \<open>\<open>runReplicationLoad\<close>: the command.\<close>

definition runReplicationLoad ::
  "(string \<Rightarrow> error + int) \<Rightarrow> 'w control_client \<Rightarrow> error option \<Rightarrow> error option \<Rightarrow>
    ('w \<Rightarrow> (error + PingResponse) \<times> 'w) \<Rightarrow> int list \<Rightarrow> pool_event list \<Rightarrow> string list \<Rightarrow> 'w \<Rightarrow>
    ((load_error + replicationLoadResult) option \<times> 'w) may_panic" where
  "runReplicationLoad dur client ctl repl ping lats evs args w =
     (case parseLoadConfig dur args of
        Inl err \<Rightarrow> Some (Some (Inl err), w)
      | Inr lc \<Rightarrow> do {
          (r, w1) \<leftarrow> executeLoad client ctl repl ping lats evs lc w;
          Some (map_option (map_sum LoadErr id) r, w1)
        })"

text \<open>One reading of the monitor: the backup's sequence number first, then the completed operations.\<close>

definition lag_step :: "u64 \<Rightarrow> u64 \<Rightarrow> u64 \<Rightarrow> int \<times> nat \<Rightarrow> int \<times> nat" where
  "lag_step startSeq seq completed lag =
     (case lag of (maxSeqBehind, maxLagMS) \<Rightarrow>
      let behind = sint (completed - (seq - startSeq)) in
      if behind > maxSeqBehind then (behind, maxLagMS + 5) else (maxSeqBehind, maxLagMS))"

end
