(* ===== verification/Bench_Props.thy ===== *)
theory Bench_Props
  imports Bench
begin

section \<open>Properties of the benchmarks\<close>

text \<open>
  A load against the service, proved against the interface of the control client; what the
  monitor of the lag measures; the replay of a written log; the arguments of the failover
  benchmark.
\<close>

subsection \<open>A sequential load\<close>

lemma uint_small: "0 < m \<Longrightarrow> m < 2 ^ 32 \<Longrightarrow> uint (word_of_int m :: u64) = m"
  by (simp add: uint_word_of_int)

lemma station_of_op:
  assumes "0 < m" and "m < 2 ^ 32"
  shows "uint (ucast (opSeq mod (word_of_int m :: u64)) :: u32) = uint opSeq mod m"
proof -
  note m = uint_small [OF assms]
  have "uint (opSeq mod (word_of_int m :: u64)) = uint opSeq mod m" unfolding uint_mod m ..
  moreover have "0 \<le> uint opSeq mod m" "uint opSeq mod m < 2 ^ 32"
    using assms pos_mod_bound [of m "uint opSeq"] by (simp, linarith)
  ultimately show ?thesis by (simp add: unsigned_ucast_eq take_bit_int_eq_self)
qed

context control_service
begin

lemma leave:
  assumes "able (Suc n) w"
  shows "\<exists>w'. stub_Disconnect stub \<lparr>disc_UdpPort = p\<rparr> w = w' \<and> able n w' \<and>
    assigned w' = (assigned w)(client_key p := None) \<and> stations w' = stations w"
  using assms bye [OF assms, of p] bye_unknown [of w p]
  by (cases "assigned w (client_key p)") (auto simp: fun_upd_idem intro: able_less)

lemma warmup_registers:
  "able (2 * length ports + n) w \<Longrightarrow>
   \<exists>w'. warmup stub i ports w = (None, w') \<and> able n w' \<and> stations w' = stations w \<and>
     assigned w' = (\<lambda>k. if k \<in> client_key ` set ports then Some (-1) else assigned w k)"
proof (induction ports arbitrary: i w)
  case (Cons p ports)
  from leave [of "Suc (2 * length ports + n)" w p] Cons.prems obtain w0 where
    w0: "stub_Disconnect stub \<lparr>disc_UdpPort = p\<rparr> w = w0" "able (Suc (2 * length ports + n)) w0"
      "assigned w0 = (assigned w)(client_key p := None)" "stations w0 = stations w" by auto
  from hello [OF w0(2), of p] w0(3) obtain m w1 where
    w1: "stub_Handshake stub \<lparr>hello_UdpPort = p\<rparr> w0 = (Inr m, w1)" "able (2 * length ports + n) w1"
      "assigned w1 = (assigned w0)(client_key p \<mapsto> -1)" "stations w1 = stations w0" by auto
  from Cons.IH [OF w1(2), of "Suc i"] w0 w1 show ?case by (auto simp: fun_eq_iff)
qed simp

lemma request_completes:
  assumes "able (Suc n) w" and "assigned w (client_key p) \<noteq> None" and "0 < m" and "m \<le> int (stations w)" and "m < 2 ^ 32"
  shows "(word_of_int m :: u64) \<noteq> 0"
    and "\<exists>w'. doSetStation stub p (ucast (op mod (word_of_int m :: u64))) w = (Some True, w') \<and> able n w' \<and>
      assigned w' = (assigned w)(client_key p \<mapsto> uint op mod m) \<and> stations w' = stations w"
proof -
  let ?i = "ucast (op mod (word_of_int m :: u64)) :: u32"
  have i: "uint ?i = uint op mod m" by (rule station_of_op [OF assms(3,5)])
  then have "uint ?i < int (stations w)" using assms(3,4) pos_mod_bound [of m "uint op"] by linarith
  then have "unat ?i < stations w" by (simp only: uint_nat of_nat_less_iff)
  from tune [OF assms(1,2) this] i obtain st w1 where
    w1: "stub_SetStation stub \<lparr>set_StationNumber = ?i, set_UdpPort = p\<rparr> w = (Inr st, w1)" "able n w1"
      "announces st" "assigned w1 = (assigned w)(client_key p \<mapsto> uint op mod m)" "stations w1 = stations w" by auto
  have "doSetStation stub p ?i w = (Some True, w1)"
    using w1(1,3) by (auto simp: doSetStation_def announces_def split: list.splits ServerEvent.splits)
  with w1 show "\<exists>w'. doSetStation stub p ?i w = (Some True, w') \<and> able n w' \<and>
      assigned w' = (assigned w)(client_key p \<mapsto> uint op mod m) \<and> stations w' = stations w" by simp
  show "(word_of_int m :: u64) \<noteq> 0"
    using uint_small [OF assms(3,5)] assms(3) by (metis unsigned_0 less_irrefl)
qed

lemma sequential_rounds_complete:
  assumes "able (length lats + n) w" and "assigned w (client_key p) \<noteq> None" and "0 < m" and "m \<le> int (stations w)"
    and "m < 2 ^ 32"
  shows "\<exists>w'. sequential_rounds stub p m lats opSeq w = Some (Some (length lats, lats), w') \<and> able n w' \<and>
    assigned w' = (if lats = [] then assigned w
      else (assigned w)(client_key p \<mapsto> uint (opSeq + of_nat (length lats - 1)) mod m))"
  using assms
proof (induction lats arbitrary: opSeq w)
  case (Cons lat lats)
  have able: "able (Suc (length lats + n)) w" using Cons.prems(1) by simp
  note req = request_completes [OF able Cons.prems(2-5)]
  from req(2) [of opSeq] obtain w1 where
    w1: "doSetStation stub p (ucast (opSeq mod (word_of_int m :: u64))) w = (Some True, w1)" "able (length lats + n) w1"
      "assigned w1 = (assigned w)(client_key p \<mapsto> uint opSeq mod m)" "stations w1 = stations w" by blast
  have "assigned w1 (client_key p) \<noteq> None" "m \<le> int (stations w1)" using w1(3,4) Cons.prems(4) by simp_all
  from Cons.IH [OF w1(2) this(1) Cons.prems(3) this(2) Cons.prems(5), of "opSeq + 1"] w1 req(1) show ?case
    by (cases lats) (auto simp: ac_simps)
qed simp

end

text \<open>
  A sequential load against a primary whose network is up, on stations the server has, completes
  every one of its operations, as many as the clock lets it start. Its report counts them and
  summarises their latencies; it leaves the worker's client on the station of the last one and
  every other client where it was.
\<close>

theorem sequential_load_completes:
  assumes "serving C s w" and "online w" and "spare_log C (length lats + 2) w" and "mode lc = ''sequential''" and "rps lc \<noteq> 0"
    and "0 < numStations lc" and "numStations lc \<le> int (length (StationList (mem w)))"
    and "summarizeLatencies lats = Some summary"
  shows "\<exists>w'. executeLoad (server_stub s news) None None (\<lambda>w. (Inr (Ping (peer w)), w)) lats evs lc w =
      Some (Some (Inr \<lparr>Mode = ''sequential'', Concurrency = 1, TargetRPS = rps lc, CompletedOps = length lats,
        LatencyMS = summary\<rparr>), w') \<and>
    abs_store (mem w') = (abs_store (mem w))(client_key (word_of_int (portBase lc)) \<mapsto>
      (if lats = [] then -1 else uint (of_nat (length lats - 1) :: u64) mod numStations lc))"
proof -
  let ?p = "word_of_int (portBase lc) :: u32"
  have s: "s = \<lparr>srv_NumStations = srv_NumStations s, Repl = ReplicateAndWait C\<rparr>"
    using servingD(2) [OF assms(1)] by (cases s) simp
  define stub where "stub = server_stub \<lparr>srv_NumStations = srv_NumStations s, Repl = ReplicateAndWait C\<rparr> news"
  have ports: "worker_ports lc = [?p]" using assms(4) by (simp add: worker_ports_def effective_concurrency_def)
  have "pair.can_take C (2 * length [?p] + length lats) w"
    using servingD(1) [OF assms(1)] assms(2,3) by (simp add: pair.can_take_def add.commute)
  from pair.service.warmup_registers [OF this, of "srv_NumStations s" news 0] obtain w1 where
    w1: "warmup stub 0 [?p] w = (None, w1)" "pair.can_take C (length lats + 0) w1"
      "length (StationList (mem w1)) = length (StationList (mem w))"
      "abs_store (mem w1) = (\<lambda>x. if x = client_key ?p then Some (-1) else abs_store (mem w) x)"
    unfolding stub_def by auto
  have m: "numStations lc < 2 ^ 32" using assms(7) servingD(4) [OF assms(1)] by simp
  have "abs_store (mem w1) (client_key ?p) \<noteq> None" using w1(4) by simp
  from pair.service.sequential_rounds_complete [OF w1(2) this assms(6) _ m, of "srv_NumStations s" news 0] w1(3) assms(7)
  obtain w2 where
    w2: "sequential_rounds stub ?p (numStations lc) lats 0 w1 = Some (Some (length lats, lats), w2)"
      "abs_store (mem w2) = (if lats = [] then abs_store (mem w1)
        else (abs_store (mem w1))(client_key ?p \<mapsto> uint (of_nat (length lats - 1) :: u64) mod numStations lc))"
    unfolding stub_def by auto
  have "abs_store (mem w2) = (abs_store (mem w))(client_key ?p \<mapsto>
      (if lats = [] then -1 else uint (of_nat (length lats - 1) :: u64) mod numStations lc))"
    unfolding w2(2) w1(4) by (auto simp: fun_eq_iff)
  with w1(1) w2(1) ports assms(4,5,8) show ?thesis
    unfolding s [symmetric] stub_def
    by (simp add: executeLoad_def load_report_def backupLastSeq_def runSequentialLoad_def effective_concurrency_def)
qed

theorem sequential_load_completes_witness:
  "\<exists>w'. executeLoad (server_stub fresh_server []) None None (\<lambda>w. (Inr (Ping (peer w)), w)) [900, 700, 400, 800] []
      \<lparr>rps = 500, duration = 10, controlAddr = ''c'', replAddr = ''r'', numStations = 2, portBase = 20000,
       mode = ''sequential'', concurrency = 0\<rparr> (fresh_world (sconst Delivered)) =
      Some (Some (Inr \<lparr>Mode = ''sequential'', Concurrency = 1, TargetRPS = 500, CompletedOps = 4,
        LatencyMS = [''p50'' \<mapsto> 700, ''p95'' \<mapsto> 800, ''p99'' \<mapsto> 800, ''max'' \<mapsto> 900]\<rparr>), w') \<and>
    abs_store (mem w') (client_key 20000) = Some 1"
proof -
  let ?w = "fresh_world (sconst Delivered)"
  let ?lc = "\<lparr>rps = 500, duration = 10, controlAddr = ''c'', replAddr = ''r'', numStations = 2, portBase = 20000,
       mode = ''sequential'', concurrency = 0\<rparr>"
  have "spare_log wire_codec (length [900, 700, 400, 800 :: int] + 2) ?w"
    by (simp add: spare_log_def seq_limit_def handshake_entry_def setstation_entry_def disconnect_entry_def getClientIP_def)
  moreover have "online ?w" by (simp add: online_def)
  moreover have "numStations ?lc \<le> int (length (StationList (mem ?w)))" by (simp add: InitStations_def)
  moreover have "summarizeLatencies [900, 700, 400, 800 :: int] =
      Some [''p50'' \<mapsto> 700, ''p95'' \<mapsto> 800, ''p99'' \<mapsto> 800, ''max'' \<mapsto> 900]"
    by (subst summary_ranks) simp_all
  ultimately show ?thesis
    using sequential_load_completes [OF fresh_serving, of "sconst Delivered" "[900, 700, 400, 800]" ?lc _ "[]" "[]"] by auto
qed

subsection \<open>What the monitor measures\<close>

text \<open>A run of acknowledged steps with the number of station changes among them.\<close>

inductive completed_run :: "codec \<Rightarrow> Server \<Rightarrow> world \<Rightarrow> nat \<Rightarrow> world \<Rightarrow> bool" for C s where
  start: "completed_run C s w 0 w"
| other: "completed_run C s w0 n w \<Longrightarrow> acked_step C s w w' \<Longrightarrow> completed_run C s w0 n w'"
| tuned: "completed_run C s w0 n w \<Longrightarrow> room C w \<Longrightarrow>
    SetStation s \<lparr>set_StationNumber = i, set_UdpPort = port\<rparr> st w = Some (Inr a, st', w') \<Longrightarrow>
    completed_run C s w0 (Suc n) w'"

lemma acked_step_grows:
  assumes "acked_step C s w w'" and "synced C s w"
  shows "length (entries C (p_wal w)) \<le> length (entries C (p_wal w'))"
proof -
  have sv: "serving C s w" using assms(2) by (simp add: synced_def)
  have grows: "length (entries C (p_wal w)) \<le> length (entries C (p_wal w'))" if "remote.outcome C e w True w'" for e
    using remote_done [OF that sv] by simp
  from assms(1) show ?thesis
  proof cases
    case (hello port r)
    from grows [OF hello_step [OF sv hello]] show ?thesis .
  next
    case (tune n port st a st')
    from grows [OF tune_step [OF sv tune]] show ?thesis .
  next
    case (bye port resp)
    from bye_step [OF sv bye] grows show ?thesis by blast
  qed simp_all
qed

lemma completed_run_grows:
  assumes "completed_run C s w0 n w" and "synced C s w0"
  shows "synced C s w \<and> length (entries C (p_wal w0)) + n \<le> length (entries C (p_wal w))"
  using assms
proof induction
  case (other w0 n w w')
  then show ?case using acked_step_synced acked_step_grows by fastforce
next
  case (tuned w0 n w i port st a st' w')
  then have sv: "serving C s w" by (simp add: synced_def)
  note o = tune_step [OF sv tuned.hyps(2,3)]
  from remote_done [OF o sv] outcome_synced [OF o] tuned show ?case by auto
qed simp

lemma Ping_synced:
  assumes "synced C s w"
  shows "LastWalSeq (Ping (peer w)) = of_nat (length (entries C (p_wal w)))"
  using assms by (simp add: synced_def serving_def repl_inv_def backup_inv_def Ping_def)

lemma sint_diff:
  assumes "b < 2 ^ 63" and "d < 2 ^ 63"
  shows "sint (of_nat b - of_nat d :: u64) = int b - int d"
proof -
  have "(of_nat b - of_nat d :: u64) = word_of_int (int b - int d)" by simp
  then show ?thesis using assms by (simp only: signed_of_int) (simp add: signed_take_bit_int_eq_self)
qed

text \<open>
  C33: The monitor asks the backup for its last number first and reads the count of completed
  operations afterwards. Between acknowledged operations a backup is never behind, so the number
  the monitor takes for the lag is at most the number of operations that completed between its two
  readings; with none it reports no lag at all.
\<close>

theorem lag_counts_operations_in_between:
  assumes "synced C s w0" and "completed_run C s w0 a w1" and "completed_run C s w1 b w2"
    and "length (entries C (p_wal w2)) < 2 ^ 63" and "0 \<le> maxSeqBehind"
  shows "fst (lag_step (LastWalSeq (Ping (peer w0))) (LastWalSeq (Ping (peer w1))) (of_nat (a + b)) (maxSeqBehind, ms))
      \<le> max maxSeqBehind (int b) \<and>
    (b = 0 \<longrightarrow>
      lag_step (LastWalSeq (Ping (peer w0))) (LastWalSeq (Ping (peer w1))) (of_nat (a + b)) (maxSeqBehind, ms) =
        (maxSeqBehind, ms))"
proof -
  note r1 = completed_run_grows [OF assms(2,1)]
  note r2 = completed_run_grows [OF assms(3) conjunct1 [OF r1]]
  from r1 obtain d where d: "length (entries C (p_wal w1)) = length (entries C (p_wal w0)) + a + d"
    using le_Suc_ex by blast
  have x: "(of_nat (a + b) :: u64) - (LastWalSeq (Ping (peer w1)) - LastWalSeq (Ping (peer w0))) = of_nat b - of_nat d"
    using r1 assms(1) by (simp add: Ping_synced d)
  have "b < 2 ^ 63" "d < 2 ^ 63" using r2 d assms(4) by auto
  then have "sint (of_nat (a + b) - (LastWalSeq (Ping (peer w1)) - LastWalSeq (Ping (peer w0)))) = int b - int d"
    unfolding x by (rule sint_diff)
  then show ?thesis
    using assms(5) by (cases "b = 0") (simp_all add: lag_step_def Let_def)
qed

theorem lag_counts_operations_in_between_witness:
  "\<exists>w0 w1 w2. completed_run wire_codec fresh_server w0 0 w1 \<and> completed_run wire_codec fresh_server w1 1 w2 \<and>
    length (entries wire_codec (p_wal w2)) = 2 \<and>
    fst (lag_step (LastWalSeq (Ping (peer w0))) (LastWalSeq (Ping (peer w1))) (of_nat (0 + 1)) (0, 0)) \<le> 1"
proof -
  let ?f = "fresh_world (sconst Delivered)"
  obtain w where w: "Handshake fresh_server \<lparr>hello_UdpPort = 5000\<rparr> ?f = Some (Inr \<lparr>welcome_NumStations = 2\<rparr>, w)"
    "serving wire_codec fresh_server w" "CurrentClients (mem w) (client_key 5000) = Some 0"
    "station_names (mem w) = [''mp3/a.mp3'', ''mp3/b.mp3'']" "length (entries wire_codec (p_wal w)) = 1" "online w"
    by (rule connected_world)
  have r0: "completed_run wire_codec fresh_server ?f 0 w"
    by (rule completed_run.other [OF completed_run.start acked_step.hello [OF fresh_room w(1)]])
  have sy: "synced wire_codec fresh_server w" using completed_run_grows [OF r0 fresh_synced] by simp
  have room: "room wire_codec w" using small_log_fits [OF w(5)]
    by (simp add: room_def setstation_entry_def disconnect_entry_def handshake_entry_def getClientIP_def)
  from tuned_world [OF w(2,6,3-5)] obtain st' w' where
    h: "SetStation fresh_server \<lparr>set_StationNumber = 1, set_UdpPort = 5000\<rparr> \<lparr>sent = [], send_fates = sconst None\<rparr> w = Some (Inr 0, st', w')"
      "length (entries wire_codec (p_wal w')) = 2" by metis
  have r1: "completed_run wire_codec fresh_server w 1 w'" using completed_run.tuned [OF completed_run.start room h(1)] by simp
  with h(2) show ?thesis
    using lag_counts_operations_in_between [OF sy completed_run.start r1, of 0 0] completed_run.start by fastforce
qed

subsection \<open>The replay of a written log\<close>

definition bench_key :: "nat \<Rightarrow> string" where
  "bench_key i = ClientKey ''127.0.0.1'' (word_of_int (10000 + int i))"

definition bench_log :: "nat \<Rightarrow> WalEntry list" where
  "bench_log n = map (\<lambda>i. (bench_entry i)\<lparr>Seq := of_nat (Suc i)\<rparr>) [0..<n]"

lemma bench_log_simps [simp]:
  "bench_log 0 = []" "bench_log (Suc n) = bench_log n @ [(bench_entry n)\<lparr>Seq := of_nat (Suc n)\<rparr>]" "length (bench_log n) = n"
  by (simp_all add: bench_log_def del: of_nat_Suc)

lemma bench_key_inject:
  assumes "i < 2 ^ 32" and "j < 2 ^ 32" and "bench_key i = bench_key j"
  shows "i = j"
proof -
  have "(word_of_int (10000 + int i) :: u32) = word_of_int (10000 + int j)"
    using assms(3) by (simp add: bench_key_def ClientKey_inject)
  then have "(of_nat i :: u32) = of_nat j" by simp
  moreover have "unat (of_nat x :: u32) = x" if "x < 2 ^ 32" for x using that by (simp add: unat_of_nat)
  ultimately show ?thesis using assms(1,2) by metis
qed

lemma a_entry_bench:
  "a_entry ((bench_entry i)\<lparr>Seq := s\<rparr>) m = (if m (bench_key i) = None then Some (m(bench_key i \<mapsto> -1)) else None)"
  by (simp add: a_entry_def bench_entry_def bench_key_def Let_def)

lemma bench_log_assigns:
  "n \<le> 2 ^ 32 \<Longrightarrow>
   a_replay (bench_log n) Map.empty = Some (\<lambda>k. if k \<in> bench_key ` {..<n} then Some (-1) else None)"
proof (induction n)
  case 0
  then show ?case by (simp add: a_replay_def)
next
  case (Suc n)
  have "bench_key n \<noteq> bench_key i" if "i < n" for i using bench_key_inject [of n i] Suc.prems that by auto
  then have "bench_key n \<notin> bench_key ` {..<n}" by auto
  with Suc show ?case
    by (auto simp: a_replay_snoc a_entry_bench lessThan_Suc fun_eq_iff simp del: of_nat_Suc)
qed

lemma append_handshakes_ok:
  assumes "\<And>i s. storable C ((bench_entry i)\<lparr>Seq := s\<rparr>)" and "n < seq_limit"
  shows "i \<le> n \<Longrightarrow> wal_ok C l \<Longrightarrow> numbered (entries C l) \<Longrightarrow> entries C l = bench_log i \<Longrightarrow>
    \<exists>l'. append_handshakes C [i..<n] l = (None, l') \<and> wal_ok C l' \<and> entries C l' = bench_log n"
proof (induction "n - i" arbitrary: i l)
  case (Suc k)
  then have i: "i < n" "k = n - Suc i" by auto
  have "walstore.in_order C l" using Suc.prems(2,3) by (simp add: walstore.in_order_def)
  from walstore.append_in_order [OF this, of "bench_entry i"] Suc.prems(4) i(1) assms obtain l' where
    l': "Append C (bench_entry i) l = (Inr (of_nat (Suc i)), (bench_entry i)\<lparr>Seq := of_nat (Suc i)\<rparr>, l')"
      "walstore.in_order C l'" "entries C l' = bench_log (Suc i)" by auto
  from Suc.hyps(1) [OF i(2) _ _ _ l'(3)] l'(2) i(1) have
    "\<exists>l''. append_handshakes C [Suc i..<n] l' = (None, l'') \<and> wal_ok C l'' \<and> entries C l'' = bench_log n"
    by (simp add: walstore.in_order_def)
  with l'(1) i(1) show ?case by (simp add: upt_conv_Cons)
qed auto

lemma apply_all_is_loop: "stations.is_loop apply_all"
  by (auto simp: stations.is_loop_def)

text \<open>
  The benchmark of the replay works for every count of entries up to the number of ports: on a
  disk without faults and without an old file, the log it writes is read back and replayed without
  an error, whatever clients were registered before, and registers one client per entry.
\<close>

lemma isolated_replay:
  assumes "codec_ok C" and "\<And>i s. storable C ((bench_entry i)\<lparr>Seq := s\<rparr>)" and "n \<le> 2 ^ 32"
    and "run = \<lparr>first_removal = True, first_open = sconst IOok, second_open = sconst IOok, second_removal = True, replay_time = us\<rparr>"
  shows "\<exists>m'. isolatedReplayMS C tmp run n files m =
      Some (Inr us, files(tempWalPath tmp (''bench-replay-'' @ fmt_d n @ ''.wal'') := None), m') \<and> store_inv m' \<and>
    abs_store m' = (\<lambda>k. if k \<in> bench_key ` {..<nat n} then Some (-1) else None)"
proof -
  let ?p = "tempWalPath tmp (''bench-replay-'' @ fmt_d n @ ''.wal'')"
  let ?m1 = "(InitStations [''mp3/a.mp3''] m)\<lparr>CurrentClients := Map.empty\<rparr>"
  have n: "nat n \<le> 2 ^ 32" "nat n < seq_limit" using assms(3) by (simp_all add: seq_limit_def nat_le_iff)
  from Open_decode [where C = C and es = "[]" and bs = "[]" and disk = "files(?p := None)" and p = ?p] assms(1) obtain l where
    l: "Open C ?p (files(?p := None)) (sconst IOok) = Inr l" "wal_ok C l" "entries C l = []" by auto
  from append_handshakes_ok [OF assms(2) n(2), of 0 l] l(2,3) obtain l1 where
    l1: "append_handshakes C [0..<nat n] l = (None, l1)" "wal_ok C l1" "entries C l1 = bench_log (nat n)" by auto
  from Open_decode [OF wal_okD(1,4) [OF l1(2)], of "files(?p \<mapsto> content (log_file l1))" ?p] wal_okD(5) [OF l1(2)] obtain l2 where
    l2: "Open C ?p (files(?p \<mapsto> content (log_file l1))) (sconst IOok) = Inr l2" "wal_ok C l2" "entries C l2 = bench_log (nat n)"
    using l1(3) by auto
  have m1: "?m1 = InitStations [''mp3/a.mp3''] (m\<lparr>CurrentClients := Map.empty\<rparr>)" by (simp add: InitStations_def)
  have i: "store_inv ?m1" "abs_store ?m1 = Map.empty"
    unfolding m1 using InitStations_inv [of "m\<lparr>CurrentClients := Map.empty\<rparr>" "[''mp3/a.mp3'']"] by simp_all
  have "entry_valid k e" if "e \<in> set (bench_log (nat n))" for e k
    using that by (auto simp: bench_log_def entry_valid_def bench_entry_def)
  with stations.loop_applies [OF apply_all_is_loop, of ?m1 "station_names ?m1" "bench_log (nat n)"] i
    bench_log_assigns [OF n(1)] obtain m' where
    "apply_all (bench_log (nat n)) ?m1 = Some (None, m')" "store_inv m'"
      "abs_store m' = (\<lambda>k. if k \<in> bench_key ` {..<nat n} then Some (-1) else None)"
    unfolding a_replay_def by auto
  with l l1 l2 ReadAll_ok [OF l2(2)] show ?thesis by (simp add: isolatedReplayMS_def os_Remove_def assms(4) Let_def)
qed

subsection \<open>Arguments that are printed and read back\<close>

text \<open>The failover benchmark's arguments are read back as the load it means.\<close>

lemma preload_args_roundtrip:
  assumes "- (2 ^ 63) \<le> r" and "r < 2 ^ 63" and "- (2 ^ 63) \<le> b" and "b < 2 ^ 63"
  shows "parseLoadConfig dur (preloadArgs r d ctl rpl b) =
    Inr \<lparr>rps = r, duration = parseDuration dur d 30000000000, controlAddr = ctl, replAddr = rpl, numStations = 7,
      portBase = b, mode = ''sequential'', concurrency = 0\<rparr>"
proof -
  have "ToLower ''sequential'' = ''sequential''" by code_simp
  with assms show ?thesis
    by (simp add: parseLoadConfig_def preloadArgs_def load_flags_def split_flag_def bad_name_def set_flag_def ParseInt0_fmt
        flag_string_def flag_int_def)
qed

lemma Atoi_fmt:
  assumes "- (2 ^ 63) \<le> i" and "i < 2 ^ 63"
  shows "Atoi (fmt_d i) = Inr i"
proof (cases "i < 0")
  case True
  then have "ParseUint (dec (nat (- i))) 64 = (nat (- i), None)" using assms by (intro ParseUint_dec) simp
  with True assms show ?thesis by (simp add: Atoi_def fmt_d_def nat_le_iff)
next
  case False
  then have "ParseUint (dec (nat i)) 64 = (nat i, None)" using assms by (intro ParseUint_dec) simp
  with False assms show ?thesis by (simp add: Atoi_def fmt_d_def sign_not_in_dec le_nat_iff)
qed

lemma fmt_d_plain: "TrimSpace (fmt_d i) = fmt_d i" "CHR '','' \<notin> set (fmt_d i)" "fmt_d i \<noteq> ''''"
proof -
  have d: "c = CHR ''-'' \<or> is_digit c" if "c \<in> set (fmt_d i)" for c
    using that by (auto simp: fmt_d_def split: if_splits dest: dec_digits)
  have s: "\<not> is_space c \<and> c \<noteq> CHR '',''" if "c \<in> set (fmt_d i)" for c
    using d [OF that] by (auto simp: is_digit_def is_space_def)
  have "dropWhile is_space t = t" if "set t \<subseteq> set (fmt_d i)" for t using that s by (cases t) auto
  from this [of "fmt_d i"] this [of "rev (fmt_d i)"] show "TrimSpace (fmt_d i) = fmt_d i" by (simp add: TrimSpace_def)
  show "CHR '','' \<notin> set (fmt_d i)" using s by blast
  show "fmt_d i \<noteq> ''''" by (simp add: fmt_d_def)
qed

fun print_ints :: "int list \<Rightarrow> string" where
  "print_ints [] = ''''"
| "print_ints [i] = fmt_d i"
| "print_ints (i # j # is) = fmt_d i @ '','' @ print_ints (j # is)"

lemma int_parts_print:
  "xs \<noteq> [] \<Longrightarrow> (\<And>i. i \<in> set xs \<Longrightarrow> - (2 ^ 63) \<le> i \<and> i < 2 ^ 63) \<Longrightarrow> int_parts (split_on CHR '','' (print_ints xs)) = xs"
  by (induction xs rule: print_ints.induct) (simp_all add: split_on_append split_on_no_sep fmt_d_plain Atoi_fmt)

text \<open>A list of numbers that is printed with commas is read back.\<close>

lemma parseIntList_print:
  assumes "xs \<noteq> []" and "\<And>i. i \<in> set xs \<Longrightarrow> - (2 ^ 63) \<le> i \<and> i < 2 ^ 63"
  shows "parseIntList (print_ints xs) def = xs"
proof -
  have "print_ints xs \<noteq> ''''" using assms(1) by (induction xs rule: print_ints.induct) (simp_all add: fmt_d_plain)
  with int_parts_print [OF assms] assms(1) show ?thesis by (simp add: parseIntList_def)
qed

end
