(* ===== verification/Bench_Pool.thy ===== *)
theory Bench_Pool
  imports Bench_Props
begin

section \<open>The concurrent load\<close>

text \<open>
  The workers of a concurrent load: whatever the schedule, a worker serves one goroutine at a time
  and can always be given back, and against a service that answers the load ends with every started
  operation completed.
\<close>

subsection \<open>The state of the goroutines\<close>

fun weight :: "stage \<Rightarrow> nat" where
  "weight Spawned = 6" | "weight (Numbered n) = 5" | "weight (Answered l) = 4" | "weight (Counted l) = 3"
| "weight Leaving = 2" | "weight Returned = 1" | "weight Hangs = 0"

fun is_counted :: "stage \<Rightarrow> bool" where
  "is_counted (Counted l) = True" | "is_counted _ = False"

fun will_ask :: "stage \<Rightarrow> bool" where
  "will_ask Spawned = True" | "will_ask (Numbered n) = True" | "will_ask _ = False"

fun uncounted :: "stage \<Rightarrow> bool" where
  "uncounted Spawned = True" | "uncounted (Numbered n) = True" | "uncounted (Answered l) = True" | "uncounted _ = False"

definition number_of :: "(stage \<Rightarrow> bool) \<Rightarrow> 'w pool \<Rightarrow> nat" where
  "number_of Q p = length (filter (Q \<circ> snd) (running p))"

definition work :: "'w pool \<Rightarrow> nat" where
  "work p = sum_list (map (weight \<circ> snd) (running p))"

text \<open>The workers that are out, and the operations started so far.\<close>

definition holders :: "'w pool \<Rightarrow> nat list" where
  "holders p = map fst (filter (\<lambda>g. snd g \<noteq> Returned) (running p))"

definition started :: "'w pool \<Rightarrow> nat" where
  "started p = completed_ops p + number_of uncounted p"

lemmas pool_defs = number_of_def work_def holders_def started_def

text \<open>A step of a goroutine, at its place among the running ones.\<close>

lemma go_step_at:
  assumes "running p = a @ (wid, st) # b"
  shows "go_step client ports m (length a) lat p =
    (case st of
       Spawned \<Rightarrow> Some (p\<lparr>slots_taken := slots_taken p + 1, running := a @ (wid, Numbered (slots_taken p + 1)) # b\<rparr>)
     | Numbered slot \<Rightarrow>
         if (word_of_int m :: u64) = 0 \<or> length ports \<le> wid then None
         else (case doSetStation client (ports ! wid) (ucast (slot mod word_of_int m)) (service p) of
                 (None, w1) \<Rightarrow> Some (p\<lparr>running := a @ (wid, Hangs) # b, service := w1\<rparr>)
               | (Some ok, w1) \<Rightarrow>
                   Some (p\<lparr>running := a @ (wid, if ok then Answered lat else Leaving) # b, service := w1\<rparr>))
     | Answered l \<Rightarrow> Some (p\<lparr>completed_ops := Suc (completed_ops p), running := a @ (wid, Counted l) # b\<rparr>)
     | Counted l \<Rightarrow> Some (p\<lparr>latency_list := latency_list p @ [l], running := a @ (wid, Leaving) # b\<rparr>)
     | Leaving \<Rightarrow>
         Some (if length (buf (freeWorkers p)) < cap (freeWorkers p)
               then p\<lparr>freeWorkers := (freeWorkers p)\<lparr>buf := buf (freeWorkers p) @ [wid]\<rparr>,
                      running := a @ (wid, Returned) # b\<rparr>
               else p)
     | Returned \<Rightarrow> Some (p\<lparr>running := a @ b\<rparr>)
     | Hangs \<Rightarrow> Some p)"
  using assms by (auto simp: go_step_def Let_def split: stage.split prod.split option.split bool.split)

lemma go_place:
  assumes "running p \<noteq> []"
  obtains a wid st b where "running p = a @ (wid, st) # b" "i mod length (running p) = length a"
proof -
  have "i mod length (running p) < length (running p)" using assms by simp
  then obtain a x b where "running p = a @ x # b" "length a = i mod length (running p)"
    by (metis id_take_nth_drop length_take less_imp_le min.absorb2)
  with that show ?thesis by (cases x) metis
qed

subsection \<open>Workers are exclusive\<close>

definition pool_inv :: "nat \<Rightarrow> 'w pool \<Rightarrow> bool" where
  "pool_inv n p \<longleftrightarrow>
     mset (buf (freeWorkers p)) + mset (holders p) = mset [0..<n] \<and> cap (freeWorkers p) = n \<and>
     completed_ops p = length (latency_list p) + number_of is_counted p"

lemma pool_inv_workers:
  assumes "pool_inv n p"
  shows "distinct (buf (freeWorkers p) @ holders p)" "set (buf (freeWorkers p)) \<union> set (holders p) = {..<n}"
    "length (buf (freeWorkers p)) + length (holders p) = n"
proof -
  have m: "mset (buf (freeWorkers p) @ holders p) = mset [0..<n]" using assms by (simp add: pool_inv_def)
  from mset_eq_imp_distinct_iff [OF m] show "distinct (buf (freeWorkers p) @ holders p)" by simp
  from mset_eq_setD [OF m] show "set (buf (freeWorkers p)) \<union> set (holders p) = {..<n}" by auto
  from mset_eq_length [OF m] show "length (buf (freeWorkers p)) + length (holders p) = n" by simp
qed

lemma holder_room: "pool_inv n p \<Longrightarrow> holders p \<noteq> [] \<Longrightarrow> length (buf (freeWorkers p)) < cap (freeWorkers p)"
  using pool_inv_workers(3) [of n p] by (cases "holders p") (auto simp: pool_inv_def)

lemma start_pool_inv: "pool_inv n (start_pool n w)"
  by (simp add: pool_inv_def start_pool_def pool_defs make_chan_def)

lemma dispatch_tick_inv: "pool_inv n p \<Longrightarrow> pool_inv n (dispatch_tick p)"
  by (auto simp: pool_inv_def dispatch_tick_def chan_recv_def pool_defs split: list.split)

lemma go_step_inv:
  assumes "pool_inv n p" and "running p = a @ (wid, st) # b" and "go_step client ports m (length a) lat p = Some p'"
  shows "pool_inv n p'"
  using assms(1,3) go_step_at [OF assms(2), of client ports m lat] assms(2)
  by (cases st) (auto simp: pool_inv_def pool_defs split: if_splits prod.splits option.splits)

lemma pool_step_inv:
  assumes "pool_inv n p" and "pool_step client ports m ev p = Some p'"
  shows "pool_inv n p'"
proof (cases ev)
  case Tick
  with assms show ?thesis by (auto simp: dispatch_tick_inv split: if_splits)
next
  case StopAt
  with assms show ?thesis by (auto simp: pool_inv_def pool_defs)
next
  case (Go i lat)
  with assms show ?thesis
    by (cases "running p = []") (auto elim!: go_place [of p i] intro: go_step_inv)
qed

lemma run_pool_inv: "run_pool client ports m evs p = Some p' \<Longrightarrow> pool_inv n p \<Longrightarrow> pool_inv n p'"
  by (induction evs arbitrary: p) (auto split: bind_splits intro: pool_step_inv)

text \<open>
  C27: In every state a concurrent load can get into, whatever the service answers and however the
  goroutines are scheduled: each worker is either free or out with exactly one goroutine, so no
  client has two requests under way and there are never more requests than workers; a goroutine
  that gives its worker back never waits; and the count of completed operations is ahead of the
  recorded latencies by the goroutines between the two.
\<close>

theorem workers_are_exclusive:
  assumes "run_pool client ports m evs (start_pool n w) = Some p"
  shows "distinct (buf (freeWorkers p) @ holders p) \<and> set (buf (freeWorkers p)) \<union> set (holders p) = {..<n} \<and>
    (holders p = [] \<or> length (buf (freeWorkers p)) < cap (freeWorkers p)) \<and>
    completed_ops p = length (latency_list p) + number_of is_counted p"
proof -
  have inv: "pool_inv n p" by (rule run_pool_inv [OF assms start_pool_inv])
  with pool_inv_workers(1,2) [OF inv] holder_room [OF inv] show ?thesis by (auto simp: pool_inv_def)
qed

theorem workers_are_exclusive_witness:
  "\<exists>p. run_pool (server_stub fresh_server []) [7, 8] 1 [Tick, Tick, Tick, Go 1 5] (start_pool 2 (fresh_world (sconst Delivered))) = Some p \<and>
    holders p = [0, 1] \<and> distinct (buf (freeWorkers p) @ holders p)"
proof -
  obtain p where p: "run_pool (server_stub fresh_server []) [7, 8] 1 [Tick, Tick, Tick, Go 1 5] (start_pool 2 (fresh_world (sconst Delivered))) = Some p"
    "holders p = [0, 1]"
    by (simp add: start_pool_def make_chan_def dispatch_tick_def chan_recv_def go_step_def holders_def upt_rec)
  with workers_are_exclusive [OF p(1)] show ?thesis by blast
qed

subsection \<open>What a run starts and measures\<close>

text \<open>
  The operations a run starts: the ticks at which the dispatcher is running and a worker is free. The
  latencies it measures: those of the steps at which a request is answered with the announcement.
\<close>

fun starts :: "'w control_client \<Rightarrow> u32 list \<Rightarrow> int \<Rightarrow> pool_event list \<Rightarrow> 'w pool \<Rightarrow> nat" where
  "starts client ports m [] p = 0"
| "starts client ports m (ev # evs) p =
     (case pool_step client ports m ev p of
        None \<Rightarrow> 0
      | Some p' \<Rightarrow> (if ev = Tick \<and> dispatching p \<and> buf (freeWorkers p) \<noteq> [] then 1 else 0) + starts client ports m evs p')"

fun asks :: "stage \<Rightarrow> bool" where
  "asks (Numbered n) = True" | "asks _ = False"

fun answered_at :: "pool_event \<Rightarrow> 'w pool \<Rightarrow> 'w pool \<Rightarrow> int list" where
  "answered_at (Go i lat) p p' =
     (let j = i mod length (running p) in
      if running p \<noteq> [] \<and> asks (snd (running p ! j)) \<and> snd (running p' ! j) = Answered lat then [lat] else [])"
| "answered_at _ p p' = []"

fun measured :: "'w control_client \<Rightarrow> u32 list \<Rightarrow> int \<Rightarrow> pool_event list \<Rightarrow> 'w pool \<Rightarrow> int list" where
  "measured client ports m [] p = []"
| "measured client ports m (ev # evs) p =
     (case pool_step client ports m ev p of None \<Rightarrow> [] | Some p' \<Rightarrow> answered_at ev p p' @ measured client ports m evs p')"

lemma starts_append:
  "run_pool client ports m xs p = Some p' \<Longrightarrow> starts client ports m (xs @ ys) p = starts client ports m xs p + starts client ports m ys p'"
  by (induction xs arbitrary: p) (auto split: bind_splits option.splits)

fun carried_latency :: "stage \<Rightarrow> int list" where
  "carried_latency (Answered l) = [l]" | "carried_latency (Counted l) = [l]" | "carried_latency _ = []"

definition pending :: "'w pool \<Rightarrow> int list" where
  "pending p = concat (map (carried_latency \<circ> snd) (running p))"

lemma go_step_measured:
  assumes "running p = a @ (wid, st) # b" and "i mod length (running p) = length a"
    and "go_step client ports m (length a) lat p = Some p'"
  shows "mset (latency_list p') + mset (pending p') = mset (latency_list p) + mset (pending p) + mset (answered_at (Go i lat) p p')"
  using assms(3) go_step_at [OF assms(1), of client ports m lat] assms(1,2)
  by (cases st) (auto simp: pending_def nth_append split: if_splits prod.splits option.splits)

lemma pool_step_measured:
  assumes "pool_step client ports m ev p = Some p'"
  shows "mset (latency_list p') + mset (pending p') = mset (latency_list p) + mset (pending p) + mset (answered_at ev p p')"
proof (cases ev)
  case Tick
  with assms show ?thesis by (auto simp: dispatch_tick_def chan_recv_def pending_def split: if_splits list.splits)
next
  case StopAt
  with assms show ?thesis by (auto simp: pending_def)
next
  case (Go i lat)
  show ?thesis
  proof (cases "running p = []")
    case False
    then obtain a wid st b where at: "running p = a @ (wid, st) # b" "i mod length (running p) = length a" by (rule go_place)
    with assms Go False have "go_step client ports m (length a) lat p = Some p'" by simp
    from go_step_measured [OF at this] Go show ?thesis by simp
  qed (use assms Go in simp)
qed

lemma run_pool_measured:
  "run_pool client ports m evs p = Some p' \<Longrightarrow>
   mset (latency_list p') + mset (pending p') = mset (latency_list p) + mset (pending p) + mset (measured client ports m evs p)"
proof (induction evs arbitrary: p)
  case (Cons ev evs)
  then obtain p1 where p1: "pool_step client ports m ev p = Some p1" "run_pool client ports m evs p1 = Some p'"
    by (auto split: bind_splits)
  from Cons.IH [OF p1(2)] pool_step_measured [OF p1(1)] p1(1) show ?case by simp
qed simp

subsection \<open>A load that is answered ends\<close>

fun ticks :: "pool_event list \<Rightarrow> nat" where
  "ticks [] = 0" | "ticks (Tick # evs) = Suc (ticks evs)" | "ticks (_ # evs) = ticks evs"

fun gos :: "pool_event list \<Rightarrow> nat" where
  "gos [] = 0" | "gos (Go i l # evs) = Suc (gos evs)" | "gos (_ # evs) = gos evs"

context control_service
begin

text \<open>
  What holds during a load with \<open>k\<close> ticks to come: the service can take the requests of these and of
  the goroutines that have not asked yet, every worker is registered, and no client other than a
  worker has moved since \<open>w0\<close>.
\<close>

definition loading :: "u32 list \<Rightarrow> 'w \<Rightarrow> nat \<Rightarrow> 'w pool \<Rightarrow> bool" where
  "loading ports w0 k p \<longleftrightarrow>
     pool_inv (length ports) p \<and> able (number_of will_ask p + k) (service p) \<and>
     (\<forall>q \<in> set ports. assigned (service p) (client_key q) \<noteq> None) \<and>
     (\<forall>x. x \<notin> client_key ` set ports \<longrightarrow> assigned (service p) x = assigned w0 x) \<and>
     stations (service p) = stations w0 \<and> Hangs \<notin> snd ` set (running p) \<and> length (running p) \<le> started p"

lemma go_step_loading:
  assumes "loading ports w0 k p" and "0 < m" and "m \<le> int (stations w0)" and "m < 2 ^ 32"
    and "running p = a @ (wid, st) # b"
  shows "\<exists>p'. go_step stub ports m (length a) lat p = Some p' \<and> loading ports w0 k p' \<and> started p' = started p \<and>
    work p' < work p \<and> dispatching p' = dispatching p"
proof -
  note at = go_step_at [OF assms(5), of stub ports m lat]
  have inv: "pool_inv (length ports) p" using assms(1) by (simp add: loading_def)
  have step: "pool_inv (length ports) p'" if "go_step stub ports m (length a) lat p = Some p'" for p'
    by (rule go_step_inv [OF inv assms(5) that])
  have st: "st \<noteq> Hangs" using assms(1,5) by (force simp: loading_def)
  show ?thesis
  proof (cases st)
    case (Numbered slot)
    have "wid \<in> set (holders p)" using assms(5) Numbered by (simp add: holders_def)
    then have wid: "wid < length ports" using pool_inv_workers(2) [OF inv] by auto
    let ?q = "ports ! wid"
    have "able (Suc (length (filter (will_ask \<circ> snd) (a @ b)) + k)) (service p)"
      "assigned (service p) (client_key ?q) \<noteq> None" "m \<le> int (stations (service p))"
      using assms(1,3,5) wid Numbered by (simp_all add: loading_def number_of_def)
    note req = request_completes [OF this(1,2) assms(2) this(3) assms(4)]
    from req(2) [of slot] obtain w1 where
      w1: "doSetStation stub ?q (ucast (slot mod (word_of_int m :: u64))) (service p) = (Some True, w1)"
        "able (length (filter (will_ask \<circ> snd) (a @ b)) + k) w1"
        "assigned w1 = (assigned (service p))(client_key ?q \<mapsto> uint slot mod m)" "stations w1 = stations (service p)" by blast
    let ?p = "p\<lparr>running := a @ (wid, Answered lat) # b, service := w1\<rparr>"
    have go: "go_step stub ports m (length a) lat p = Some ?p" using at w1(1) req(1) wid Numbered by simp
    moreover have "loading ports w0 k ?p"
      using step [OF go] assms(1,5) w1(2-4) wid Numbered by (auto simp: loading_def pool_defs)
    ultimately show ?thesis using assms(5) Numbered by (simp add: pool_defs)
  next
    case Leaving
    then have "length (buf (freeWorkers p)) < cap (freeWorkers p)"
      using holder_room [OF inv] assms(5) by (simp add: holders_def)
    with at Leaving obtain p' where p': "go_step stub ports m (length a) lat p = Some p'"
      "p' = p\<lparr>freeWorkers := (freeWorkers p)\<lparr>buf := buf (freeWorkers p) @ [wid]\<rparr>, running := a @ (wid, Returned) # b\<rparr>" by simp
    with step [OF p'(1)] assms(1,5) Leaving show ?thesis by (auto simp: loading_def pool_defs)
  qed (use at step assms(1,5) st in \<open>auto simp: loading_def pool_defs\<close>)
qed

lemma dispatch_tick_loading:
  assumes "loading ports w0 (Suc k) p"
  shows "loading ports w0 k (dispatch_tick p) \<and> dispatching (dispatch_tick p) = dispatching p \<and>
    min (length ports) (Suc (started p)) \<le> started (dispatch_tick p) \<and>
    started (dispatch_tick p) = started p + (if buf (freeWorkers p) \<noteq> [] then 1 else 0) \<and> work (dispatch_tick p) \<le> work p + 6"
proof (cases "buf (freeWorkers p)")
  case Nil
  then have d: "dispatch_tick p = p" by (simp add: dispatch_tick_def chan_recv_def)
  have "length ports = length (holders p)"
    using pool_inv_workers(3) [of "length ports" p] assms Nil by (simp add: loading_def)
  also have "\<dots> \<le> length (running p)" by (simp add: holders_def)
  also have "\<dots> \<le> started p" using assms by (simp add: loading_def)
  finally show ?thesis using assms able_less Nil by (simp add: d loading_def)
next
  case (Cons wid ws)
  then have d: "dispatch_tick p = p\<lparr>freeWorkers := (freeWorkers p)\<lparr>buf := ws\<rparr>, running := running p @ [(wid, Spawned)]\<rparr>"
    by (simp add: dispatch_tick_def chan_recv_def)
  have "pool_inv (length ports) (dispatch_tick p)" using assms by (simp add: loading_def dispatch_tick_inv)
  with assms Cons show ?thesis unfolding d by (auto simp: loading_def pool_defs)
qed

lemma dispatch_phase:
  assumes "loading ports w0 (ticks evs + k) p" and "dispatching p" and "StopAt \<notin> set evs"
    and "0 < m" and "m \<le> int (stations w0)" and "m < 2 ^ 32"
  shows "\<exists>p'. run_pool stub ports m evs p = Some p' \<and> loading ports w0 k p' \<and>
    min (length ports) (started p + ticks evs) \<le> started p' \<and> started p' \<le> started p + ticks evs \<and>
    started p' = started p + starts stub ports m evs p \<and> work p' \<le> work p + 6 * ticks evs"
  using assms(1-3)
proof (induction evs arbitrary: p)
  case (Cons ev evs)
  show ?case
  proof (cases ev)
    case Tick
    with Cons.prems dispatch_tick_loading [of ports w0 "ticks evs + k" p] have
      t: "loading ports w0 (ticks evs + k) (dispatch_tick p)" "dispatching (dispatch_tick p)"
        "min (length ports) (Suc (started p)) \<le> started (dispatch_tick p)" "started (dispatch_tick p) = started p + (if buf (freeWorkers p) \<noteq> [] then 1 else 0)"
        "work (dispatch_tick p) \<le> work p + 6" by simp_all
    from Cons.IH [OF t(1,2)] Cons.prems(3) obtain p' where
      "run_pool stub ports m evs (dispatch_tick p) = Some p'" "loading ports w0 k p'"
      "min (length ports) (started (dispatch_tick p) + ticks evs) \<le> started p'"
      "started p' \<le> started (dispatch_tick p) + ticks evs"
      "started p' = started (dispatch_tick p) + starts stub ports m evs (dispatch_tick p)" "work p' \<le> work (dispatch_tick p) + 6 * ticks evs" by auto
    with t Tick Cons.prems(2) show ?thesis by (cases "buf (freeWorkers p) = []") auto
  next
    case (Go i lat)
    show ?thesis
    proof (cases "running p = []")
      case False
      then obtain a wid st b where at: "running p = a @ (wid, st) # b" "i mod length (running p) = length a" by (rule go_place)
      from go_step_loading [where k = "ticks evs + k" and lat = lat, OF _ assms(4-6) at(1)] Cons.prems(1) Go obtain p1 where
        p1: "go_step stub ports m (length a) lat p = Some p1" "loading ports w0 (ticks evs + k) p1" "started p1 = started p"
          "work p1 < work p" "dispatching p1 = dispatching p" by auto
      with Cons.IH [OF p1(2)] Cons.prems Go at False show ?thesis by fastforce
    qed (use Cons Go in simp)
  qed (use Cons.prems in simp)
qed simp

lemma drain_phase:
  assumes "loading ports w0 k p" and "\<not> dispatching p" and "0 < m" and "m \<le> int (stations w0)" and "m < 2 ^ 32"
  shows "\<exists>p'. run_pool stub ports m evs p = Some p' \<and> loading ports w0 k p' \<and> \<not> dispatching p' \<and>
    started p' = started p \<and> starts stub ports m evs p = 0 \<and> work p' \<le> work p - gos evs"
  using assms(1,2)
proof (induction evs arbitrary: p)
  case (Cons ev evs)
  show ?case
  proof (cases ev)
    case (Go i lat)
    show ?thesis
    proof (cases "running p = []")
      case True
      then have "work p = 0" by (simp add: work_def)
      with Cons.IH [OF Cons.prems] Go True show ?thesis by auto
    next
      case False
      then obtain a wid st b where at: "running p = a @ (wid, st) # b" "i mod length (running p) = length a" by (rule go_place)
      from go_step_loading [OF Cons.prems(1) assms(3-5) at(1), of lat] obtain p1 where
        p1: "go_step stub ports m (length a) lat p = Some p1" "loading ports w0 k p1" "started p1 = started p"
          "work p1 < work p" "dispatching p1 = dispatching p" by auto
      from Cons.IH [OF p1(2)] p1(5) Cons.prems(2) obtain p' where
        "run_pool stub ports m evs p1 = Some p'" "loading ports w0 k p'" "\<not> dispatching p'" "started p' = started p1"
        "starts stub ports m evs p1 = 0" "work p' \<le> work p1 - gos evs" by auto
      with p1 Go at False show ?thesis by (intro exI [of _ p']) simp
    qed
  next
    case StopAt
    have "p\<lparr>dispatching := False\<rparr> = p" using Cons.prems(2) by (cases p) simp
    then have "run_pool stub ports m (ev # evs) p = run_pool stub ports m evs p"
      "starts stub ports m (ev # evs) p = starts stub ports m evs p" by (simp_all add: StopAt)
    with Cons.IH [OF Cons.prems] StopAt show ?thesis by (simp del: run_pool.simps starts.simps)
  qed (use Cons in simp)
qed simp

lemma work_done: "loading ports w0 k p \<Longrightarrow> work p = 0 \<Longrightarrow> running p = []"
proof (rule ccontr)
  assume "loading ports w0 k p" "work p = 0" "running p \<noteq> []"
  then obtain wid st gs where "running p = (wid, st) # gs" "st \<noteq> Hangs" "weight st = 0"
    by (cases "running p") (auto simp: loading_def work_def)
  then show False by (cases st) simp_all
qed

lemma run_pool_append: "run_pool client ports m (xs @ ys) p = run_pool client ports m xs p \<bind> run_pool client ports m ys"
  by (induction xs arbitrary: p) (auto split: bind_split)

lemma pool_load_ends:
  assumes "able (ticks evs) w" and "\<forall>q \<in> set ports. assigned w (client_key q) \<noteq> None"
    and "0 < m" and "m \<le> int (stations w)" and "m < 2 ^ 32"
    and "StopAt \<notin> set evs" and "6 * ticks evs \<le> gos evs'"
  shows "\<exists>p. run_pool stub ports m (evs @ StopAt # evs') (start_pool (length ports) w) = Some p \<and>
    \<not> dispatching p \<and> running p = [] \<and> completed_ops p = length (latency_list p) \<and>
    completed_ops p = starts stub ports m (evs @ StopAt # evs') (start_pool (length ports) w) \<and>
    mset (latency_list p) = mset (measured stub ports m (evs @ StopAt # evs') (start_pool (length ports) w)) \<and>
    min (length ports) (ticks evs) \<le> completed_ops p \<and> completed_ops p \<le> ticks evs \<and>
    (\<forall>x. x \<notin> client_key ` set ports \<longrightarrow> assigned (service p) x = assigned w x)"
proof -
  let ?p0 = "start_pool (length ports) w"
  have p0: "running ?p0 = []" "completed_ops ?p0 = 0" "service ?p0 = w" "dispatching ?p0" by (simp_all add: start_pool_def)
  have "loading ports w (ticks evs + 0) ?p0" using assms(1,2) p0 by (simp add: loading_def start_pool_inv pool_defs)
  from dispatch_phase [OF this p0(4) assms(6,3-5)] p0 obtain p1 where
    p1: "run_pool stub ports m evs ?p0 = Some p1" "loading ports w 0 p1" "min (length ports) (ticks evs) \<le> started p1"
      "started p1 \<le> ticks evs" "work p1 \<le> 6 * ticks evs" "started p1 = starts stub ports m evs ?p0" by (auto simp: pool_defs)
  let ?p2 = "p1\<lparr>dispatching := False\<rparr>"
  have p2: "loading ports w 0 ?p2" "started ?p2 = started p1" "work ?p2 = work p1"
    using p1(2) by (simp_all add: loading_def pool_inv_def pool_defs)
  from drain_phase [OF p2(1) _ assms(3-5), of evs'] obtain p where
    p: "run_pool stub ports m evs' ?p2 = Some p" "loading ports w 0 p" "\<not> dispatching p" "started p = started p1" "work p = 0"
      "starts stub ports m evs' ?p2 = 0"
    using p1(5) p2 assms(7) by fastforce
  have "running p = []" by (rule work_done [OF p(2,5)])
  moreover have "completed_ops p = length (latency_list p)" "started p = completed_ops p"
    using p(2) \<open>running p = []\<close> by (simp_all add: loading_def pool_inv_def pool_defs)
  moreover have run: "run_pool stub ports m (evs @ StopAt # evs') ?p0 = Some p" using p(1) p1(1) by (simp add: run_pool_append)
  moreover have "mset (latency_list p) = mset (measured stub ports m (evs @ StopAt # evs') ?p0)"
    using run_pool_measured [OF run] \<open>running p = []\<close> by (simp add: pending_def start_pool_def)
  moreover have "starts stub ports m (evs @ StopAt # evs') ?p0 = started p1"
    using starts_append [OF p1(1), of "StopAt # evs'"] p(6) p1(6) by simp
  ultimately show ?thesis using p p1 by (auto simp: loading_def)
qed

end



end
