(* ===== verification/Bench_Log_Props.thy ===== *)
theory Bench_Log_Props
  imports Bench_Log
begin

section \<open>What is read back from a log\<close>

text \<open>
  The output of a server is its lines: those the logger stamps, the markers among them, and those
  printed without a stamp. The phases and the times read back are exactly what was written; the
  line the server prints when it has started has no stamp, so the recovery time is never found.
\<close>

subsection \<open>The output of a server\<close>

datatype out_line = Logged civil string | Marked civil string nat | Printed string

fun line_text :: "out_line \<Rightarrow> string" where
  "line_text (Logged t m) = stamp t @ '' '' @ m"
| "line_text (Marked t p ms) = stamp t @ '' '' @ the (Mark ''1'' p (int ms))"
| "line_text (Printed s) = s"

definition out_text :: "out_line list \<Rightarrow> string" where
  "out_text ls = concat (map (\<lambda>l. line_text l @ [newline]) ls)"

lemma log_line_text:
  "log_line t m = line_text (Logged t m) @ [newline]"
  "Mark ''1'' p (int ms) = Some m \<Longrightarrow> log_line t m = line_text (Marked t p ms) @ [newline]"
  by (simp_all add: log_line_def)

definition stamp_ok :: "civil \<Rightarrow> bool" where
  "stamp_ok t \<longleftrightarrow> valid_civil t \<and> year t < 10000"

text \<open>
  A line is readable when it has no line end inside and fits in the buffer; a stamped message does
  not start with a space, a printed line does not start with a digit, and a phase is a word.
\<close>

fun line_ok :: "out_line \<Rightarrow> bool" where
  "line_ok (Logged t m) \<longleftrightarrow> stamp_ok t \<and> (m = [] \<or> \<not> re_space (hd m)) \<and> newline \<notin> set m \<and> CHR 0x0D \<notin> set m \<and>
     length (line_text (Logged t m)) < 65536"
| "line_ok (Marked t p ms) \<longleftrightarrow> stamp_ok t \<and> p \<noteq> [] \<and> (\<forall>c \<in> set p. \<not> re_space c) \<and> ms < 2 ^ 53 \<and>
     length (line_text (Marked t p ms)) < 65536"
| "line_ok (Printed s) \<longleftrightarrow> (s = [] \<or> \<not> is_digit (hd s)) \<and> newline \<notin> set s \<and> CHR 0x0D \<notin> set s \<and> length s < 65536"

subsection \<open>Stamps\<close>

lemma set_pad: "c \<in> set (pad w n) \<Longrightarrow> is_digit c"
  by (auto simp: pad_def is_digit_def dest: dec_digits)

lemma length_dec_small: "n < 10 ^ Suc k \<Longrightarrow> length (dec n) \<le> Suc k"
proof (induction k arbitrary: n)
  case (Suc k)
  show ?case
  proof (cases "n < 10")
    case False
    with Suc.prems have "n div 10 < 10 ^ Suc k" by (simp add: less_mult_imp_div_less)
    with Suc.IH False show ?thesis by (simp add: dec_large)
  qed simp
qed simp

lemma length_pad: "0 < w \<Longrightarrow> n < 10 ^ w \<Longrightarrow> length (pad w n) = w"
  using length_dec_small [of n "w - 1"] by (simp add: pad_def)

lemma undec_zeros: "undec (replicate k CHR ''0'' @ s) = undec s"
  by (induction k) (simp_all add: undec_def digit_val_def)

lemma undec_pad [simp]: "undec (pad w n) = n"
  by (simp add: pad_def undec_zeros)

lemma shape_digits: "(\<And>c. c \<in> set ds \<Longrightarrow> is_digit c) \<Longrightarrow> shape (replicate (length ds) CHR ''d'' @ ps) (ds @ cs) = shape ps cs"
  by (induction ds) auto

lemma shape_pad:
  assumes "0 < w" and "n < 10 ^ w"
  shows "shape (replicate w CHR ''d'' @ ps) (pad w n @ cs) = shape ps cs"
  using shape_digits [of "pad w n" ps cs] length_pad [OF assms] set_pad [of _ w n] by simp

lemma stamp_widths:
  assumes "stamp_ok t"
  shows "length (pad 4 (year t)) = 4" "length (pad 2 (month t)) = 2" "length (pad 2 (day t)) = 2"
    "length (pad 2 (hour t)) = 2" "length (pad 2 (minute t)) = 2" "length (pad 2 (second t)) = 2"
proof -
  have "daysIn (month t) (year t) \<le> 31" if "1 \<le> month t" "month t \<le> 12"
  proof -
    let ?L = "[31, 28, 31, 30, 31, 30, 31, 31, 30, 31, 30, 31 :: nat]"
    have "?L ! (month t - 1) \<in> set ?L" by (rule nth_mem) (use that in simp)
    moreover have "\<forall>x \<in> set ?L. x \<le> 31" by simp
    ultimately have "?L ! (month t - 1) \<le> 31" by blast
    then show ?thesis by (simp only: daysIn_def split: if_split) simp
  qed
  then have "day t \<le> 31" using assms by (auto simp: stamp_ok_def valid_civil_def)
  with assms show "length (pad 4 (year t)) = 4" "length (pad 2 (month t)) = 2" "length (pad 2 (day t)) = 2"
    "length (pad 2 (hour t)) = 2" "length (pad 2 (minute t)) = 2" "length (pad 2 (second t)) = 2"
    by (auto simp: stamp_ok_def valid_civil_def intro!: length_pad)
qed

lemma read_stamp:
  assumes "stamp_ok t"
  shows "length (stamp t) = 19" "read_civil (stamp t @ s) = t" "shape ''dddd/dd/dd dd:dd:dd'' (stamp t)"
proof -
  note w = stamp_widths [OF assms]
  show "length (stamp t) = 19" "read_civil (stamp t @ s) = t" by (simp_all add: stamp_def read_civil_def w)
  have four: "''dddd/dd/dd dd:dd:dd'' = replicate (length (pad 4 (year t))) CHR ''d'' @ ''/'' @
    replicate (length (pad 2 (month t))) CHR ''d'' @ ''/'' @ replicate (length (pad 2 (day t))) CHR ''d'' @ '' '' @
    replicate (length (pad 2 (hour t))) CHR ''d'' @ '':'' @ replicate (length (pad 2 (minute t))) CHR ''d'' @ '':'' @
    replicate (length (pad 2 (second t))) CHR ''d'' @ []" unfolding w by (simp add: numeral_eq_Suc)
  have ds: "shape (replicate (length (pad w n)) CHR ''d'' @ ps) (pad w n @ cs) = shape ps cs" for w n ps cs
    by (rule shape_digits) (rule set_pad)
  show "shape ''dddd/dd/dd dd:dd:dd'' (stamp t)"
    unfolding four stamp_def using ds [of _ _ "[]" "[]"] by (simp add: ds)
qed

lemma parseLogTime_line:
  assumes "stamp_ok t" and "m = [] \<or> \<not> re_space (hd m)"
  shows "parseLogTime local (stamp t @ '' '' @ m) = Some (time_of local t, m)"
proof -
  note r = read_stamp [OF assms(1)]
  have "dropWhile re_space m = m" using assms(2) by (cases m) auto
  then show ?thesis using r(1,3) r(2) [of "CHR '' '' # m"] assms(1)
    by (simp add: parseLogTime_def Let_def re_space_def stamp_ok_def undec_def)
qed

lemma parseLogTime_printed: "s = [] \<or> \<not> is_digit (hd s) \<Longrightarrow> parseLogTime local s = None"
  by (cases s) (auto simp: parseLogTime_def Let_def)

subsection \<open>Lines\<close>

lemma stamp_chars: "c \<in> set (stamp t) \<Longrightarrow> is_digit c \<or> c \<in> {CHR ''/'', CHR '' '', CHR '':''}"
  by (auto simp: stamp_def dest: set_pad)

lemma stamp_plain: "newline \<notin> set (stamp t)" "CHR 0x0D \<notin> set (stamp t)" "CHR ''B'' \<notin> set (stamp t)"
  by (auto dest!: stamp_chars simp: newline_def is_digit_def)

lemma mark_text: "line_text (Marked t p ms) = stamp t @ '' BENCH phase='' @ p @ '' ms='' @ dec ms"
  by (simp add: Mark_def enabled_def fmt_d_def)

lemma digits_no_line_end: "newline \<notin> set (dec n)" "CHR 0x0D \<notin> set (dec n)"
  by (auto dest!: dec_digits simp: newline_def is_digit_def)

lemma word_no_line_end: "\<forall>c \<in> set p. \<not> re_space c \<Longrightarrow> newline \<notin> set p \<and> CHR 0x0D \<notin> set p"
  by (auto simp: re_space_def newline_def)

lemma line_plain:
  assumes "line_ok l"
  shows "newline \<notin> set (line_text l)" "CHR 0x0D \<notin> set (line_text l)" "length (line_text l) < 65536"
proof -
  show "newline \<notin> set (line_text l)" "CHR 0x0D \<notin> set (line_text l)"
  proof (atomize (full), cases l)
    case (Marked t p ms)
    with assms word_no_line_end [of p] show "newline \<notin> set (line_text l) \<and> CHR 0x0D \<notin> set (line_text l)"
      unfolding Marked mark_text by (simp add: stamp_plain digits_no_line_end) (simp add: newline_def)
  qed (use assms in \<open>simp_all add: stamp_plain, simp add: newline_def\<close>)
  show "length (line_text l) < 65536" using assms by (cases l) simp_all
qed

lemma dropCR_plain: "CHR 0x0D \<notin> set s \<Longrightarrow> dropCR s = s"
  unfolding dropCR_def using last_in_set by metis

lemma scan_pieces_plain:
  "(\<And>s. s \<in> set ls \<Longrightarrow> length s < 65536 \<and> CHR 0x0D \<notin> set s) \<Longrightarrow> scan_pieces ls = (ls, None)"
proof (induction ls)
  case (Cons s ls)
  then have "length s < 65536" "CHR 0x0D \<notin> set s" "scan_pieces ls = (ls, None)" by simp_all
  then show ?case by (simp add: dropCR_plain)
qed simp

lemma Scan_out_text:
  assumes "\<And>l. l \<in> set ls \<Longrightarrow> line_ok l"
  shows "Scan (out_text ls) = (map line_text ls, None)"
proof -
  have "split_on newline (out_text ls) = map line_text ls @ [[]]"
    using assms by (induction ls) (simp_all add: out_text_def split_on_append line_plain(1))
  moreover have "scan_pieces (map line_text ls) = (map line_text ls, None)"
    using assms line_plain by (intro scan_pieces_plain) auto
  ultimately show ?thesis by (simp add: Scan_def)
qed

subsection \<open>Phases\<close>

lemma Index_skip:
  assumes "pat \<noteq> []" and "hd pat \<notin> set a"
  shows "Index (a @ s) pat = map_option (\<lambda>i. length a + i) (Index s pat)"
  using assms(2)
proof (induction a)
  case (Cons c a)
  then have "\<not> prefix pat (c # a @ s)" using assms(1) by (cases pat) auto
  with Cons show ?case by (simp add: option.map_comp comp_def)
qed (cases "Index s pat"; simp)

lemma Index_found: "prefix pat s \<Longrightarrow> Index s pat = Some 0"
  by (cases s) auto

lemma takeWhile_run:
  "\<forall>c \<in> set p. P c \<Longrightarrow> \<not> P c \<Longrightarrow> takeWhile P (p @ c # s) = p \<and> dropWhile P (p @ c # s) = c # s"
  by (induction p) auto

lemma takeWhile_digits: "takeWhile is_digit (dec n) = dec n"
  using dec_digits by (auto simp: takeWhile_eq_all_conv)

lemma mark_match:
  assumes "p \<noteq> []" and "\<forall>c \<in> set p. \<not> re_space c"
  shows "benchPhaseRE (''BENCH phase='' @ p @ '' ms='' @ dec ms) = Some (p, dec ms)"
proof -
  note run = takeWhile_run [of p "\<lambda>c. \<not> re_space c" "CHR '' ''" "''ms='' @ dec ms"]
  have sp: "re_space CHR '' ''" "\<not> re_space CHR ''m''" by (simp_all add: re_space_def)
  have "benchPhaseRE_at (''BENCH phase='' @ p @ '' ms='' @ dec ms) = Some (p, dec ms)"
    using assms run sp by (simp add: benchPhaseRE_at_def Let_def takeWhile_digits)
  then show ?thesis by simp
qed

lemma phase_step_mark:
  assumes "line_ok (Marked t p ms)"
  shows "phase_step phases (line_text (Marked t p ms)) = phases(p \<mapsto> Finite ms)"
proof -
  have line: "line_text (Marked t p ms) = (stamp t @ '' '') @ (''BENCH phase='' @ p @ '' ms='' @ dec ms)"
    unfolding mark_text by simp
  have "Index (line_text (Marked t p ms)) ''BENCH phase='' = Some (length (stamp t @ '' ''))"
    unfolding line using Index_found [of "''BENCH phase=''" "''BENCH phase='' @ p @ '' ms='' @ dec ms"]
    by (subst Index_skip) (simp_all add: stamp_plain)
  moreover have "drop (length (stamp t @ '' '')) (line_text (Marked t p ms)) = ''BENCH phase='' @ p @ '' ms='' @ dec ms"
    unfolding line append_eq_conv_conj by simp
  moreover have "ParseFloat (dec ms) = Finite ms"
  proof -
    have "(2 :: nat) ^ 53 \<le> 2 ^ 1024" by (intro power_increasing) simp_all
    then have "ms < 2 ^ 1024" using assms by (simp only: line_ok.simps) linarith
    then show ?thesis using assms by (simp add: ParseFloat_def Let_def)
  qed
  moreover have "p \<noteq> []" "\<forall>c \<in> set p. \<not> re_space c" using assms by simp_all
  note mark_match [OF this, of ms]
  ultimately show ?thesis by (simp only: phase_step_def option.case prod.case)
qed

fun marks :: "out_line list \<Rightarrow> (string \<times> nat) list" where
  "marks [] = []"
| "marks (Marked t p ms # ls) = (p, ms) # marks ls"
| "marks (_ # ls) = marks ls"

definition unmarked :: "out_line \<Rightarrow> bool" where
  "unmarked l \<longleftrightarrow> (case l of Logged t m \<Rightarrow> \<not> Contains m ''BENCH phase='' | Printed s \<Rightarrow> \<not> Contains s ''BENCH phase='' | _ \<Rightarrow> True)"

lemma phase_step_unmarked:
  "phase_step phases (stamp t @ '' '' @ m) = phases" if "\<not> Contains m ''BENCH phase=''"
  using that Index_skip [of "''BENCH phase=''" "stamp t @ '' ''" m] by (simp add: phase_step_def Contains_def stamp_plain)

lemma phases_fold:
  assumes "\<And>l. l \<in> set ls \<Longrightarrow> line_ok l \<and> unmarked l"
  shows "foldl phase_step phases (map line_text ls) = phases ++ (map_option Finite \<circ> map_of (rev (marks ls)))"
  using assms
proof (induction ls arbitrary: phases)
  case (Cons l ls)
  then have ok: "line_ok l" "unmarked l" by simp_all
  show ?case
  proof (cases l)
    case (Marked t p ms)
    have "phase_step phases (line_text l) = phases(p \<mapsto> Finite ms)" using ok(1) unfolding Marked by (rule phase_step_mark)
    with Cons Marked show ?thesis by (auto simp: fun_eq_iff map_add_def split: option.splits)
  next
    case (Logged t m)
    then have "phase_step phases (line_text l) = phases" using ok(2) phase_step_unmarked by (simp add: unmarked_def)
    with Cons Logged show ?thesis by simp
  next
    case (Printed s)
    then have "phase_step phases (line_text l) = phases" using ok(2) by (simp add: unmarked_def phase_step_def Contains_def)
    with Cons Printed show ?thesis by simp
  qed
qed (simp add: fun_eq_iff)

lemma read_marks:
  assumes "\<And>l. l \<in> set ls \<Longrightarrow> line_ok l \<and> unmarked l"
  shows "parseBenchPhases (Some (out_text ls)) = (map_option Finite \<circ> map_of (rev (marks ls)), None)"
  using assms by (simp add: parseBenchPhases_def Scan_out_text phases_fold)

definition noon :: civil where
  "noon = \<lparr>year = 2025, month = 2, day = 28, hour = 12, minute = 0, second = 5\<rparr>"

lemma noon_ok: "stamp_ok noon"
  by (simp add: stamp_ok_def valid_civil_def noon_def daysIn_def)

lemma noon_length: "length (stamp noon) = 19"
  by (rule read_stamp [OF noon_ok])

text \<open>
  What the markers write is what the failover benchmark reads: from the output of a server with
  the markers enabled, whatever else it logs and prints in between, every phase comes back with the
  milliseconds of its last marker, and nothing else does.
\<close>

theorem marked_phases_are_read_back:
  assumes "\<And>l. l \<in> set ls \<Longrightarrow> line_ok l \<and> unmarked l"
  shows "parseBenchPhases (Some (out_text ls)) = (map_option Finite \<circ> map_of (rev (marks ls)), None)"
  using assms by (rule read_marks)

theorem marked_phases_are_read_back_witness:
  "\<exists>phases. parseBenchPhases (Some (out_text
      [Logged noon ''Promoting to leader'', Marked noon ''failover_wal_replay'' 3,
       Printed ''Snowcast server started'', Marked noon ''failover_wal_replay'' 12])) = (phases, None) \<and>
    phases ''failover_wal_replay'' = Some (Finite 12) \<and> phases ''x'' = None"
  by (subst marked_phases_are_read_back)
    (auto simp: noon_ok noon_length re_space_def unmarked_def Contains_def Mark_def enabled_def fmt_d_def newline_def is_digit_def dec_large)

subsection \<open>Times\<close>

fun logged :: "out_line \<Rightarrow> (civil \<times> string) option" where
  "logged (Logged t m) = Some (t, m)"
| "logged (Marked t p ms) = Some (t, the (Mark ''1'' p (int ms)))"
| "logged (Printed s) = None"

lemma parseLogTime_text:
  assumes "line_ok l"
  shows "parseLogTime local (line_text l) = map_option (\<lambda>(t, m). (time_of local t, m)) (logged l)"
proof (cases l)
  case (Marked t p ms)
  have "the (Mark ''1'' p (int ms)) = [] \<or> \<not> re_space (hd (the (Mark ''1'' p (int ms))))"
    by (simp add: Mark_def enabled_def re_space_def)
  with assms Marked show ?thesis using parseLogTime_line [of t _ local] by simp
qed (use assms parseLogTime_line [of _ _ local] parseLogTime_printed [of _ local] in auto)

text \<open>The first message that is logged with the text in it.\<close>

definition first_logged :: "string \<Rightarrow> out_line list \<Rightarrow> (civil \<times> string) option" where
  "first_logged sub ls = find (\<lambda>(t, m). Contains m sub) (List.map_filter logged ls)"

lemma event_scan_lines:
  assumes "\<And>l. l \<in> set ls \<Longrightarrow> line_ok l"
  shows "event_scan local sub (map line_text ls) = map_option (time_of local \<circ> fst) (first_logged sub ls)"
  using assms
proof (induction ls)
  case (Cons l ls)
  then have ok: "line_ok l" by simp
  with Cons parseLogTime_text [OF ok, of local] show ?case
    by (cases "logged l") (auto simp: first_logged_def map_filter_simps)
qed (simp add: first_logged_def map_filter_simps)

text \<open>
  The time the benchmark takes for an event is the stamp of the first line logged with the text
  of the event, to the second, whatever is printed without a stamp; the search fails exactly when
  no logged line has the text.
\<close>

lemma event_time:
  assumes "\<And>l. l \<in> set ls \<Longrightarrow> line_ok l"
  shows "findLogEventTime local (Some (out_text ls)) sub =
    (case first_logged sub ls of
       Some (t, m) \<Rightarrow> (1000000 * local (civil_seconds t), None)
     | None \<Rightarrow> (0, Some (Errorf (''event '' @ sub @ '' not found''))))"
  using event_scan_lines [where ls = ls and local = local and sub = sub] Scan_out_text [of ls] assms
  by (auto simp: findLogEventTime_def time_of_def split: option.split)

subsection \<open>The time of the recovery\<close>

text \<open>
  What the benchmark takes for the recovery: from the first line logged that the server has started
  to the last line logged that its backup is ready, and nothing when either is not logged. The
  server prints that it has started and does not log it, so the line has no stamp.
\<close>

definition recovery_us :: "(int \<Rightarrow> int) \<Rightarrow> out_line list \<Rightarrow> int option" where
  "recovery_us local ls =
     (case (first_logged ''Snowcast server started'' ls, first_logged ''Backup ready at'' (rev ls)) of
        (Some (t, _), Some (t', _)) \<Rightarrow> Some (time_of local t' - time_of local t)
      | _ \<Rightarrow> None)"

lemma first_logged_Cons:
  "first_logged sub (l # ls) =
     (case logged l of Some (t, m) \<Rightarrow> if Contains m sub then Some (t, m) else first_logged sub ls | None \<Rightarrow> first_logged sub ls)"
  by (auto simp: first_logged_def map_filter_simps split: option.split)

lemma first_logged_append:
  "first_logged sub (ls @ ls') = (case first_logged sub ls of Some x \<Rightarrow> Some x | None \<Rightarrow> first_logged sub ls')"
  by (induction ls) (auto simp: first_logged_Cons first_logged_def map_filter_simps split: option.split)

lemma first_logged_mem: "first_logged sub ls = Some (t, m) \<Longrightarrow> \<exists>l \<in> set ls. logged l = Some (t, m)"
  by (induction ls) (auto simp: first_logged_Cons first_logged_def map_filter_simps split: option.splits if_splits)

lemma first_logged_Nil [simp]: "first_logged sub [] = None"
  by (simp add: first_logged_def map_filter_simps)

lemma recover_scan_lines:
  assumes "\<And>l. l \<in> set ls \<Longrightarrow> line_ok l" and "\<And>l t m. l \<in> set ls \<Longrightarrow> logged l = Some (t, m) \<Longrightarrow> time_of local t \<noteq> 0"
  shows "recover_scan local (map line_text ls) (a, b) =
    (if a \<noteq> 0 then a else case first_logged ''Snowcast server started'' ls of Some (t, m) \<Rightarrow> time_of local t | None \<Rightarrow> 0,
     case first_logged ''Backup ready at'' (rev ls) of Some (t, m) \<Rightarrow> time_of local t | None \<Rightarrow> b)"
  using assms
proof (induction ls arbitrary: a b)
  case (Cons l ls)
  have ok: "line_ok l" using Cons.prems(1) by simp
  have "recover_scan local (map line_text ls) (a', b') =
    (if a' \<noteq> 0 then a' else case first_logged ''Snowcast server started'' ls of Some (t, m) \<Rightarrow> time_of local t | None \<Rightarrow> 0,
     case first_logged ''Backup ready at'' (rev ls) of Some (t, m) \<Rightarrow> time_of local t | None \<Rightarrow> b')" for a' b'
    using Cons.prems by (intro Cons.IH) auto
  note ih = this
  show ?case
  proof (cases "logged l")
    case None
    then show ?thesis using parseLogTime_text [OF ok, of local] by (simp add: ih first_logged_Cons first_logged_append split: option.split)
  next
    case (Some x)
    obtain t m where x: "x = (t, m)" by fastforce
    have "time_of local t \<noteq> 0" using Cons.prems(2) [of l t m] Some x by simp
    with parseLogTime_text [OF ok, of local] Some x show ?thesis
      by (simp add: ih first_logged_Cons first_logged_append split: option.split)
  qed
qed simp

lemma recover_time:
  assumes "\<And>l. l \<in> set ls \<Longrightarrow> line_ok l" and "\<And>l t m. l \<in> set ls \<Longrightarrow> logged l = Some (t, m) \<Longrightarrow> time_of local t \<noteq> 0"
  shows "integratedRecoverMS local (Some (out_text ls)) =
    (case recovery_us local ls of Some us \<Rightarrow> Inr us | None \<Rightarrow> Inl (Errorf ''could not find Backup ready''))"
proof -
  have nz: "time_of local t \<noteq> 0" if "first_logged sub ls = Some (t, m) \<or> first_logged sub (rev ls) = Some (t, m)" for sub t m
    using that first_logged_mem [of sub ls t m] first_logged_mem [of sub "rev ls" t m] assms(2) by auto
  then show ?thesis
    using Scan_out_text [OF assms(1)] recover_scan_lines [where ls = ls and local = local and a = 0 and b = 0, OF assms]
    by (auto simp: integratedRecoverMS_def recovery_us_def split: option.split)
qed

end
