(* ===== verification/Bench_Commands.thy ===== *)
theory Bench_Commands
  imports Bench_Pool Bench_Log_Props
begin

section \<open>The commands of the benchmark program (setup.go, failover.go)\<close>

text \<open>
  The measurement of the replay and the measurement of a failover, from their flags to their reports.
  The logs they read are a map from paths to text. Times are in nanoseconds and the differences in
  the reports in microseconds, which the code divides by 1000 for milliseconds; the wall clock is
  taken to agree with the monotonic one.
\<close>

subsection \<open>Replay at start-up (setup.go)\<close>









lemma noon_seconds: "civil_seconds noon = 63876340805"
  by (simp add: civil_seconds_def noon_def daysIn_def isLeap_def upt_rec)



subsection \<open>A failover (failover.go)\<close>

text \<open>\<open>time.Duration\<close> saturates at 64 bits and \<open>Microseconds\<close> cuts towards zero.\<close>

definition time_Sub :: "int \<Rightarrow> int \<Rightarrow> int" where
  "time_Sub b a = max (- (2 ^ 63)) (min (2 ^ 63 - 1) (b - a))"

definition msBetween :: "int \<Rightarrow> int \<Rightarrow> int" where
  "msBetween a b = (let d = time_Sub b a in if d < 0 then - (- d div 1000) else d div 1000)"

definition failover_flags :: flag_set where
  "failover_flags =
     [''primary-pid'' \<mapsto> Int64Val 0, ''preload-rps'' \<mapsto> Int64Val 1000, ''preload-duration'' \<mapsto> StringVal ''15s'',
      ''port-base'' \<mapsto> Int64Val 50000, ''control-addr'' \<mapsto> StringVal ''127.0.0.1:16800'',
      ''repl-addr'' \<mapsto> StringVal ''127.0.0.1:16801'', ''etcd-endpoints'' \<mapsto> StringVal ''127.0.0.1:2379'',
      ''etcd-key'' \<mapsto> StringVal DefaultKey, ''backup-log'' \<mapsto> StringVal ''/tmp/snowcast-bench-backup.log'',
      ''timeout'' \<mapsto> StringVal ''30s'']"

definition primaryPid :: "int \<Rightarrow> string \<Rightarrow> error + int" where
  "primaryPid flag env =
     (let pid = (if flag = 0 \<and> env \<noteq> '''' then (case Atoi env of Inl err \<Rightarrow> Inl (Wrapf ''invalid PRIMARY_PID'' err) | r \<Rightarrow> r)
                 else Inr flag) in
      if pid = Inr 0 then Inl (Errorf ''primary PID required (--primary-pid or PRIMARY_PID)'') else pid)"

text \<open>
  The two waits, over the rounds their deadline lets them start: the state of etcd at the read, or
  the outcome of the dial and of \<open>Health\<close>, and the time afterwards. They return the zero time when
  the rounds are over.
\<close>

fun wait_key_gone :: "'e etcd \<Rightarrow> string \<Rightarrow> ('e \<times> int) list \<Rightarrow> int" where
  "wait_key_gone E key [] = 0"
| "wait_key_gone E key ((e, t) # rounds) =
     (case fst (GetPrimary E key e) of Inr None \<Rightarrow> t | _ \<Rightarrow> wait_key_gone E key rounds)"

fun wait_ready :: "(error option \<times> (error + HealthResponse) \<times> int) list \<Rightarrow> int" where
  "wait_ready [] = 0"
| "wait_ready ((dial, health, t) # rounds) =
     (case dial of
        Some err \<Rightarrow> wait_ready rounds
      | None \<Rightarrow> (case health of Inr resp \<Rightarrow> if health_Ok resp then t else wait_ready rounds | Inl err \<Rightarrow> wait_ready rounds))"

record failoverResult =
  TotalFailoverMS :: int
  LeaseExpiryWaitMS :: int
  DetectAndAcquireMS :: int
  WalReplayMS :: f64
  GrpcStartupMS :: f64
  PromoteTotalMS :: f64
  PreloadOps :: nat
  BenchPhases :: "string \<rightharpoonup> f64"

record 'e failover_env =
  pid_env :: string
  find_process :: "error option"
  sigkill :: "error option"
  kill_time :: int
  etcd_client :: "error option"
  key_rounds :: "('e \<times> int) list"
  ready_rounds :: "(error option \<times> (error + HealthResponse) \<times> int) list"
  log_files :: "string \<Rightarrow> string option"

definition detectAndAcquire :: "int \<Rightarrow> int \<Rightarrow> int" where
  "detectAndAcquire tKeyGone tPromoteStart =
     (if tPromoteStart \<noteq> 0 \<and> tPromoteStart > tKeyGone then msBetween tKeyGone tPromoteStart
      else if tPromoteStart \<noteq> 0 then
        (let ms = msBetween tKeyGone tPromoteStart in if ms < 0 then 0 else ms)
      else 0)"

definition promoteStart :: "(int \<Rightarrow> int) \<Rightarrow> string option \<Rightarrow> int" where
  "promoteStart local log =
     (let t = fst (findLogEventTime local log ''Promoting to leader'') in
      1000 * (if t = 0 then fst (findLogEventTime local log ''failover_promote_start'') else t))"

definition failover_report ::
  "(int \<Rightarrow> int) \<Rightarrow> string option \<Rightarrow> int \<Rightarrow> int \<Rightarrow> int \<Rightarrow> nat \<Rightarrow> failoverResult" where
  "failover_report local log tKill tKeyGone tReady ops =
     (case parseBenchPhases log of (phases, err) \<Rightarrow>
      let ok = (err = None);
          phase = (\<lambda>name. case phases name of Some v \<Rightarrow> if ok then v else Finite 0 | None \<Rightarrow> Finite 0) in
      \<lparr>TotalFailoverMS = msBetween tKill tReady, LeaseExpiryWaitMS = msBetween tKill tKeyGone,
       DetectAndAcquireMS = detectAndAcquire tKeyGone (promoteStart local log),
       WalReplayMS = phase ''failover_wal_replay'', GrpcStartupMS = phase ''failover_grpc_startup'',
       PromoteTotalMS = phase ''failover_promote_total'', PreloadOps = ops,
       BenchPhases = (if ok then phases else Map.empty)\<rparr>)"

definition runFailover ::
  "(string \<Rightarrow> error + int) \<Rightarrow> (int \<Rightarrow> int) \<Rightarrow> 'e etcd \<Rightarrow> 'e failover_env \<Rightarrow> 'w control_client \<Rightarrow> error option \<Rightarrow> error option \<Rightarrow>
    ('w \<Rightarrow> (error + PingResponse) \<times> 'w) \<Rightarrow> int list \<Rightarrow> string list \<Rightarrow> 'w \<Rightarrow>
    ((load_error + failoverResult) option \<times> 'w) may_panic" where
  "runFailover dur local E env client ctl repl ping lats args w =
     (case flag_Parse dur failover_flags args of
        FlagHelp \<Rightarrow> Some (Some (Inl ExitHelp), w)
      | FlagError msg \<Rightarrow> Some (Some (Inl (Exit2 msg)), w)
      | Parsed fs _ \<Rightarrow>
     (case primaryPid (flag_int fs ''primary-pid'') (pid_env env) of
        Inl err \<Rightarrow> Some (Some (Inl (LoadErr err)), w)
      | Inr pid \<Rightarrow> do {
          (preload, w1) \<leftarrow> runReplicationLoad dur client ctl repl ping lats []
            (preloadArgs (flag_int fs ''preload-rps'') (flag_string fs ''preload-duration'') (flag_string fs ''control-addr'')
              (flag_string fs ''repl-addr'') (flag_int fs ''port-base'')) w;
          Some (case preload of
            None \<Rightarrow> None
          | Some (Inl (LoadErr err)) \<Rightarrow> Some (Inl (LoadErr (Wrapf ''preload'' err)))
          | Some (Inl err) \<Rightarrow> Some (Inl err)
          | Some (Inr load) \<Rightarrow>
         Some (case find_process env of
            Some err \<Rightarrow> Inl (LoadErr err)
          | None \<Rightarrow>
         (case sigkill env of
            Some err \<Rightarrow> Inl (LoadErr (Wrapf ''kill primary'' err))
          | None \<Rightarrow>
         (case etcd_client env of
            Some err \<Rightarrow> Inl (LoadErr err)
          | None \<Rightarrow>
              (let tKeyGone = wait_key_gone E (flag_string fs ''etcd-key'') (key_rounds env);
                   tReady = wait_ready (ready_rounds env) in
               if tKeyGone = 0 then Inl (LoadErr (Errorf ''etcd key still held''))
               else if tReady = 0 then Inl (LoadErr (Errorf ''backup did not become ready''))
               else Inr (failover_report local (log_files env (flag_string fs ''backup-log'')) (kill_time env) tKeyGone tReady
                      (CompletedOps load)))))), w1)
        }))"

lemma msBetween_mono: "a \<le> b \<Longrightarrow> b \<le> c \<Longrightarrow> 0 \<le> msBetween a b \<and> msBetween a b \<le> msBetween a c"
  by (auto simp: msBetween_def time_Sub_def Let_def intro!: zdiv_mono1)

lemma wait_key_gone_time: "wait_key_gone E key rounds \<noteq> 0 \<Longrightarrow> \<exists>e. (e, wait_key_gone E key rounds) \<in> set rounds"
  by (induction E key rounds rule: wait_key_gone.induct) (auto split: sum.splits option.splits)

lemma wait_ready_time: "wait_ready rounds \<noteq> 0 \<Longrightarrow> \<exists>d h. (d, h, wait_ready rounds) \<in> set rounds"
  by (induction rounds rule: wait_ready.induct) (auto split: sum.splits option.splits if_splits)

lemma detectAndAcquire_clamped: "t \<noteq> 0 \<Longrightarrow> detectAndAcquire g t = max 0 (msBetween g t)"
  using msBetween_mono [of g t t] by (auto simp: detectAndAcquire_def Let_def)

lemma runFailover_report:
  assumes "runFailover dur local E env client ctl repl ping lats args w = Some (Some (Inr r), w')"
    and "\<And>p. log_files env p = log"
  obtains e g d h t ops where "(e, g) \<in> set (key_rounds env)" "(d, h, t) \<in> set (ready_rounds env)"
    "r = failover_report local log (kill_time env) g t ops"
proof -
  from assms(1) obtain key ops where
    g: "wait_key_gone E key (key_rounds env) \<noteq> 0" and t: "wait_ready (ready_rounds env) \<noteq> 0"
    and r: "r = failover_report local log (kill_time env) (wait_key_gone E key (key_rounds env)) (wait_ready (ready_rounds env)) ops"
    by (auto simp: runFailover_def Let_def assms(2)
        split: flag_outcome.splits sum.splits bind_splits prod.splits option.splits load_error.splits if_splits)
  from wait_key_gone_time [OF g] wait_ready_time [OF t] that r show ?thesis by metis
qed

text \<open>
  C34: The report of a failover, read from the output of the backup: the phases are those of the
  backup's last markers, the waits are ordered when the clock is, and the time until the backup
  starts to take over is the difference between the stamp of that line and the time the key was
  seen free, cut off at zero. A stamp has no fraction, so a takeover in the second in which the key
  is seen free is reported as no time at all.
\<close>

theorem failover_report_is_read_from_the_backup:
  assumes "runFailover dur local E env client ctl repl ping lats args w = Some (Some (Inr r), w')"
    and "\<And>p. log_files env p = Some (out_text ls)" and "\<And>l. l \<in> set ls \<Longrightarrow> line_ok l \<and> unmarked l"
    and "\<And>e g d h t. (e, g) \<in> set (key_rounds env) \<Longrightarrow> (d, h, t) \<in> set (ready_rounds env) \<Longrightarrow> kill_time env \<le> g \<and> g \<le> t"
    and "first_logged ''Promoting to leader'' ls = Some (c, m)" and "local (civil_seconds c) \<noteq> 0"
  shows "(\<exists>g \<in> snd ` set (key_rounds env).
      LeaseExpiryWaitMS r = msBetween (kill_time env) g \<and>
      DetectAndAcquireMS r = max 0 (msBetween g (1000000000 * local (civil_seconds c)))) \<and>
    0 \<le> LeaseExpiryWaitMS r \<and> LeaseExpiryWaitMS r \<le> TotalFailoverMS r \<and>
    BenchPhases r = map_option Finite \<circ> map_of (rev (marks ls)) \<and>
    WalReplayMS r = (case map_of (rev (marks ls)) ''failover_wal_replay'' of Some ms \<Rightarrow> Finite ms | None \<Rightarrow> Finite 0)"
proof -
  from runFailover_report [OF assms(1,2)] obtain e g d h t ops where
    r: "(e, g) \<in> set (key_rounds env)" "(d, h, t) \<in> set (ready_rounds env)"
      "r = failover_report local (Some (out_text ls)) (kill_time env) g t ops" .
  note clock = assms(4) [OF r(1,2)]
  have ok: "\<And>l. l \<in> set ls \<Longrightarrow> line_ok l" using assms(3) by blast
  have "promoteStart local (Some (out_text ls)) = 1000000000 * local (civil_seconds c)"
    using event_time [OF ok, where local = local and sub = "''Promoting to leader''"] assms(5,6)
    by (simp add: promoteStart_def Let_def)
  moreover from this have "detectAndAcquire g (promoteStart local (Some (out_text ls))) =
      max 0 (msBetween g (1000000000 * local (civil_seconds c)))"
    using assms(6) detectAndAcquire_clamped by simp
  moreover have "parseBenchPhases (Some (out_text ls)) = (map_option Finite \<circ> map_of (rev (marks ls)), None)"
    using assms(3) by (rule read_marks)
  ultimately have f: "LeaseExpiryWaitMS r = msBetween (kill_time env) g" "TotalFailoverMS r = msBetween (kill_time env) t"
    "DetectAndAcquireMS r = max 0 (msBetween g (1000000000 * local (civil_seconds c)))"
    "BenchPhases r = map_option Finite \<circ> map_of (rev (marks ls))"
    "WalReplayMS r = (case map_of (rev (marks ls)) ''failover_wal_replay'' of Some ms \<Rightarrow> Finite ms | None \<Rightarrow> Finite 0)"
    by (simp_all add: r(3) failover_report_def Let_def split: option.split)
  have g: "g \<in> snd ` set (key_rounds env)" using r(1) by force
  from msBetween_mono [of "kill_time env" g t] clock show ?thesis
    by (intro conjI bexI [OF _ g]) (simp_all add: f)
qed

definition quiet_client :: "unit control_client" where
  "quiet_client =
     \<lparr>stub_Handshake = (\<lambda>_ w. (Inr \<lparr>welcome_NumStations = 7\<rparr>, w)), stub_SetStation = (\<lambda>_ w. (Inl EOF, w)),
      stub_Disconnect = (\<lambda>_ w. w)\<rparr>"

definition noon_output :: "out_line list" where
  "noon_output = [Logged noon ''Promoting to leader on port 16800'', Marked noon ''failover_wal_replay'' 12]"

lemma noon_output_ok: "l \<in> set noon_output \<Longrightarrow> line_ok l \<and> unmarked l"
  by (auto simp: noon_output_def noon_ok noon_length re_space_def unmarked_def Contains_def Mark_def enabled_def fmt_d_def
      newline_def dec_large)

definition noon_failover :: "mem_etcd failover_env" where
  "noon_failover =
     \<lparr>pid_env = ''42'', find_process = None, sigkill = None, kill_time = 63876340800000000000, etcd_client = None,
      key_rounds = [((0, []), 63876340805200000000)],
      ready_rounds = [(None, Inr \<lparr>health_Ok = True\<rparr>, 63876340806000000000)], log_files = (\<lambda>_. Some (out_text noon_output))\<rparr>"

theorem failover_report_is_read_from_the_backup_witness:
  "\<exists>r. runFailover (\<lambda>_. Inl EOF) (\<lambda>s. s) mem_etcd noon_failover quiet_client None None
      (\<lambda>w. (Inr \<lparr>LastWalSeq = 0\<rparr>, w)) [] [] () = Some (Some (Inr r), ()) \<and>
    LeaseExpiryWaitMS r = 5200000 \<and> DetectAndAcquireMS r = 0 \<and> WalReplayMS r = Finite 12"
proof -
  have "fmt_d 42 = ''42''" by code_simp
  with Atoi_fmt [of 42] have pid: "primaryPid 0 ''42'' = Inr 42" by (simp add: primaryPid_def)
  have load: "parseLoadConfig dur (preloadArgs 1000 ''15s'' ''127.0.0.1:16800'' ''127.0.0.1:16801'' 50000) =
    Inr \<lparr>rps = 1000, duration = parseDuration dur ''15s'' 30000000000, controlAddr = ''127.0.0.1:16800'',
      replAddr = ''127.0.0.1:16801'', numStations = 7, portBase = 50000, mode = ''sequential'', concurrency = 0\<rparr>" for dur
    by (rule preload_args_roundtrip) simp_all
  obtain r where r: "runFailover (\<lambda>_. Inl EOF) (\<lambda>s. s) mem_etcd noon_failover quiet_client None None
      (\<lambda>w. (Inr \<lparr>LastWalSeq = 0\<rparr>, w)) [] [] () = Some (Some (Inr r), ())"
    by (simp add: runFailover_def failover_flags_def flag_int_def flag_string_def noon_failover_def pid runReplicationLoad_def
        load executeLoad_def load_report_def worker_ports_def effective_concurrency_def quiet_client_def backupLastSeq_def runSequentialLoad_def
        summarizeLatencies_def mem_etcd_def GetPrimary_def Let_def)
  have "first_logged ''Promoting to leader'' noon_output = Some (noon, ''Promoting to leader on port 16800'')"
    by (simp add: noon_output_def first_logged_def map_filter_simps Contains_def)
  from failover_report_is_read_from_the_backup [OF r _ noon_output_ok _ this] r show ?thesis
    by (auto simp: noon_failover_def noon_seconds noon_output_def msBetween_def time_Sub_def)
qed

end
