(* ===== verification/Bench_Sweep.thy ===== *)
theory Bench_Sweep
  imports Bench_Pool
begin

section \<open>The sweep over concurrency levels (load.go)\<close>

text \<open>
  A sequential load for the baseline, then a concurrent load per level, and the first level whose
  95th percentile is beyond the threshold. Latencies are microseconds; the code compares them as
  doubles of milliseconds, and so does the model: a double is an integer over a power of two, and
  the quotient by 1000 and the product with the threshold are rounded to 53 bits. A rounding below
  the normal range cannot change a comparison with a latency, which is 0 or at least a thousandth.
  The command starts from its parsed flags, since one of them is a double.
\<close>

subsection \<open>Latencies as doubles\<close>

type_synonym double = "int \<times> nat"

definition dbl_less :: "double \<Rightarrow> double \<Rightarrow> bool" where
  "dbl_less x y \<longleftrightarrow> fst x * 2 ^ snd y < fst y * 2 ^ snd x"

definition dbl_mult :: "double \<Rightarrow> double \<Rightarrow> double" where
  "dbl_mult x y = (sgn (fst x * fst y) * int (round53 (nat \<bar>fst x * fst y\<bar>)), snd x + snd y)"

text \<open>\<open>float64(us) / 1000.0\<close> for a latency that fits in 53 bits.\<close>

definition millis :: "int \<Rightarrow> double" where
  "millis us =
     (let n = nat us * 2 ^ 64; s = excess (n div 1000); d = 1000 * 2 ^ s; q = n div d; r = n mod d in
      (int ((if 2 * r < d \<or> 2 * r = d \<and> even q then q else Suc q) * 2 ^ s), 64))"

subsection \<open>The sweep\<close>

record sweepFlags =
  swp_rps :: int
  swp_duration :: string
  swp_levels :: string
  swp_threshold :: double
  swp_controlAddr :: string
  swp_replAddr :: string
  swp_portBase :: int

record concurrencyLevelResult =
  lvl_Concurrency :: int
  lvl_TargetRPS :: int
  lvl_LatencyMS :: "string \<rightharpoonup> int"
  lvl_Degraded :: bool

record concurrencySweepResult =
  swp_TargetRPS :: int
  swp_BaselineLatencyMS :: "string \<rightharpoonup> int"
  swp_DegradeThreshold :: double
  swp_DegradationAtConcurrency :: int
  swp_Levels :: "concurrencyLevelResult list"

text \<open>What one load of the sweep meets: the two dials, the measured latencies, the schedule.\<close>

record load_run =
  run_ctl :: "error option"
  run_repl :: "error option"
  run_lats :: "int list"
  run_events :: "pool_event list"

definition p95 :: "(string \<rightharpoonup> int) \<Rightarrow> int" where
  "p95 m = (case m ''p95'' of Some us \<Rightarrow> us | None \<Rightarrow> 0)"

definition sweep_config :: "sweepFlags \<Rightarrow> int \<Rightarrow> int \<Rightarrow> string \<Rightarrow> int \<Rightarrow> loadConfig" where
  "sweep_config fl dur base md level =
     \<lparr>rps = swp_rps fl, duration = dur, controlAddr = swp_controlAddr fl, replAddr = swp_replAddr fl, numStations = 7,
      portBase = base, mode = md, concurrency = level\<rparr>"

definition is_degraded :: "int \<Rightarrow> double \<Rightarrow> int \<Rightarrow> bool" where
  "is_degraded baselineP95 threshold us \<longleftrightarrow>
     dbl_less (0, 0) (millis baselineP95) \<and> dbl_less (dbl_mult (millis baselineP95) threshold) (millis us)"

fun sweep_levels ::
  "'w control_client \<Rightarrow> ('w \<Rightarrow> (error + PingResponse) \<times> 'w) \<Rightarrow> sweepFlags \<Rightarrow> int \<Rightarrow> int \<Rightarrow> load_run stream \<Rightarrow> nat \<Rightarrow> int list \<Rightarrow>
    int \<Rightarrow> concurrencyLevelResult list \<Rightarrow> 'w \<Rightarrow>
    ((error + int \<times> concurrencyLevelResult list) option \<times> 'w) may_panic" where
  "sweep_levels client ping fl dur baselineP95 runs i [] degradationAt out w = Some (Some (Inr (degradationAt, out)), w)"
| "sweep_levels client ping fl dur baselineP95 runs i (level # levels) degradationAt out w =
     do {
       (res, w1) \<leftarrow> executeLoad client (run_ctl (shd runs)) (run_repl (shd runs)) ping (run_lats (shd runs)) (run_events (shd runs))
                      (sweep_config fl dur (swp_portBase fl + int i * 1000) ''concurrent'' level) w;
       (case res of
          None \<Rightarrow> Some (None, w1)
        | Some (Inl err) \<Rightarrow> Some (Some (Inl (Wrapf (''concurrency '' @ fmt_d level) err)), w1)
        | Some (Inr load) \<Rightarrow>
            (let degraded = is_degraded baselineP95 (swp_threshold fl) (p95 (LatencyMS load));
                 at = (if degraded \<and> degradationAt = 0 then level else degradationAt) in
             sweep_levels client ping fl dur baselineP95 (stl runs) (Suc i) levels at
               (out @ [\<lparr>lvl_Concurrency = level, lvl_TargetRPS = TargetRPS load, lvl_LatencyMS = LatencyMS load,
                        lvl_Degraded = degraded\<rparr>]) w1))
     }"

definition runConcurrencySweep ::
  "(string \<Rightarrow> error + int) \<Rightarrow> 'w control_client \<Rightarrow> ('w \<Rightarrow> (error + PingResponse) \<times> 'w) \<Rightarrow> load_run stream \<Rightarrow> sweepFlags \<Rightarrow> 'w \<Rightarrow>
    ((error + concurrencySweepResult) option \<times> 'w) may_panic" where
  "runConcurrencySweep durp client ping runs fl w =
     (let dur = parseDuration durp (swp_duration fl) 10000000000;
          levels = parseIntList (swp_levels fl) [1, 2, 4, 8, 16, 32, 64, 128, 256] in
      if levels = [] then Some (Some (Inl (Errorf ''no concurrency levels'')), w)
      else do {
        (base, w1) \<leftarrow> executeLoad client (run_ctl (shd runs)) (run_repl (shd runs)) ping (run_lats (shd runs)) (run_events (shd runs))
                        (sweep_config fl dur (swp_portBase fl) ''sequential'' 1) w;
        (case base of
           None \<Rightarrow> Some (None, w1)
         | Some (Inl err) \<Rightarrow> Some (Some (Inl (Wrapf ''baseline'' err)), w1)
         | Some (Inr baseline) \<Rightarrow> do {
             (r, w2) \<leftarrow> sweep_levels client ping fl dur (p95 (LatencyMS baseline)) (stl runs) 0 levels 0 [] w1;
             Some (case r of
                     None \<Rightarrow> None
                   | Some (Inl err) \<Rightarrow> Some (Inl err)
                   | Some (Inr (at, out)) \<Rightarrow>
                       Some (Inr \<lparr>swp_TargetRPS = swp_rps fl, swp_BaselineLatencyMS = LatencyMS baseline,
                         swp_DegradeThreshold = swp_threshold fl, swp_DegradationAtConcurrency = at, swp_Levels = out\<rparr>), w2)
           })
      })"

subsection \<open>What a sweep reports\<close>

definition first_degraded :: "concurrencyLevelResult list \<Rightarrow> int" where
  "first_degraded ls =
     (case find (\<lambda>l. lvl_Degraded l \<and> lvl_Concurrency l \<noteq> 0) ls of Some l \<Rightarrow> lvl_Concurrency l | None \<Rightarrow> 0)"

lemma sweep_levels_report:
  "sweep_levels client ping fl dur b runs i levels at out w = Some (Some (Inr (at', out')), w') \<Longrightarrow>
   \<exists>new. out' = out @ new \<and> map lvl_Concurrency new = levels \<and>
     (\<forall>l \<in> set new. lvl_Degraded l = is_degraded b (swp_threshold fl) (p95 (lvl_LatencyMS l))) \<and>
     at' = (if at \<noteq> 0 then at else first_degraded new)"
proof (induction levels arbitrary: runs i at out w)
  case Nil
  then show ?case by (auto simp: first_degraded_def)
next
  case (Cons level levels)
  from Cons.prems obtain load w1 where
    "executeLoad client (run_ctl (shd runs)) (run_repl (shd runs)) ping (run_lats (shd runs)) (run_events (shd runs))
      (sweep_config fl dur (swp_portBase fl + int i * 1000) ''concurrent'' level) w = Some (Some (Inr load), w1)"
    by (auto simp: Let_def split: bind_splits prod.splits option.splits sum.splits)
  with Cons.prems have run: "sweep_levels client ping fl dur b (stl runs) (Suc i) levels
      (if is_degraded b (swp_threshold fl) (p95 (LatencyMS load)) \<and> at = 0 then level else at)
      (out @ [\<lparr>lvl_Concurrency = level, lvl_TargetRPS = TargetRPS load, lvl_LatencyMS = LatencyMS load,
        lvl_Degraded = is_degraded b (swp_threshold fl) (p95 (LatencyMS load))\<rparr>]) w1 = Some (Some (Inr (at', out')), w')"
    by (simp add: Let_def)
  from Cons.IH [OF run] obtain new where
    new: "out' = (out @ [\<lparr>lvl_Concurrency = level, lvl_TargetRPS = TargetRPS load, lvl_LatencyMS = LatencyMS load,
        lvl_Degraded = is_degraded b (swp_threshold fl) (p95 (LatencyMS load))\<rparr>]) @ new"
      "map lvl_Concurrency new = levels"
      "\<forall>l \<in> set new. lvl_Degraded l = is_degraded b (swp_threshold fl) (p95 (lvl_LatencyMS l))"
      "at' = (if (if is_degraded b (swp_threshold fl) (p95 (LatencyMS load)) \<and> at = 0 then level else at) \<noteq> 0
        then (if is_degraded b (swp_threshold fl) (p95 (LatencyMS load)) \<and> at = 0 then level else at)
        else first_degraded new)" by blast
  then show ?case by (auto simp: first_degraded_def)
qed

text \<open>
  The report of a sweep has one result for every level it was given, in their order, marks a
  level exactly when its 95th percentile is beyond the threshold times that of the sequential
  baseline, and names the first marked level, 0 when there is none; a level of 0, which stands for
  the default, is never named.
\<close>

theorem sweep_names_first_degraded_level:
  assumes "runConcurrencySweep dur client ping runs fl w = Some (Some (Inr r), w')"
  shows "map lvl_Concurrency (swp_Levels r) = parseIntList (swp_levels fl) [1, 2, 4, 8, 16, 32, 64, 128, 256] \<and>
    list_all (\<lambda>l. lvl_Degraded l =
      is_degraded (p95 (swp_BaselineLatencyMS r)) (swp_threshold fl) (p95 (lvl_LatencyMS l))) (swp_Levels r) \<and>
    swp_DegradationAtConcurrency r =
      (case find (\<lambda>l. lvl_Degraded l \<and> lvl_Concurrency l \<noteq> 0) (swp_Levels r) of Some l \<Rightarrow> lvl_Concurrency l | None \<Rightarrow> 0)"
proof -
  let ?levels = "parseIntList (swp_levels fl) [1, 2, 4, 8, 16, 32, 64, 128, 256]"
  from assms obtain lat w1 at out where
    r: "r = \<lparr>swp_TargetRPS = swp_rps fl, swp_BaselineLatencyMS = lat, swp_DegradeThreshold = swp_threshold fl,
        swp_DegradationAtConcurrency = at, swp_Levels = out\<rparr>"
    and run: "sweep_levels client ping fl (parseDuration dur (swp_duration fl) 10000000000) (p95 lat) (stl runs) 0
        ?levels 0 [] w1 = Some (Some (Inr (at, out)), w')"
    by (auto simp: runConcurrencySweep_def Let_def split: if_splits bind_splits prod.splits option.splits sum.splits)
  from sweep_levels_report [OF run] show ?thesis by (auto simp: r first_degraded_def list_all_iff)
qed

definition slow_client :: "unit control_client" where
  "slow_client =
     \<lparr>stub_Handshake = (\<lambda>_ w. (Inr \<lparr>welcome_NumStations = 7\<rparr>, w)),
      stub_SetStation = (\<lambda>_ w. (Inr \<lparr>in_events = [ServerEvent_Announce \<lparr>SongName = ''a''\<rparr>], ending = StaysOpen\<rparr>, w)),
      stub_Disconnect = (\<lambda>_ w. w)\<rparr>"

theorem sweep_names_first_degraded_level_witness:
  "\<exists>r. runConcurrencySweep (\<lambda>_. Inl EOF) slow_client (\<lambda>w. (Inr \<lparr>LastWalSeq = 0\<rparr>, w))
      (sconst \<lparr>run_ctl = None, run_repl = None, run_lats = [1000],
        run_events = [Tick, StopAt, Go 0 1000, Go 0 1501, Go 0 0, Go 0 0, Go 0 0, Go 0 0]\<rparr>)
      \<lparr>swp_rps = 500, swp_duration = '''', swp_levels = ''2'', swp_threshold = (3, 1), swp_controlAddr = ''c'', swp_replAddr = ''r'',
       swp_portBase = 30000\<rparr> () = Some (Some (Inr r), ()) \<and> swp_DegradationAtConcurrency r = 2"
proof -
  have "fmt_d 2 = ''2''" by code_simp
  with parseIntList_print [of "[2]"] have levels: "parseIntList ''2'' d = [2]" for d by simp
  let ?runs = "sconst \<lparr>run_ctl = None, run_repl = None, run_lats = [1000],
        run_events = [Tick, StopAt, Go 0 1000, Go 0 1501, Go 0 0, Go 0 0, Go 0 0, Go 0 0]\<rparr>"
  have "millis 1000 = (18446744073709551616, 64)" "millis 1501 = (27688562854638034944, 64)"
    by (simp_all add: millis_def excess_numeral)
  then have deg: "is_degraded 1000 (3, 1) 1501"
    by (simp add: is_degraded_def dbl_less_def dbl_mult_def round53_def excess_numeral)
  obtain r where r: "runConcurrencySweep (\<lambda>_. Inl EOF) slow_client (\<lambda>w. (Inr \<lparr>LastWalSeq = 0\<rparr>, w)) ?runs
      \<lparr>swp_rps = 500, swp_duration = '''', swp_levels = ''2'', swp_threshold = (3, 1), swp_controlAddr = ''c'', swp_replAddr = ''r'',
       swp_portBase = 30000\<rparr> () = Some (Some (Inr r), ())"
    "map lvl_Degraded (swp_Levels r) = [True]"
    by (simp add: runConcurrencySweep_def levels sweep_config_def executeLoad_def load_report_def worker_ports_def effective_concurrency_def
        slow_client_def backupLastSeq_def runSequentialLoad_def runConcurrentLoad_def doSetStation_def start_pool_def make_chan_def
        dispatch_tick_def chan_recv_def go_step_def summary_ranks p95_def upt_rec Let_def deg [simplified])
  from sweep_names_first_degraded_level [OF r(1)] r show ?thesis by (auto simp: levels)
qed

end
