(* ===== verification/Commands_Props.thy ===== *)
theory Commands_Props
  imports Commands
begin

section \<open>Properties of the commands\<close>

text \<open>
  The default logs of nodes with different ports are different files, a configuration can be given
  on the command line, and the server command brings up a synchronised pair.
\<close>

subsection \<open>Default paths\<close>

lemma digits_plain:
  "CHR ''b'' \<notin> set (dec n)" "CHR ''/'' \<notin> set (dec n)"
  by (auto dest: dec_digits simp: is_digit_def)

lemma default_names_plain:
  "plain_elem (''snowcast-'' @ dec p @ ''.wal'')" "plain_elem (''snowcast-backup-'' @ dec p @ ''.wal'')"
  by (simp_all add: plain_elem_def digits_plain)

text \<open>
  Nodes that take the default path of their log never share it when their ports differ, and the
  log of a server is never that of a backup, whatever the directory of temporary files.
\<close>

theorem default_logs_are_distinct:
  "(DefaultWalPath tmp (dec p) = DefaultWalPath tmp (dec q) \<longleftrightarrow> p = q) \<and>
   (DefaultBackupWalPath tmp (dec p) = DefaultBackupWalPath tmp (dec q) \<longleftrightarrow> p = q) \<and>
   DefaultWalPath tmp (dec p) \<noteq> DefaultBackupWalPath tmp (dec q)"
proof -
  have "dec p @ ''.wal'' \<noteq> ''backup-'' @ dec q @ ''.wal''"
    using digits_plain(1) [of p] by (cases "dec p") auto
  then show ?thesis
    unfolding DefaultWalPath_def DefaultBackupWalPath_def
      filepath_Join_inject [OF default_names_plain(1) default_names_plain(1)]
      filepath_Join_inject [OF default_names_plain(2) default_names_plain(2)]
      filepath_Join_inject [OF default_names_plain(1) default_names_plain(2)] by simp
qed

subsection \<open>Command lines\<close>

text \<open>The command line that gives a configuration.\<close>

definition server_args :: "Config \<Rightarrow> string list" where
  "server_args c =
     [flag_arg ''etcd-endpoints'' (EtcdEndpoints c), flag_arg ''etcd-key'' (EtcdKey c),
      flag_arg ''lease-ttl'' (fmt_d (LeaseTTL c)), flag_arg ''backup-addr'' (BackupAddr c),
      flag_arg ''repl-port'' (ReplPort c), flag_arg ''wal'' (WalPath c), ''--'', ClientPort c] @ Files c"

lemma plain_names:
  "plain_name ''etcd-endpoints''" "plain_name ''etcd-key''" "plain_name ''lease-ttl''" "plain_name ''backup-addr''"
  "plain_name ''repl-port''" "plain_name ''wal''"
  by (simp_all add: plain_name_def bad_name_def)

text \<open>What is given is read back; an empty path of the log becomes the default one.\<close>

lemma server_args_read_back:
  assumes "EtcdEndpoints c \<noteq> ''''" and "BackupAddr c \<noteq> ''''" and "ReplPort c \<noteq> ''''" and "Files c \<noteq> []"
    and "- (2 ^ 63) \<le> LeaseTTL c" and "LeaseTTL c < 2 ^ 63" and "LeasePoll c = 1000000000"
  shows "server_config tmp dur (server_args c) =
    Inr (if WalPath c = '''' then c\<lparr>WalPath := DefaultWalPath tmp (ClientPort c)\<rparr> else c)"
proof -
  have "flag_Parse dur server_flags (server_args c) = Parsed (server_flags(
      ''etcd-endpoints'' \<mapsto> StringVal (EtcdEndpoints c), ''etcd-key'' \<mapsto> StringVal (EtcdKey c),
      ''lease-ttl'' \<mapsto> Int64Val (LeaseTTL c), ''backup-addr'' \<mapsto> StringVal (BackupAddr c),
      ''repl-port'' \<mapsto> StringVal (ReplPort c), ''wal'' \<mapsto> StringVal (WalPath c))) (ClientPort c # Files c)"
    using assms(5,6)
    by (simp add: server_args_def server_flags_def flag_Parse_string flag_Parse_int plain_names del: flag_Parse.simps)
       (simp add: flag_Parse_end)
  with assms show ?thesis
    by (cases "Files c"; cases c) (auto simp: server_config_def flag_string_def flag_int_def Let_def)
qed

definition server_kinds :: "string \<rightharpoonup> flag_kind" where
  "server_kinds = map_option kind \<circ> server_flags"

lemma server_flags_well_kinded: "well_kinded server_kinds server_flags"
  by (auto simp: well_kinded_def server_kinds_def server_flags_def split: if_splits)

lemma server_lease_range:
  assumes "flag_Parse dur server_flags argv = Parsed fs args"
  shows "- (2 ^ 63) \<le> flag_int fs ''lease-ttl'' \<and> flag_int fs ''lease-ttl'' < 2 ^ 63"
proof -
  from flag_Parse_well_kinded [OF assms server_flags_well_kinded]
  have "map_option kind (fs ''lease-ttl'') = Some Int64Kind"
    and "\<And>i. fs ''lease-ttl'' = Some (Int64Val i) \<Longrightarrow> - (2 ^ 63) \<le> i \<and> i < 2 ^ 63"
    by (simp_all add: well_kinded_def server_kinds_def server_flags_def)
  then show ?thesis by (cases "fs ''lease-ttl''"; cases "the (fs ''lease-ttl'')") (auto simp: flag_int_def)
qed

lemma DefaultWalPath_nonempty: "DefaultWalPath tmp port \<noteq> ''''"
  by (simp add: DefaultWalPath_def filepath_Join_nonempty)

text \<open>
  C36: The configurations the server command can run with are exactly the well-formed ones: the three
  required flags and the path of the log are not empty, there is at least one file, the lease fits
  in 64 bits and the poll is a second. No command line gives another, and each has a command line
  that gives it unchanged.
\<close>

theorem server_configs_are_the_well_formed:
  "(\<exists>argv. server_config tmp dur argv = Inr c) \<longleftrightarrow>
     EtcdEndpoints c \<noteq> '''' \<and> BackupAddr c \<noteq> '''' \<and> ReplPort c \<noteq> '''' \<and> WalPath c \<noteq> '''' \<and> Files c \<noteq> [] \<and>
     - (2 ^ 63) \<le> LeaseTTL c \<and> LeaseTTL c < 2 ^ 63 \<and> LeasePoll c = 1000000000" (is "?L \<longleftrightarrow> ?R")
proof
  assume ?L
  then obtain argv where "server_config tmp dur argv = Inr c" ..
  then show ?R
    by (auto simp: server_config_def Let_def DefaultWalPath_nonempty split: flag_outcome.splits if_splits dest: server_lease_range)
next
  assume ?R
  then have "server_config tmp dur (server_args c) = Inr c" by (simp add: server_args_read_back)
  then show ?L ..
qed

subsection \<open>The server command brings up a pair\<close>

lemma numbered_Seq_nonzero: "numbered es \<Longrightarrow> e \<in> set es \<Longrightarrow> Seq e \<noteq> 0"
proof -
  assume n: "numbered es" and "e \<in> set es"
  then obtain i where "i < length es" "Seq e = of_nat (Suc i)" by (auto simp: numbered_def in_set_conv_nth)
  moreover have "Suc i \<le> seq_limit" using n \<open>i < length es\<close> by (simp add: numbered_def)
  ultimately show ?thesis using of_nat_u64_eq [of "Suc i" 0] by simp
qed

lemma New_opens:
  assumes "codec_ok C" and "enc C es = Some bs" and "numbered es"
    and "(case d (WalPath c) of None \<Rightarrow> [] | Some bs \<Rightarrow> bs) = bs"
  shows "\<exists>n. New C c d (sconst IOok) None other = Inr n \<and>
    EtcdKey (cfg n) = (if EtcdKey c = '''' then DefaultKey else EtcdKey c) \<and>
    LeaseTTL (cfg n) = (if LeaseTTL c = 0 then 5 else LeaseTTL c) \<and> Files (cfg n) = Files c \<and>
    ClientPort (cfg n) = ClientPort c \<and> BackupAddr (cfg n) = BackupAddr c \<and>
    wal_ok C (p_wal (proc n)) \<and> entries C (p_wal (proc n)) = es \<and> mem (proc n) = initial_store \<and> peer (proc n) = other"
proof -
  from Open_decode [where disk = d and p = "WalPath c", OF assms(1,2) _ assms(4)] numbered_Seq_nonzero [OF assms(3)] obtain l where
    "Open C (WalPath c) d (sconst IOok) = Inr l" "wal_ok C l" "entries C l = es" by blast
  then show ?thesis by (simp add: New_def Let_def)
qed

lemma RunAsLeader_synced:
  assumes "repl_inv C (proc n)" and "accepting (handler (peer (proc n)))" and "CurrentClients (mem (proc n)) = Map.empty"
    and "\<And>x. x \<in> set (entries C (p_wal (proc n))) \<Longrightarrow> entry_valid (length (Files (cfg n))) x"
    and "length (Files (cfg n)) < 2 ^ 31" and "a_replay (entries C (p_wal (proc n))) Map.empty = Some m"
    and "Acquire E (EtcdKey (cfg n)) (primaryValue n) (LeaseTTL (cfg n)) e = (Inr s, e1)"
    and "t_rounds env = Dialled (sconst Delivered) # rounds"
    and "t_resolve env = None" and "t_udp env = None" and "t_tcp env = None"
  shows "\<exists>n' srv. RunAsLeader C E env e n = Some (BlocksForever, n', e1) \<and> role n' = roleLeader \<and>
    session n' = Some (SetOnLost s) \<and> clientSrv n' = Some srv \<and> synced C (rt_control srv) (proc n') \<and>
    online (proc n') \<and> abs_store (mem (proc n')) = m \<and> station_names (mem (proc n')) = Files (cfg n)"
proof -
  let ?m0 = "InitStations (Files (cfg n)) (mem (proc n))"
  let ?w = "(proc n)\<lparr>mem := ?m0\<rparr>"
  from take_over_replay [OF assms(3,4,6), of "''recover seq ''"] obtain m1 where
    m1: "replay ''recover seq '' (entries C (p_wal (proc n))) ?m0 = Some (None, m1)" "store_inv m1" "abs_store m1 = m"
      "station_names m1 = Files (cfg n)" by auto
  have "repl_inv C ?w" using assms(1) by (simp add: repl_inv_def)
  from startWithWal_online [OF this, of m1 "BackupAddr (cfg n)" rounds] startWithWal_done [OF this] assms(2) m1(1) obtain w' where
    w': "startWithWal C (BackupAddr (cfg n)) (Dialled (sconst Delivered) # rounds) ?w = Some (None, w')" "online w'"
      "mem w' = m1" "repl_inv C w'" "p_wal w' = p_wal (proc n)" "b_entries C (peer w') = entries C (p_wal (proc n))"
    by fastforce
  have "length (StationList m1) = length (Files (cfg n))" using m1(4) by (metis length_map station_names_def)
  with assms(4-6) m1 w' have "reflects (entries C (p_wal w')) (mem w')" by (simp add: reflects_def)
  with w' have "synced C \<lparr>srv_NumStations = k, Repl = ReplicateAndWait C\<rparr> w'" for k
    by (simp add: synced_def serving_def seeded_def)
  with w' m1 assms(7-11) show ?thesis
    by (simp add: RunAsLeader_def StartWithWal_def Serve_ok Let_def primaryValue_def startKeepalive_def stopKeepalive_def)
qed

text \<open>
  C15: The server command on a machine with a log of an earlier run, the leadership key obtained and
  the backup answering with a prefix of that log: the process runs as leader, holds the key, has
  recovered exactly the assignment of the log, and the pair is synchronised, which is where the
  requests and the takeover start from.
\<close>

theorem server_brings_up_pair:
  assumes "server_config (tmpdir mc) (parse_duration mc) argv = Inr c"
    and "codec_ok C" and "enc C es = Some bs" and "numbered es"
    and "(case disk mc (WalPath c) of None \<Rightarrow> [] | Some bs \<Rightarrow> bs) = bs"
    and "disk_fates mc = sconst IOok" and "etcd_dial mc = None"
    and "backup_inv C es (other_node mc)" and "accepting (handler (other_node mc))"
    and "\<And>x. x \<in> set es \<Longrightarrow> entry_valid (length (Files c)) x" and "length (Files c) < 2 ^ 31"
    and "a_replay es Map.empty = Some m"
    and "etcd_ok E view" and "Acquire E (if EtcdKey c = '''' then DefaultKey else EtcdKey c) (''127.0.0.1:'' @ ClientPort c)
      (if LeaseTTL c = 0 then 5 else LeaseTTL c) e = (Inr s, e1)"
    and "t_rounds env = Dialled (sconst Delivered) # rounds"
    and "t_resolve env = None" and "t_udp env = None" and "t_tcp env = None"
  shows "\<exists>n' srv. server_main C E mc env argv e = Some (Runs, Some n', e1) \<and> role n' = roleLeader \<and>
    holds view e1 s \<and> clientSrv n' = Some srv \<and> synced C (rt_control srv) (proc n') \<and>
    abs_store (mem (proc n')) = m \<and> station_names (mem (proc n')) = Files c"
proof -
  from New_opens [where d = "disk mc" and c = c and other = "other_node mc", OF assms(2-5)] obtain n where
    n: "New C c (disk mc) (sconst IOok) None (other_node mc) = Inr n"
      "EtcdKey (cfg n) = (if EtcdKey c = '''' then DefaultKey else EtcdKey c)"
      "LeaseTTL (cfg n) = (if LeaseTTL c = 0 then 5 else LeaseTTL c)" "Files (cfg n) = Files c"
      "ClientPort (cfg n) = ClientPort c"
      "wal_ok C (p_wal (proc n))" "entries C (p_wal (proc n)) = es" "mem (proc n) = initial_store"
      "peer (proc n) = other_node mc" by blast
  have "repl_inv C (proc n)" using n(6,7,9) assms(4,8) by (simp add: repl_inv_def)
  moreover have "Acquire E (EtcdKey (cfg n)) (primaryValue n) (LeaseTTL (cfg n)) e = (Inr s, e1)"
    using assms(14) n(2,3,5) by (simp add: primaryValue_def)
  ultimately obtain n' srv where
    r: "RunAsLeader C E env e n = Some (BlocksForever, n', e1)" "role n' = roleLeader" "clientSrv n' = Some srv"
      "synced C (rt_control srv) (proc n')" "abs_store (mem (proc n')) = m" "station_names (mem (proc n')) = Files c"
    using RunAsLeader_synced [of C n m E e s e1 env rounds] n(4,7-9) assms(9-12,15-18)
    by (auto simp: initial_store_def)
  obtain key val ttl where "TryAcquire E key val ttl e = (Inr (Some s), e1)"
    using assms(14) by (auto simp: Acquire_def split: prod.splits sum.splits option.splits)
  from TryAcquire_view [OF assms(13) this] have "holds view e1 s" by (auto simp: holds_def)
  with r n(1) assms(1,6,7) show ?thesis by (simp add: server_main_def)
qed

text \<open>A machine with the log of an earlier run, in which one client said hello.\<close>

definition old_log :: "WalEntry list" where
  "old_log = [(handshake_entry 5000)\<lparr>Seq := 1\<rparr>]"

definition new_machine :: machine where
  "new_machine =
     \<lparr>tmpdir = ''/tmp'', parse_duration = (\<lambda>_. Inl EOF), disk = [''w'' \<mapsto> the (enc wire_codec old_log)], disk_fates = sconst IOok, etcd_dial = None,
      other_node = fresh_backup\<rparr>"

lemma new_machine_config:
  "server_config ''/tmp'' (\<lambda>_. Inl EOF)
     [''--etcd-endpoints'', ''127.0.0.1:2379'', ''-backup-addr=127.0.0.1:16801'', ''--repl-port'', ''16802'', ''--wal'', ''w'',
      ''16800'', ''mp3/a.mp3''] =
   Inr \<lparr>EtcdEndpoints = ''127.0.0.1:2379'', EtcdKey = '''', LeaseTTL = 5, LeasePoll = 1000000000, ClientPort = ''16800'',
     ReplPort = ''16802'', BackupAddr = ''127.0.0.1:16801'', WalPath = ''w'', Files = [''mp3/a.mp3'']\<rparr>"
  by (simp add: server_config_def server_flags_def split_flag_def bad_name_def set_flag_def flag_string_def flag_int_def)

theorem server_brings_up_pair_witness:
  "\<exists>e1 n' srv. server_main wire_codec mem_etcd new_machine calm
     [''--etcd-endpoints'', ''127.0.0.1:2379'', ''-backup-addr=127.0.0.1:16801'', ''--repl-port'', ''16802'', ''--wal'', ''w'',
      ''16800'', ''mp3/a.mp3''] (0, []) = Some (Runs, Some n', e1) \<and>
    clientSrv n' = Some srv \<and> synced wire_codec (rt_control srv) (proc n') \<and>
    abs_store (mem (proc n')) = [client_key 5000 \<mapsto> -1] \<and> station_names (mem (proc n')) = [''mp3/a.mp3'']"
proof -
  have l: "numbered old_log" "a_replay old_log Map.empty = Some [client_key 5000 \<mapsto> -1]"
    "\<And>x. x \<in> set old_log \<Longrightarrow> entry_valid 1 x"
    by (simp_all add: old_log_def numbered_def seq_limit_def a_replay_def a_entry_def entry_valid_def handshake_entry_def Let_def)
  have "storable wire_codec ((handshake_entry 5000)\<lparr>Seq := 1\<rparr>)" by (simp add: handshake_entry_def getClientIP_def)
  then obtain bs where bs: "enc wire_codec old_log = Some bs" by (auto simp: old_log_def elim: storableE)
  have b: "backup_inv wire_codec old_log fresh_backup" "accepting (handler fresh_backup)"
    using wire_codec_ok by (simp_all add: backup_inv_def fresh_backup_def StartReplServer_handler_def)
  obtain s e1 where a: "Acquire mem_etcd DefaultKey ''127.0.0.1:16800'' 5 (0, []) = (Inr s, e1)"
    by (simp add: Acquire_def TryAcquire_def mem_etcd_def mem_view_def create_revision_def Let_def)
  let ?argv = "[''--etcd-endpoints'', ''127.0.0.1:2379'', ''-backup-addr=127.0.0.1:16801'', ''--repl-port'', ''16802'',
    ''--wal'', ''w'', ''16800'', ''mp3/a.mp3'']"
  let ?c = "\<lparr>EtcdEndpoints = ''127.0.0.1:2379'', EtcdKey = '''', LeaseTTL = 5, LeasePoll = 1000000000,
    ClientPort = ''16800'', ReplPort = ''16802'', BackupAddr = ''127.0.0.1:16801'', WalPath = ''w'', Files = [''mp3/a.mp3'']\<rparr>"
  have "\<exists>n' srv. server_main wire_codec mem_etcd new_machine calm ?argv (0, []) = Some (Runs, Some n', e1) \<and>
    role n' = roleLeader \<and> holds mem_view e1 s \<and> clientSrv n' = Some srv \<and>
    synced wire_codec (rt_control srv) (proc n') \<and> abs_store (mem (proc n')) = [client_key 5000 \<mapsto> -1] \<and>
    station_names (mem (proc n')) = Files ?c"
    by (rule server_brings_up_pair [where es = old_log and bs = bs and rounds = "[]", OF _ wire_codec_ok bs l(1) _ _ _ _ _ _ _ l(2) mem_etcd_ok])
      (use new_machine_config b l(3) a bs in \<open>simp_all add: new_machine_def calm_def\<close>)
  then show ?thesis by auto
qed

end
