(* ===== verification/Listener.thy ===== *)
theory Listener
  imports Runtime_Props
begin

section \<open>The listener (cmd/snowcast_listener/main.go)\<close>

text \<open>
  The program that plays a station: it reads datagrams from its port into a buffer of 1500 bytes and
  writes what it read to its output, for ever. What its reads return is an argument. Composed with
  a station's stream it reproduces the file.
\<close>

datatype udp_read = Packet "byte list" | ReadError error

datatype listener_out =
    Usage_fatal
  | ResolveLine error
  | ConnectLine error
  | ReadLine error
  | Bytes "byte list"

text \<open>A longer datagram is cut to the buffer; a read that fails returns no bytes.\<close>

definition listener_round :: "udp_read \<Rightarrow> listener_out list" where
  "listener_round r =
     (case r of
        Packet p \<Rightarrow> [Bytes (take 1500 p)]
      | ReadError err \<Rightarrow> [ReadLine err, Bytes []])"

definition listener_main :: "string list \<Rightarrow> error option \<Rightarrow> error option \<Rightarrow> udp_read list \<Rightarrow> listener_out list" where
  "listener_main args resolve listen reads =
     (if length args \<noteq> 2 then [Usage_fatal]
      else
     (case resolve of
        Some err \<Rightarrow> [ResolveLine err]
      | None \<Rightarrow>
     (case listen of
        Some err \<Rightarrow> [ConnectLine err]
      | None \<Rightarrow> concat (map listener_round reads))))"

text \<open>What reaches an address of the datagrams of a station, in order and without loss, and what is played.\<close>

definition received :: "UDPAddr \<Rightarrow> datagram list \<Rightarrow> udp_read list" where
  "received a out = map (\<lambda>d. Packet (fst d)) (filter (\<lambda>d. snd d = a) out)"

fun played :: "listener_out list \<Rightarrow> byte list" where
  "played [] = []"
| "played (Bytes bs # out) = bs @ played out"
| "played (_ # out) = played out"

lemma played_append [simp]: "played (out @ out') = played out @ played out'"
  by (induction out rule: played.induct) simp_all

lemma received_append [simp]: "received a (out @ out') = received a out @ received a out'"
  by (simp add: received_def)

subsection \<open>The listener hears its station\<close>

lemma filter_one: "distinct xs \<Longrightarrow> x \<in> set xs \<Longrightarrow> (\<And>y. y \<in> set xs \<Longrightarrow> P y \<longleftrightarrow> y = x) \<Longrightarrow> filter P xs = [x]"
proof (induction xs)
  case (Cons y xs)
  show ?case
  proof (cases "y = x")
    case True
    with Cons.prems have "filter P xs = []" by (auto simp: filter_empty_conv)
    with True Cons.prems(3) [of x] show ?thesis by simp
  next
    case False
    with Cons.prems Cons.IH show ?thesis by auto
  qed
qed simp

lemma received_piece:
  assumes "distinct (st_Clients (StationList m ! i))" and "a \<in> set (st_Clients (StationList m ! i))"
    and "\<And>b. b \<in> set (st_Clients (StationList m ! i)) \<Longrightarrow> ci_UDPAddr (heap m ! b) = ci_UDPAddr (heap m ! a) \<Longrightarrow> b = a"
  shows "received (ci_UDPAddr (heap m ! a)) (to_clients m i p) = [Packet p]"
proof -
  have "filter (\<lambda>b. ci_UDPAddr (heap m ! b) = ci_UDPAddr (heap m ! a)) (st_Clients (StationList m ! i)) = [a]"
    using assms by (intro filter_one) auto
  then show ?thesis by (simp add: received_def filter_map comp_def)
qed

lemma played_pieces:
  assumes "\<And>p. p \<in> set ps \<Longrightarrow> length p \<le> 1500"
  shows "played (concat (map listener_round (map Packet ps))) = concat ps"
  using assms by (induction ps) (simp_all add: listener_round_def)

text \<open>
  C19: A listener on the address of a client hears its station: when the datagrams of a round through
  the file arrive in order, what it writes is the file, byte for byte and once, whatever other
  clients the station has. No datagram is longer than the listener's buffer.
\<close>

theorem listener_hears_file:
  assumes "store_inv m" and "CurrentClients m k = Some a" and "abs_store m k = Some (int i)" and "i < length (StationList m)"
    and "\<And>k' b. CurrentClients m k' = Some b \<Longrightarrow> ci_UDPAddr (heap m ! b) = ci_UDPAddr (heap m ! a) \<Longrightarrow> b = a"
    and "healthy f" and "offset f = 0" and "length args = 2"
  shows "\<exists>n out. streamStation (Inr f) n i name m = Some (out, m) \<and>
    played (listener_main args None None (received (ci_UDPAddr (heap m ! a)) out)) = content f"
proof -
  let ?a = "ci_UDPAddr (heap m ! a)"
  note sc = station_clients [OF assms(1,4)]
  have "registered m a" "CurrStation (heap m ! a) = int i" using assms(2,3) registeredI by (auto simp: abs_store_def)
  then have a: "a \<in> set (st_Clients (StationList m ! i))"
    using store_invD(3) [OF assms(1)] assms(4) by (auto simp: stations_ok_def)
  have "b = a" if "b \<in> set (st_Clients (StationList m ! i))" "ci_UDPAddr (heap m ! b) = ?a" for b
    using sc(2) [OF that(1)] that(2) assms(5) by (auto simp: registered_def ran_def)
  note piece = received_piece [OF sc(1) a this]
  have r: "received ?a (concat (map (to_clients m i) ps)) = map Packet ps" for ps
    by (induction ps) (use piece in \<open>simp_all add: received_def\<close>)
  from station_plays_file [OF assms(6,7,4), of name] obtain ps f' where
    ps: "stream_ticks (length ps) i name f m = Some (concat (map (to_clients m i) ps), f', m)" "concat ps = content f"
      "\<forall>p\<in>set ps. 0 < length p \<and> length p \<le> 1500" by blast
  have "played (listener_main args None None (received ?a (concat (map (to_clients m i) ps)))) = content f"
    unfolding r listener_main_def using played_pieces [of ps] ps(2,3) assms(8) by auto
  moreover have "streamStation (Inr f) (length ps) i name m = Some (concat (map (to_clients m i) ps), m)"
    using ps(1) by (simp add: streamStation_def)
  ultimately show ?thesis by blast
qed

theorem listener_hears_file_witness:
  "\<exists>n out. streamStation (Inr song) n 0 ''a.mp3'' one_listener = Some (out, one_listener) \<and>
    played (listener_main [''snowcast_listener'', ''5000''] None None
      (received (ci_UDPAddr (heap one_listener ! 0)) out)) = replicate 2000 7"
proof -
  have k: "CurrentClients one_listener (client_key 5000) = Some 0" by (simp add: one_listener_def)
  have "abs_store one_listener (client_key 5000) = Some (int 0)" by (simp add: abs_store_def one_listener_def)
  moreover have "b = 0" if "CurrentClients one_listener k' = Some b" for k' b
    using that by (simp add: one_listener_def split: if_splits)
  ultimately show ?thesis
    using listener_hears_file [OF one_listener_inv k, of 0 song "[''snowcast_listener'', ''5000'']" "''a.mp3''"]
    by (auto simp: song_def healthy_def one_listener_def)
qed

end
