(* ===== verification/Spec2Isabelle.thy ===== *)
theory Spec2Isabelle
  imports Interleaving Requests_Clients Takeover Bench_Commands Bench_Sweep Commands_Props Listener Replication_Props
begin

section \<open>A verification of Snowcast\<close>

text \<open>
  \<^bold>\<open>The program.\<close> Snowcast is an Internet radio. A server streams each of its files (the stations) over
  UDP to the clients that chose that station, and clients control it over gRPC: they say hello,
  choose a station, leave. Two nodes form a pair. The primary records every change in a write-ahead
  log, applies it to its memory, and replicates the log entry to the backup before it answers the
  client. Leadership is a key in etcd held by a lease; when the lease goes, the backup replays its
  log and takes over.

  \<^bold>\<open>Theories and code.\<close>
  \<^item> \<^verbatim>\<open>Prelude\<close>: shared types, named theorem collections, the removal by swapping with the last element.
  \<^item> \<^verbatim>\<open>GoLib\<close>: what the code uses of Go's library: errors, decimal numbers, big-endian integers, files on
    a device that may fail at any call, channels, words of a line, IPv4 addresses.
  \<^item> \<^verbatim>\<open>Protocol\<close>: the messages of \<^verbatim>\<open>pkg/protocol\<close>. \<^verbatim>\<open>Wire\<close>: the proto3 encoding of log entries, an
    instance of the codec parameter. \<^verbatim>\<open>Log_Store\<close>: the interface of a log.
  \<^item> \<^verbatim>\<open>Wal\<close>: \<^verbatim>\<open>pkg/wal/wal.go\<close>, its reference reading \<open>decode\<close>, and that it implements the interface.
  \<^item> \<^verbatim>\<open>Station_State\<close>, \<^verbatim>\<open>Station_Inv\<close>, \<^verbatim>\<open>State_Props\<close>: \<^verbatim>\<open>internal/state/state.go\<close>. The abstract
    specification is the map from a client's key to its station; \<^verbatim>\<open>Entry_Machine\<close> is the interface of
    a state that is rebuilt by replaying entries.
  \<^item> \<^verbatim>\<open>Replication\<close>, \<^verbatim>\<open>Replication_Inv\<close>, \<^verbatim>\<open>Replication_Props\<close>: \<^verbatim>\<open>internal/replication\<close>. The invariant is
    that the backup's log is a prefix of the primary's. \<^verbatim>\<open>Replicator\<close>: the Go interface \<open>Replicator\<close>
    as a locale with its two implementations.
  \<^item> \<^verbatim>\<open>Control\<close>, \<^verbatim>\<open>Control_Inv\<close>, \<^verbatim>\<open>Control_Props\<close>: \<^verbatim>\<open>internal/control/grpc.go\<close>, proved against that interface.
  \<^item> \<^verbatim>\<open>Runtime\<close>, \<^verbatim>\<open>Runtime_Props\<close>: \<^verbatim>\<open>internal/runtime/runtime.go\<close>, streaming by ticks and the console.
  \<^item> \<^verbatim>\<open>Leadership\<close>: \<^verbatim>\<open>internal/leadership/etcd.go\<close> over an etcd client that is a parameter. The code's own
    transaction, its comparison and its put, is a value that the client evaluates.
  \<^item> \<^verbatim>\<open>Node\<close>, \<^verbatim>\<open>Node_Props\<close>: \<^verbatim>\<open>internal/node/manager.go\<close>, the roles as a step relation in which a promotion
    is three steps, so that a lease can be lost in the middle of one.
  \<^item> \<^verbatim>\<open>Failover\<close>: a primary's acknowledged steps. \<^verbatim>\<open>Takeover\<close>: the composition with the poll loop of a
    standby, from the lost primary to the node that replaces it. This theory: what breaks a log.
  \<^item> \<^verbatim>\<open>Requests\<close>: \<open>ReplicateAndWait\<close> of \<^verbatim>\<open>coordinator.go\<close> as calls in goroutines of their own, which interleave
    at every step that no lock covers. \<^verbatim>\<open>Requests_Inv\<close>: what holds under every schedule. \<^verbatim>\<open>Requests_Clients\<close>:
    requests of different clients. \<^verbatim>\<open>Interleaving\<close>: two schedules that go wrong.
  \<^item> \<^verbatim>\<open>Client\<close>: \<^verbatim>\<open>cmd/snowcast_control/main.go\<close> over the stub of the service, a locale that the handlers of
    \<^verbatim>\<open>Control\<close> implement, so that a whole session of the client runs against the server.
  \<^item> \<^verbatim>\<open>GoFlags\<close>, \<^verbatim>\<open>Commands\<close>, \<^verbatim>\<open>Commands_Props\<close>: command lines and paths of Go's library, and the programs
    \<^verbatim>\<open>cmd/snowcast_server\<close> and \<^verbatim>\<open>cmd/snowcast_backup\<close> down to the running node.
  \<^item> \<^verbatim>\<open>Listener\<close>: \<^verbatim>\<open>cmd/snowcast_listener\<close>, composed with a station's stream.
  \<^item> \<^verbatim>\<open>Stats\<close>: the percentiles of \<^verbatim>\<open>cmd/snowcast_bench/util.go\<close>, with the floating-point index rounded as the
    machine rounds it. \<^verbatim>\<open>Bench_Log\<close>, \<^verbatim>\<open>Bench_Log_Props\<close>: the markers of \<^verbatim>\<open>internal/bench\<close> and what is read
    back from a log.
  \<^item> \<^verbatim>\<open>Bench\<close>, \<^verbatim>\<open>Bench_Props\<close>, \<^verbatim>\<open>Bench_Pool\<close>: \<^verbatim>\<open>load.go\<close> and the replay of \<^verbatim>\<open>setup.go\<close>. A load goes through the
    same stub as the client; the goroutines of a concurrent load run by a schedule of their steps.
  \<^item> \<^verbatim>\<open>Bench_Sweep\<close>, \<^verbatim>\<open>Bench_Commands\<close>: the sweep over concurrency levels, and the commands of \<^verbatim>\<open>setup.go\<close> and
    \<^verbatim>\<open>failover.go\<close> from their flags to their reports.

  \<^bold>\<open>How state and effects are modelled.\<close> A Go struct is a record with the source's field names,
  prefixed where they would clash. Package variables are the record \<open>store\<close>; client records live
  in a heap because the code shares and compares their pointers. A function that changes state
  returns the new state; an error is a value of the type \<open>error\<close>; a panic is \<open>None\<close> of
  \<open>may_panic\<close>. What the program does not decide comes as an argument: the fate of every disk
  operation and of every remote call (streams, so that no bound is needed), the outcome of
  listening on a port, the events of a keepalive stream, the choice of a select. Sequence numbers
  are 64-bit words that wrap, ports and station numbers 32-bit words. No definition uses fuel: the
  read loop of the log terminates by the bytes left in the file, the other loops run over a list
  or a number of rounds.

  \<^bold>\<open>What the theorems show.\<close> The log gives back what was appended, also after a restart, and
  detects a torn record; reading it ends whatever the file holds. The memory implements its
  abstract map for every entry, and a replay of any log rebuilds, stops or panics as its entries say.
  Once the backup has an entry, or while both logs are empty, an acknowledged operation is in both
  logs, for every behaviour of the network, and one lost call is masked. On a pair whose backup has
  an entry both logs stay together for any number of requests at once, under every schedule of their
  steps, and a working network answers them all; requests of different
  clients leave what serving them one after the other leaves. The request handlers do what they
  answer and undo what they refuse. When the primary is lost, the standby that sees its key go takes
  it and, when no peer answers at the address it would replicate to, serves exactly the acknowledged
  assignment; while the key is held it changes nothing. At most one session holds the leadership
  key. A node never runs both of its servers as long as promotions and demotions do not overlap; a lease
  lost in the middle of a promotion leaves it with both. The server
  command runs with exactly the well-formed configurations and brings up a synchronised pair on the
  log of an earlier run; a client's session is its first existing station. A load against a
  running pair ends, sequential or under any schedule of its workers, which never share a client;
  it completes what it started and summarises what it measured, and a summary is the order
  statistics of its samples. Further theorems state where the code falls short: an
  acknowledged entry that an empty backup never stores, entries that stay in the log after a refused request, a log that no
  recovery reads after two racing handshakes, the second replay of a takeover, a rollback of an
  operation that never happened, a failed takeover that ends the node, a log whose order is not
  the order in memory, a client that handles no line once it listens, a node that serves clients
  after it lost its lease.

  \<^bold>\<open>Not modelled.\<close> gRPC, etcd, protobuf and the operating system are outside the program: they are
  parameters with the behaviour they document. Calls of \<open>ReplicateAndWait\<close>
  interleave in \<^verbatim>\<open>Requests\<close>, where the change a request makes in memory is one step although
  \<open>ApplySetStation\<close> releases its locks between its parts; elsewhere handlers run one at a time, also
  behind the stub that the clients and the loads call, and the theorem on racing handshakes names the
  interleaved steps. Of the manager's functions a promotion is cut into steps; the others run as a
  whole, and two loops of a standby at once are not modelled. The stub of a server assumes that the
  server goes on running. A remote call that takes effect only after its caller
  gave up is not modelled, nor are printed lines, the generated code of \<^verbatim>\<open>pkg/protocol\<close>, and
  \<^verbatim>\<open>protocol.go\<close>, which is commented out. Text typed or given on a command line is ASCII, and the
  parser of durations is a parameter. What a clock decides is an argument: how often a loop runs,
  what a request is measured to take. Of the benchmarks the dispatch of \<^verbatim>\<open>main.go\<close> and its JSON
  output, the rates of a load, which are quotients by the elapsed time, and the flags of the sweep,
  one of which is a float, are not modelled.
\<close>

subsection \<open>What breaks a log\<close>

text \<open>
  C39: Two handshakes of the same client that run at the same time can both pass the check of the
  handler before either is applied. The second one is refused in memory but its entry is already
  in the log: from then on no recovery of this log succeeds, on this node or on another.
\<close>

theorem racing_handshakes_poison_log:
  assumes "serving C s w" and "CurrentClients (mem w) (client_key port) = Some a" and "fits C (handshake_entry port) w"
  shows "\<exists>err w'. ReplicateAndWait C (handshake_entry port) (handshake_apply getClientIP port)
      (\<lambda>m. Some (RollbackHandshake getClientIP port m)) w = Some (Inl err, w') \<and> mem w' = mem w \<and>
    (\<forall>m. CurrentClients m = Map.empty \<longrightarrow>
      (\<exists>err' w''. recoverPrimary C (w'\<lparr>mem := InitStations (station_names (mem w)) m\<rparr>) = Some (Some err', w'')))"
proof -
  have inv: "repl_inv C w" "reflects (entries C (p_wal w)) (mem w)" using assms(1) by (simp_all add: serving_def)
  have r: "handshake_apply getClientIP port (mem w) =
      Some (Inl (Errorf (''client already connected: '' @ client_key port)), mem w)"
    using assms(2) by (simp add: handshake_apply_def ApplyHandshake_def Let_def)
  from ReplicateAndWait_refused [where f = "handshake_apply getClientIP port", OF inv(1) assms(3) r] obtain w' where
    w': "ReplicateAndWait C (handshake_entry port) (handshake_apply getClientIP port)
      (\<lambda>m. Some (RollbackHandshake getClientIP port m)) w =
        Some (Inl (Errorf (''client already connected: '' @ client_key port)), w')" "repl_inv C w'" "mem w' = mem w"
      "entries C (p_wal w') = entries C (p_wal w) @ [next_entry C (handshake_entry port) w]" by blast
  have "\<exists>err' w''. recoverPrimary C (w'\<lparr>mem := InitStations (station_names (mem w)) m\<rparr>) = Some (Some err', w'')"
    if "CurrentClients m = Map.empty" for m
  proof -
    let ?m = "InitStations (station_names (mem w)) m"
    have i: "store_inv ?m" "abs_store ?m = Map.empty" using InitStations_inv [OF that] by simp_all
    have n: "station_names ?m = station_names (mem w)" by (simp add: station_names_def InitStations_def comp_def)
    have "a_entry (next_entry C (handshake_entry port) w) (abs_store (mem w)) = None"
      using assms(2) by (simp add: a_entry_def next_entry_def handshake_entry_def Let_def abs_store_def)
    then have no: "a_replay (entries C (p_wal w')) (abs_store ?m) = None"
      using inv(2) w'(4) i(2) by (simp add: a_replay_snoc reflects_def)
    have v: "entry_valid (length (station_names ?m)) e" if "e \<in> set (entries C (p_wal w'))" for e
      using that inv(2) w'(4) n
      by (auto simp: reflects_def station_names_def entry_valid_def next_entry_def handshake_entry_def)
    from replay_refuses [OF i(1) v no, of "''recover seq ''"] obtain err' m' where
      "replay ''recover seq '' (entries C (p_wal w')) ?m = Some (Some err', m')" by blast
    then show ?thesis
      using recoverPrimary_ok [of C "w'\<lparr>mem := ?m\<rparr>" "Some err'" m'] repl_invD(1) [OF w'(2)] by simp
  qed
  with w'(1,3) show ?thesis by blast
qed

theorem racing_handshakes_poison_log_witness:
  "\<exists>w err w'. CurrentClients (mem w) (client_key 5000) = Some 0 \<and>
    ReplicateAndWait wire_codec (handshake_entry 5000) (handshake_apply getClientIP 5000)
      (\<lambda>m. Some (RollbackHandshake getClientIP 5000 m)) w = Some (Inl err, w') \<and>
    (\<exists>err' w''. recoverPrimary wire_codec (w'\<lparr>mem := InitStations (station_names (mem w)) initial_store\<rparr>) =
      Some (Some err', w''))"
proof -
  obtain w where w: "serving wire_codec fresh_server w" "CurrentClients (mem w) (client_key 5000) = Some 0"
    "length (entries wire_codec (p_wal w)) = 1" using connected_world by metis
  have "fits wire_codec (handshake_entry 5000) w"
    by (rule small_log_fits [OF w(3)]) (simp add: handshake_entry_def getClientIP_def)
  from racing_handshakes_poison_log [OF w(1,2) this] w(2) show ?thesis
    by (auto simp: initial_store_def)
qed

text \<open>
  The local coordinator runs the rollback also when the operation was refused: a second
  handshake of a connected client that has passed the check removes that client's registration,
  although the client was told it is connected. The coordinator with a peer leaves the memory
  alone in the same situation.
\<close>

theorem local_refusal_unregisters:
  assumes "local_inv C w" and "CurrentClients (mem w) (client_key port) = Some a" and "fits C (handshake_entry port) w"
  shows "\<exists>err w'. Local_ReplicateAndWait C (handshake_entry port) (handshake_apply getClientIP port)
      (\<lambda>m. Some (RollbackHandshake getClientIP port m)) w = Some (Inl err, w') \<and>
    CurrentClients (mem w') = (CurrentClients (mem w))(client_key port := None)"
proof -
  from Append_world [of C w "handshake_entry port"] assms(1,3) obtain l where
    "Append C (handshake_entry port) (p_wal w) =
      (Inr (Seq (next_entry C (handshake_entry port) w)), next_entry C (handshake_entry port) w, l)"
    by (auto simp: local_inv_def)
  with assms(2) show ?thesis
    by (simp add: Local_ReplicateAndWait_def handshake_apply_def ApplyHandshake_def RollbackHandshake_def Let_def)
qed

theorem local_refusal_unregisters_witness:
  "\<exists>w err w'. CurrentClients (mem w) (client_key 5000) = Some 0 \<and>
    Local_ReplicateAndWait wire_codec (handshake_entry 5000) (handshake_apply getClientIP 5000)
      (\<lambda>m. Some (RollbackHandshake getClientIP 5000 m)) w = Some (Inl err, w') \<and>
    CurrentClients (mem w') (client_key 5000) = None"
proof -
  obtain w where w: "serving wire_codec fresh_server w" "CurrentClients (mem w) (client_key 5000) = Some 0"
    "length (entries wire_codec (p_wal w)) = 1" using connected_world by metis
  have "fits wire_codec (handshake_entry 5000) w"
    by (rule small_log_fits [OF w(3)]) (simp add: handshake_entry_def getClientIP_def)
  moreover have "local_inv wire_codec w" using w(1) by (simp add: serving_def local_inv_def repl_inv_def)
  ultimately show ?thesis using local_refusal_unregisters [of wire_codec w 5000 0] w(2) by fastforce
qed

end
